(* ===== verification/Prelude.thy ===== *)
theory Prelude
  imports Main "HOL-Library.Sublist" "HOL-Library.Char_ord" "HOL-Library.List_Lexorder"
begin

text \<open>
  What every component of the library shares: Go strings as lists of bytes (a HOL \<open>char\<close> is one
  byte), the functions of the packages \<open>strings\<close>, \<open>strconv\<close> and \<open>regexp\<close> the sources use, written
  out on bytes, and the lemmas on them that the component proofs use through the collection
  \<open>go_simps\<close>.
\<close>

named_theorems go_simps
named_theorems go_intros

type_synonym bytes = string

section \<open>Bytes and character classes\<close>

definition ord_of :: "char \<Rightarrow> nat" where
  "ord_of c = of_char c"

definition is_digit :: "char \<Rightarrow> bool" where
  "is_digit c \<longleftrightarrow> 48 \<le> ord_of c \<and> ord_of c \<le> 57"

definition is_lower :: "char \<Rightarrow> bool" where
  "is_lower c \<longleftrightarrow> 97 \<le> ord_of c \<and> ord_of c \<le> 122"

definition is_upper :: "char \<Rightarrow> bool" where
  "is_upper c \<longleftrightarrow> 65 \<le> ord_of c \<and> ord_of c \<le> 90"

definition is_hex :: "char \<Rightarrow> bool" where
  "is_hex c \<longleftrightarrow> is_digit c \<or> (97 \<le> ord_of c \<and> ord_of c \<le> 102) \<or> (65 \<le> ord_of c \<and> ord_of c \<le> 70)"

definition hex_val :: "char \<Rightarrow> nat" where
  "hex_val c = (if is_digit c then ord_of c - 48 else if 97 \<le> ord_of c then ord_of c - 87 else ord_of c - 55)"

definition digit_char :: "nat \<Rightarrow> char" where
  "digit_char n = char_of (48 + n)"

definition hex_char :: "nat \<Rightarrow> char" where
  "hex_char n = (if n < 10 then char_of (48 + n) else char_of (87 + n))"

lemma ord_of_less [simp]: "ord_of c < 256"
  by (simp add: ord_of_def)

lemma ord_of_char_of [simp]: "n < 256 \<Longrightarrow> ord_of (char_of n) = n"
  by (simp add: ord_of_def)

lemma char_of_ord_of [simp]: "char_of (ord_of c) = c"
  by (simp add: ord_of_def)

lemma ord_of_eq_iff: "ord_of c = ord_of d \<longleftrightarrow> c = d"
  by (metis char_of_ord_of)

text \<open>A \<open>char\<close> literal is compared through its code: the lemma turns \<open>c = CHR \<dots>\<close> into arithmetic.\<close>

lemma char_eq_ord: "c = d \<longleftrightarrow> ord_of c = ord_of d"
  by (simp add: ord_of_eq_iff)

section \<open>strings\<close>

text \<open>\<open>strings.HasPrefix\<close>, \<open>strings.HasSuffix\<close>, \<open>strings.TrimPrefix\<close>.\<close>

definition has_prefix :: "string \<Rightarrow> string \<Rightarrow> bool" where
  "has_prefix s p \<longleftrightarrow> prefix p s"

definition has_suffix :: "string \<Rightarrow> string \<Rightarrow> bool" where
  "has_suffix s p \<longleftrightarrow> suffix p s"

definition trim_prefix :: "string \<Rightarrow> string \<Rightarrow> string" where
  "trim_prefix s p = (if has_prefix s p then drop (length p) s else s)"

definition trim_suffix :: "string \<Rightarrow> string \<Rightarrow> string" where
  "trim_suffix s p = (if has_suffix s p then take (length s - length p) s else s)"

text \<open>\<open>strings.Split(s, sep)\<close> for a one-byte separator: never the empty list.\<close>

fun split_on :: "char \<Rightarrow> string \<Rightarrow> string list" where
  "split_on c [] = [[]]"
| "split_on c (x # xs) =
     (if x = c then [] # split_on c xs
      else (case split_on c xs of [] \<Rightarrow> [[x]] | y # ys \<Rightarrow> (x # y) # ys))"

text \<open>\<open>strings.Join\<close>.\<close>

fun join :: "string \<Rightarrow> string list \<Rightarrow> string" where
  "join sep [] = []"
| "join sep [x] = x"
| "join sep (x # y # ys) = x @ sep @ join sep (y # ys)"

text \<open>The text before the first separator: \<open>strings.Cut\<close>'s first result.\<close>

definition cut_before :: "char \<Rightarrow> string \<Rightarrow> string" where
  "cut_before c s = takeWhile (\<lambda>x. x \<noteq> c) s"

text \<open>\<open>strings.TrimSpace\<close>: the UTF-8 encodings of the code points with the property White_Space
  (the ASCII ones, U+0085, U+00A0, U+1680, U+2000 to U+200A, U+2028, U+2029, U+202F, U+205F and
  U+3000) are removed at both ends.\<close>

definition ws_runes :: "string list" where
  "ws_runes = map (\<lambda>c. [c]) [CHR 0x09, CHR 0x0A, CHR 0x0B, CHR 0x0C, CHR 0x0D, CHR 0x20]
     @ [[CHR 0xC2, CHR 0x85], [CHR 0xC2, CHR 0xA0], [CHR 0xE1, CHR 0x9A, CHR 0x80]]
     @ map (\<lambda>c. [CHR 0xE2, CHR 0x80, c]) [CHR 0x80, CHR 0x81, CHR 0x82, CHR 0x83, CHR 0x84, CHR 0x85, CHR 0x86, CHR 0x87, CHR 0x88, CHR 0x89, CHR 0x8A, CHR 0xA8, CHR 0xA9, CHR 0xAF]
     @ [[CHR 0xE2, CHR 0x81, CHR 0x9F], [CHR 0xE3, CHR 0x80, CHR 0x80]]"

definition strip_ws :: "string \<Rightarrow> string option" where
  "strip_ws s = (case find (\<lambda>w. prefix w s) ws_runes of None \<Rightarrow> None | Some w \<Rightarrow> Some (drop (length w) s))"

lemma ws_runes_ne: "w \<in> set ws_runes \<Longrightarrow> w \<noteq> []"
  by (auto simp: ws_runes_def)

lemma strip_ws_shorter: "strip_ws s = Some t \<Longrightarrow> length t < length s"
proof -
  assume a: "strip_ws s = Some t"
  then obtain w where w: "find (\<lambda>w. prefix w s) ws_runes = Some w" and t: "t = drop (length w) s"
    by (auto simp: strip_ws_def split: option.splits)
  from w have "w \<in> set ws_runes" and p: "prefix w s" by (auto simp: find_Some_iff)
  then have "w \<noteq> []" by (simp add: ws_runes_ne)
  with p have "s \<noteq> []" by auto
  with \<open>w \<noteq> []\<close> t show "length t < length s" by (cases w; cases s) auto
qed

function trim_left :: "string \<Rightarrow> string" where
  "trim_left s = (case strip_ws s of None \<Rightarrow> s | Some t \<Rightarrow> trim_left t)"
  by pat_completeness auto
termination
  by (relation "measure length") (auto dest: strip_ws_shorter)

definition strip_ws_end :: "string \<Rightarrow> string option" where
  "strip_ws_end s = (case find (\<lambda>w. suffix w s) ws_runes of None \<Rightarrow> None
     | Some w \<Rightarrow> Some (take (length s - length w) s))"

lemma strip_ws_end_shorter: "strip_ws_end s = Some t \<Longrightarrow> length t < length s"
proof -
  assume a: "strip_ws_end s = Some t"
  then obtain w where w: "find (\<lambda>w. suffix w s) ws_runes = Some w" and t: "t = take (length s - length w) s"
    by (auto simp: strip_ws_end_def split: option.splits)
  from w have "w \<in> set ws_runes" and p: "suffix w s" by (auto simp: find_Some_iff)
  then have "w \<noteq> []" by (simp add: ws_runes_ne)
  with p have "s \<noteq> []" by auto
  with \<open>w \<noteq> []\<close> t show "length t < length s" by (cases w; cases s) auto
qed

function trim_right :: "string \<Rightarrow> string" where
  "trim_right s = (case strip_ws_end s of None \<Rightarrow> s | Some t \<Rightarrow> trim_right t)"
  by pat_completeness auto
termination
  by (relation "measure length") (auto dest: strip_ws_end_shorter)

declare trim_left.simps [simp del] trim_right.simps [simp del]

definition trim_space :: "string \<Rightarrow> string" where
  "trim_space s = trim_right (trim_left s)"

text \<open>\<open>strings.ToUpper\<close> on the ASCII letters.\<close>

definition to_upper1 :: "char \<Rightarrow> char" where
  "to_upper1 c = (if is_lower c then char_of (ord_of c - 32) else c)"

section \<open>strconv\<close>

text \<open>\<open>strconv.Itoa\<close> and \<open>strconv.FormatInt(_, 10)\<close>.\<close>

fun show_nat :: "nat \<Rightarrow> string" where
  "show_nat n = (if n < 10 then [digit_char n] else show_nat (n div 10) @ [digit_char (n mod 10)])"

declare show_nat.simps [simp del]

definition show_int :: "int \<Rightarrow> string" where
  "show_int i = (if i < 0 then CHR ''-'' # show_nat (nat (- i)) else show_nat (nat i))"

fun read_nat_acc :: "nat \<Rightarrow> string \<Rightarrow> nat option" where
  "read_nat_acc acc [] = Some acc"
| "read_nat_acc acc (c # cs) =
     (if is_digit c then read_nat_acc (10 * acc + (ord_of c - 48)) cs else None)"

definition read_nat :: "string \<Rightarrow> nat option" where
  "read_nat s = (if s = [] then None else read_nat_acc 0 s)"

text \<open>\<open>strconv.Atoi\<close> and \<open>strconv.ParseInt(s, 10, 64)\<close>: an optional sign, at least one digit, the
  value in the range of \<open>int64\<close>; \<open>None\<close> is the error.\<close>

definition int64_ok :: "int \<Rightarrow> bool" where
  "int64_ok i \<longleftrightarrow> - (2 ^ 63) \<le> i \<and> i < 2 ^ 63"

definition parse_int :: "string \<Rightarrow> int option" where
  "parse_int s =
     (let (neg, ds) = (case s of [] \<Rightarrow> (False, s)
            | c # cs \<Rightarrow> if c = CHR ''-'' then (True, cs) else if c = CHR ''+'' then (False, cs) else (False, s))
      in case read_nat ds of None \<Rightarrow> None
         | Some n \<Rightarrow> (let i = (if neg then - int n else int n) in if int64_ok i then Some i else None))"

text \<open>Wrap-around of an \<open>int64\<close> result.\<close>

definition wrap64 :: "int \<Rightarrow> int" where
  "wrap64 i = (i + 2 ^ 63) mod 2 ^ 64 - 2 ^ 63"

definition wrap32 :: "int \<Rightarrow> int" where
  "wrap32 i = (i + 2 ^ 31) mod 2 ^ 32 - 2 ^ 31"

section \<open>Identifiers and UUIDs\<close>

text \<open>The pattern \<open>^[a-z_][a-z0-9_]*$\<close>, the column, function and parameter names of the database.\<close>

definition is_ident :: "string \<Rightarrow> bool" where
  "is_ident s = (case s of [] \<Rightarrow> False
     | c # cs \<Rightarrow> (is_lower c \<or> c = CHR ''_'') \<and> list_all (\<lambda>x. is_lower x \<or> is_digit x \<or> x = CHR ''_'') cs)"

text \<open>The shape of a UUID: the loop over the 36 bytes with the hyphens at 8, 13, 18 and 23.\<close>

fun uuid_from :: "nat \<Rightarrow> string \<Rightarrow> bool" where
  "uuid_from i [] = True"
| "uuid_from i (c # cs) =
     (if i = 8 \<or> i = 13 \<or> i = 18 \<or> i = 23 then c = CHR ''-'' \<and> uuid_from (Suc i) cs
      else is_hex c \<and> uuid_from (Suc i) cs)"

definition uuid_shape :: "string \<Rightarrow> bool" where
  "uuid_shape s = (if length s \<noteq> 36 then False else uuid_from 0 s)"

section \<open>Lemmas\<close>

lemma has_prefix_append [simp]: "has_prefix (p @ s) p"
  by (simp add: has_prefix_def)

lemma has_prefix_refl [simp]: "has_prefix s s"
  by (simp add: has_prefix_def)

lemma has_prefix_length: "has_prefix s p \<Longrightarrow> length p \<le> length s"
  by (simp add: has_prefix_def prefix_length_le)

lemma trim_prefix_append [simp]: "trim_prefix (p @ s) p = s"
  by (simp add: trim_prefix_def)

lemma split_on_ne [simp]: "split_on c s \<noteq> []"
  by (induction s) (auto split: list.splits)

lemma split_on_nosep: "c \<notin> set s \<Longrightarrow> split_on c s = [s]"
  by (induction s) auto

lemma split_on_append: "c \<notin> set s \<Longrightarrow> split_on c (s @ c # t) = s # split_on c t"
  by (induction s) (auto split: list.splits)

lemma split_on_set: "x \<in> set (split_on c s) \<Longrightarrow> set x \<subseteq> set s - {c}"
  by (induction s arbitrary: x) (fastforce split: if_splits list.splits)+

lemma join_split: "join [c] (split_on c s) = s"
proof (induction s)
  case (Cons x xs)
  obtain y ys where "split_on c xs = y # ys"
    by (cases "split_on c xs") auto
  with Cons show ?case by (cases ys) auto
qed simp

lemma is_ident_ne: "is_ident s \<Longrightarrow> s \<noteq> []"
  by (auto simp: is_ident_def)

lemma is_digit_digit_char [simp]: "n < 10 \<Longrightarrow> is_digit (digit_char n)"
  by (simp add: is_digit_def digit_char_def)

lemma ord_of_digit_char [simp]: "n < 10 \<Longrightarrow> ord_of (digit_char n) = 48 + n"
  by (simp add: digit_char_def)

lemma show_nat_ne [simp]: "show_nat n \<noteq> []"
  by (subst show_nat.simps) simp

lemma show_nat_digits: "\<forall>c \<in> set (show_nat n). is_digit c"
proof (induction n rule: show_nat.induct)
  case (1 n)
  then show ?case by (subst show_nat.simps) auto
qed

lemma read_nat_acc_append:
  "read_nat_acc a (s @ t) = (case read_nat_acc a s of None \<Rightarrow> None | Some b \<Rightarrow> read_nat_acc b t)"
  by (induction s arbitrary: a) auto

lemma read_show_acc: "read_nat_acc 0 (show_nat n) = Some n"
proof (induction n rule: show_nat.induct)
  case (1 n)
  show ?case
  proof (cases "n < 10")
    case True
    then show ?thesis by (subst show_nat.simps) simp
  next
    case False
    with 1 have "read_nat_acc 0 (show_nat (n div 10)) = Some (n div 10)" by simp
    with False show ?thesis by (subst show_nat.simps) (simp add: read_nat_acc_append)
  qed
qed

lemma read_nat_show_nat [simp]: "read_nat (show_nat n) = Some n"
  by (simp add: read_nat_def read_show_acc)

lemma parse_int_show_nat [simp]: "int n < 2 ^ 63 \<Longrightarrow> parse_int (show_nat n) = Some (int n)"
proof -
  assume b: "int n < 2 ^ 63"
  obtain c cs where s: "show_nat n = c # cs" by (cases "show_nat n") auto
  then have "is_digit c" using show_nat_digits [of n] by simp
  then have "c \<noteq> CHR ''-''" "c \<noteq> CHR ''+''" by (auto simp: is_digit_def ord_of_def)
  moreover have "read_nat (c # cs) = Some n" using s read_nat_show_nat [of n] by simp
  ultimately show ?thesis using b by (simp add: parse_int_def int64_ok_def s)
qed

lemma parse_int_show_int: "int64_ok i \<Longrightarrow> parse_int (show_int i) = Some i"
proof (cases "i < 0")
  case True
  assume "int64_ok i"
  with True show ?thesis by (simp add: show_int_def parse_int_def)
next
  case False
  assume "int64_ok i"
  with False show ?thesis by (simp add: show_int_def int64_ok_def)
qed

lemma wrap64_id: "int64_ok i \<Longrightarrow> wrap64 i = i"
  by (simp add: wrap64_def int64_ok_def)

lemma wrap64_ok: "int64_ok (wrap64 i)"
  by (simp add: wrap64_def int64_ok_def)

end
