(* ===== verification/Json.thy ===== *)
theory Json
  imports Prelude
begin

text \<open>
  The part of \<open>encoding/json\<close> the sources use, on bytes. A JSON text is read into its syntax tree:
  a string keeps the raw text between its quotes (\<open>JStr\<close>), a number its literal, so that a
  \<open>json.RawMessage\<close> is represented exactly up to the white space between tokens, and
  \<open>unquote\<close> gives the Go string of a raw text. \<open>json_parse\<close> is \<open>json.Unmarshal\<close>'s reading of a
  whole text, \<open>json_first\<close> that of \<open>Decoder.Decode\<close> (the first value, the rest unread),
  \<open>json_print\<close> what \<open>json.Marshal\<close> writes (compact, HTML characters escaped), and
  \<open>decode_struct\<close> the assignment of an object's members to the fields of a struct: exact name
  first, else the name up to case, a later duplicate wins, a mismatch of types is an error that
  does not stop the other fields. The parser runs on fuel; \<open>pval_enough\<close> shows that the fuel
  \<open>json_parse\<close> gives is enough.
\<close>

section \<open>Syntax trees and the scanner\<close>

datatype json =
    JNull
  | JBool bool
  | JNum string
  | JStr string
  | JArr "json list"
  | JObj "(string \<times> json) list"

definition json_ws :: "char \<Rightarrow> bool" where
  "json_ws c \<longleftrightarrow> c = CHR '' '' \<or> c = CHR 0x09 \<or> c = CHR 0x0A \<or> c = CHR 0x0D"

definition skip_ws :: "string \<Rightarrow> string" where
  "skip_ws s = dropWhile json_ws s"

definition simple_escape :: "char \<Rightarrow> bool" where
  "simple_escape e \<longleftrightarrow> e \<in> set [CHR 0x22, CHR 0x5C, CHR ''/'', CHR ''b'', CHR ''f'', CHR ''n'', CHR ''r'', CHR ''t'']"

text \<open>The text of a string literal after its opening quote: the raw content and what follows the
  closing quote.\<close>

fun pstr :: "string \<Rightarrow> (string \<times> string) option" where
  "pstr [] = None"
| "pstr (c # cs) =
     (if c = CHR 0x22 then Some ([], cs)
      else if c = CHR 0x5C then
        (case cs of [] \<Rightarrow> None
         | e # es \<Rightarrow> if simple_escape e then map_option (\<lambda>(r, t). (c # e # r, t)) (pstr es)
                   else if e = CHR ''u'' then
                     (case es of h1 # h2 # h3 # h4 # t \<Rightarrow>
                        if is_hex h1 \<and> is_hex h2 \<and> is_hex h3 \<and> is_hex h4
                        then map_option (\<lambda>(r, t). (c # e # h1 # h2 # h3 # h4 # r, t)) (pstr t) else None
                      | _ \<Rightarrow> None)
                   else None)
      else if ord_of c < 32 then None
      else map_option (\<lambda>(r, t). (c # r, t)) (pstr cs))"

definition digits_of :: "string \<Rightarrow> string \<times> string" where
  "digits_of s = (takeWhile is_digit s, dropWhile is_digit s)"

text \<open>A number literal: \<open>-?(0|[1-9][0-9]*)(\.[0-9]+)?([eE][+-]?[0-9]+)?\<close>.\<close>

definition pnum_int :: "string \<Rightarrow> (string \<times> string) option" where
  "pnum_int s = (case s of [] \<Rightarrow> None
     | c # cs \<Rightarrow> if c = CHR ''0'' then Some ([c], cs) else if is_digit c then Some (digits_of s) else None)"

definition pnum_frac :: "string \<Rightarrow> (string \<times> string) option" where
  "pnum_frac s = (case s of [] \<Rightarrow> Some ([], [])
     | c # cs \<Rightarrow> if c = CHR ''.'' then (let (d, t) = digits_of cs in if d = [] then None else Some (c # d, t))
               else Some ([], s))"

definition pnum_exp :: "string \<Rightarrow> (string \<times> string) option" where
  "pnum_exp s = (case s of [] \<Rightarrow> Some ([], [])
     | c # cs \<Rightarrow> if c = CHR ''e'' \<or> c = CHR ''E'' then
                 (let (sg, t) = (case cs of [] \<Rightarrow> ([], cs)
                        | x # xs \<Rightarrow> if x = CHR ''+'' \<or> x = CHR ''-'' then ([x], xs) else ([], cs));
                      (d, u) = digits_of t
                  in if d = [] then None else Some (c # sg @ d, u))
               else Some ([], s))"

definition pnum :: "string \<Rightarrow> (string \<times> string) option" where
  "pnum s =
     (let (sg, s1) = (case s of [] \<Rightarrow> ([], s) | c # cs \<Rightarrow> if c = CHR ''-'' then ([c], cs) else ([], s))
      in case pnum_int s1 of None \<Rightarrow> None
         | Some (i, s2) \<Rightarrow> (case pnum_frac s2 of None \<Rightarrow> None
             | Some (f, s3) \<Rightarrow> (case pnum_exp s3 of None \<Rightarrow> None
                 | Some (e, s4) \<Rightarrow> Some (sg @ i @ f @ e, s4))))"

definition plit :: "string \<Rightarrow> json \<Rightarrow> string \<Rightarrow> (json \<times> string) option" where
  "plit w v s = (if prefix w s then Some (v, drop (length w) s) else None)"

text \<open>Values, elements and members; \<open>d\<close> is the nesting that is still allowed (the package refuses
  more than 10000 levels), the first argument is fuel.\<close>

fun pval :: "nat \<Rightarrow> nat \<Rightarrow> string \<Rightarrow> (json \<times> string) option"
and pelems :: "nat \<Rightarrow> nat \<Rightarrow> string \<Rightarrow> (json list \<times> string) option"
and pmembers :: "nat \<Rightarrow> nat \<Rightarrow> string \<Rightarrow> ((string \<times> json) list \<times> string) option" where
  "pval 0 d s = None"
| "pval (Suc n) d s =
     (case skip_ws s of [] \<Rightarrow> None
      | c # cs \<Rightarrow>
         if c = CHR 0x7B then
           (if d = 0 then None
            else (case skip_ws cs of [] \<Rightarrow> None
                  | x # xs \<Rightarrow> if x = CHR 0x7D then Some (JObj [], xs)
                            else map_option (\<lambda>(ms, t). (JObj ms, t)) (pmembers n (d - 1) (x # xs))))
         else if c = CHR 0x5B then
           (if d = 0 then None
            else (case skip_ws cs of [] \<Rightarrow> None
                  | x # xs \<Rightarrow> if x = CHR 0x5D then Some (JArr [], xs)
                            else map_option (\<lambda>(vs, t). (JArr vs, t)) (pelems n (d - 1) (x # xs))))
         else if c = CHR 0x22 then map_option (\<lambda>(r, t). (JStr r, t)) (pstr cs)
         else if c = CHR ''t'' then plit ''true'' (JBool True) (c # cs)
         else if c = CHR ''f'' then plit ''false'' (JBool False) (c # cs)
         else if c = CHR ''n'' then plit ''null'' JNull (c # cs)
         else map_option (\<lambda>(r, t). (JNum r, t)) (pnum (c # cs)))"
| "pelems 0 d s = None"
| "pelems (Suc n) d s =
     (case pval n d s of None \<Rightarrow> None
      | Some (v, t) \<Rightarrow>
         (case skip_ws t of [] \<Rightarrow> None
          | x # xs \<Rightarrow> if x = CHR 0x5D then Some ([v], xs)
                    else if x = CHR '','' then map_option (\<lambda>(vs, u). (v # vs, u)) (pelems n d xs)
                    else None))"
| "pmembers 0 d s = None"
| "pmembers (Suc n) d s =
     (case skip_ws s of [] \<Rightarrow> None
      | q # qs \<Rightarrow>
         if q \<noteq> CHR 0x22 then None
         else (case pstr qs of None \<Rightarrow> None
               | Some (k, t) \<Rightarrow>
                  (case skip_ws t of [] \<Rightarrow> None
                   | y # ys \<Rightarrow>
                      if y \<noteq> CHR '':'' then None
                      else (case pval n d ys of None \<Rightarrow> None
                            | Some (v, u) \<Rightarrow>
                               (case skip_ws u of [] \<Rightarrow> None
                                | x # xs \<Rightarrow> if x = CHR 0x7D then Some ([(k, v)], xs)
                                          else if x = CHR '','' then
                                            map_option (\<lambda>(ms, w). ((k, v) # ms, w)) (pmembers n d xs)
                                          else None)))))"

definition max_nesting :: nat where
  "max_nesting = 10000"

definition json_first :: "bytes \<Rightarrow> (json \<times> bytes) option" where
  "json_first s = pval (2 * length s + 2) max_nesting s"

definition json_parse :: "bytes \<Rightarrow> json option" where
  "json_parse s = (case json_first s of None \<Rightarrow> None
     | Some (v, t) \<Rightarrow> if skip_ws t = [] then Some v else None)"

text \<open>\<open>json.Valid\<close>.\<close>

definition json_valid :: "bytes \<Rightarrow> bool" where
  "json_valid s \<longleftrightarrow> json_parse s \<noteq> None"

section \<open>Strings: UTF-8, unquote and quote\<close>

definition cont_byte :: "char \<Rightarrow> bool" where
  "cont_byte c \<longleftrightarrow> 128 \<le> ord_of c \<and> ord_of c \<le> 191"

text \<open>The length of the UTF-8 sequence at the head, 0 where it is not one (\<open>utf8.DecodeRune\<close>).\<close>

definition utf8_len :: "string \<Rightarrow> nat" where
  "utf8_len s = (case s of [] \<Rightarrow> 0
     | b0 # t0 \<Rightarrow>
        if ord_of b0 < 128 then 1
        else (case t0 of [] \<Rightarrow> 0
          | b1 # t1 \<Rightarrow>
             if 194 \<le> ord_of b0 \<and> ord_of b0 \<le> 223 then (if cont_byte b1 then 2 else 0)
             else (case t1 of [] \<Rightarrow> 0
               | b2 # t2 \<Rightarrow>
                  if 224 \<le> ord_of b0 \<and> ord_of b0 \<le> 239 then
                    (if cont_byte b1 \<and> cont_byte b2 \<and> (ord_of b0 = 224 \<longrightarrow> 160 \<le> ord_of b1)
                        \<and> (ord_of b0 = 237 \<longrightarrow> ord_of b1 \<le> 159) then 3 else 0)
                  else (case t2 of [] \<Rightarrow> 0
                    | b3 # t3 \<Rightarrow>
                       if 240 \<le> ord_of b0 \<and> ord_of b0 \<le> 244 \<and> cont_byte b1 \<and> cont_byte b2 \<and> cont_byte b3
                          \<and> (ord_of b0 = 240 \<longrightarrow> 144 \<le> ord_of b1) \<and> (ord_of b0 = 244 \<longrightarrow> ord_of b1 \<le> 143)
                       then 4 else 0))))"

definition utf8_enc :: "nat \<Rightarrow> string" where
  "utf8_enc r =
     (if r < 128 then [char_of r]
      else if r < 2048 then [char_of (192 + r div 64), char_of (128 + r mod 64)]
      else if r < 65536 then [char_of (224 + r div 4096), char_of (128 + r div 64 mod 64), char_of (128 + r mod 64)]
      else [char_of (240 + r div 262144), char_of (128 + r div 4096 mod 64), char_of (128 + r div 64 mod 64),
            char_of (128 + r mod 64)])"

definition replacement :: nat where
  "replacement = 65533"

definition escape_value :: "char \<Rightarrow> char" where
  "escape_value e =
     (if e = CHR ''b'' then CHR 0x08 else if e = CHR ''f'' then CHR 0x0C
      else if e = CHR ''n'' then CHR 0x0A else if e = CHR ''r'' then CHR 0x0D
      else if e = CHR ''t'' then CHR 0x09 else e)"

text \<open>\<open>getu4\<close>: the value of a \<open>\uXXXX\<close> escape at the head.\<close>

definition getu4 :: "string \<Rightarrow> nat option" where
  "getu4 s = (case s of b # u # h1 # h2 # h3 # h4 # _ \<Rightarrow>
       if b = CHR 0x5C \<and> u = CHR ''u'' \<and> is_hex h1 \<and> is_hex h2 \<and> is_hex h3 \<and> is_hex h4
       then Some (4096 * hex_val h1 + 256 * hex_val h2 + 16 * hex_val h3 + hex_val h4) else None
     | _ \<Rightarrow> None)"

definition is_surrogate :: "nat \<Rightarrow> bool" where
  "is_surrogate r \<longleftrightarrow> 55296 \<le> r \<and> r < 57344"

definition surrogate_pair :: "nat \<Rightarrow> nat option \<Rightarrow> nat option" where
  "surrogate_pair r r1 = (case r1 of None \<Rightarrow> None
     | Some q \<Rightarrow> if 55296 \<le> r \<and> r < 56320 \<and> 56320 \<le> q \<and> q < 57344
               then Some ((r - 55296) * 1024 + (q - 56320) + 65536) else None)"

function unquote :: "string \<Rightarrow> string" where
  "unquote [] = []"
| "unquote (c # cs) =
     (if c = CHR 0x5C then
        (case getu4 (c # cs) of
           Some r \<Rightarrow>
             (let t = drop 5 cs in
              if is_surrogate r then
                (case surrogate_pair r (getu4 t) of
                   Some q \<Rightarrow> utf8_enc q @ unquote (drop 6 t)
                 | None \<Rightarrow> utf8_enc replacement @ unquote t)
              else utf8_enc r @ unquote t)
         | None \<Rightarrow> (case cs of [] \<Rightarrow> [] | e # es \<Rightarrow> escape_value e # unquote es))
      else (let k = utf8_len (c # cs) in
            if k = 0 then utf8_enc replacement @ unquote cs
            else take k (c # cs) @ unquote (drop (k - 1) cs)))"
  by pat_completeness auto
termination
  by (relation "measure length") auto

declare unquote.simps(2) [simp del]

definition html_char :: "char \<Rightarrow> bool" where
  "html_char c \<longleftrightarrow> c = CHR ''<'' \<or> c = CHR ''>'' \<or> c = CHR ''&''"

definition u00 :: "nat \<Rightarrow> string" where
  "u00 n = [CHR 0x5C, CHR ''u'', CHR ''0'', CHR ''0'', hex_char (n div 16), hex_char (n mod 16)]"

definition line_sep :: "nat \<Rightarrow> string" where
  "line_sep b = (if b = 168 then CHR 0x5C # ''u2028'' else CHR 0x5C # ''u2029'')"

text \<open>The raw text \<open>json.Marshal\<close> writes for a Go string.\<close>

definition quote_ascii :: "char \<Rightarrow> string" where
  "quote_ascii c =
     (if c = CHR 0x5C \<or> c = CHR 0x22 then [CHR 0x5C, c]
      else if c = CHR 0x08 then [CHR 0x5C, CHR ''b''] else if c = CHR 0x0C then [CHR 0x5C, CHR ''f'']
      else if c = CHR 0x0A then [CHR 0x5C, CHR ''n''] else if c = CHR 0x0D then [CHR 0x5C, CHR ''r'']
      else if c = CHR 0x09 then [CHR 0x5C, CHR ''t'']
      else if ord_of c < 32 \<or> html_char c then u00 (ord_of c) else [c])"

function quote :: "string \<Rightarrow> string" where
  "quote [] = []"
| "quote (c # cs) =
     (if ord_of c < 128 then quote_ascii c @ quote cs
      else (let k = utf8_len (c # cs) in
            if k = 0 then CHR 0x5C # ''ufffd'' @ quote cs
            else if map ord_of (take 3 (c # cs)) \<in> {[226, 128, 168], [226, 128, 169]}
            then line_sep (ord_of (cs ! 1)) @ quote (drop (k - 1) cs)
            else take k (c # cs) @ quote (drop (k - 1) cs)))"
  by pat_completeness auto
termination
  by (relation "measure length") auto

declare quote.simps(2) [simp del]

section \<open>Writing\<close>

text \<open>The escaping \<open>json.Marshal\<close> applies to a raw text (the HTML characters and the two line
  separators).\<close>

fun html_esc :: "string \<Rightarrow> string" where
  "html_esc (a # b # c # cs) =
     (if map ord_of [a, b, c] \<in> {[226, 128, 168], [226, 128, 169]} then line_sep (ord_of c) @ html_esc cs
      else (if html_char a then u00 (ord_of a) else [a]) @ html_esc (b # c # cs))"
| "html_esc (a # cs) = (if html_char a then u00 (ord_of a) else [a]) @ html_esc cs"
| "html_esc [] = []"

definition jstring :: "string \<Rightarrow> string" where
  "jstring r = CHR 0x22 # html_esc r @ [CHR 0x22]"

fun json_print :: "json \<Rightarrow> bytes"
and print_elems :: "json list \<Rightarrow> bytes"
and print_members :: "(string \<times> json) list \<Rightarrow> bytes" where
  "json_print JNull = ''null''"
| "json_print (JBool b) = (if b then ''true'' else ''false'')"
| "json_print (JNum t) = t"
| "json_print (JStr r) = jstring r"
| "json_print (JArr vs) = CHR 0x5B # (case vs of [] \<Rightarrow> [CHR 0x5D] | _ \<Rightarrow> print_elems vs)"
| "json_print (JObj ms) = CHR 0x7B # (case ms of [] \<Rightarrow> [CHR 0x7D] | _ \<Rightarrow> print_members ms)"
| "print_elems [] = []"
| "print_elems (v # vs) = json_print v @ (case vs of [] \<Rightarrow> [CHR 0x5D] | _ \<Rightarrow> CHR '','' # print_elems vs)"
| "print_members [] = []"
| "print_members ((k, v) # ms) =
     jstring k @ CHR '':'' # json_print v @ (case ms of [] \<Rightarrow> [CHR 0x7D] | _ \<Rightarrow> CHR '','' # print_members ms)"

definition jstr :: "string \<Rightarrow> json" where
  "jstr s = JStr (quote s)"

definition jint :: "int \<Rightarrow> json" where
  "jint i = JNum (show_int i)"

section \<open>Decoding into structs and maps\<close>

datatype jkind = KString | KPString | KInt | KPInt | KBool | KPBool | KRaw | KStrings

datatype gval = GStr string | GInt int | GBool bool | GRaw json | GStrs "string list"

datatype jerr = JSyntax | JType string | JUnknown string

definition jerr_text :: "jerr \<Rightarrow> string" where
  "jerr_text e = (case e of
       JSyntax \<Rightarrow> ''invalid JSON''
     | JType k \<Rightarrow> ''json: cannot unmarshal value into Go struct field '' @ k
     | JUnknown k \<Rightarrow> ''json: unknown field '' @ CHR 0x22 # k @ [CHR 0x22])"

text \<open>Field names up to case: the upper-case letter of each ASCII letter, with the two code points
  outside ASCII that fold onto one (U+017F and U+212A).\<close>

fun fold_key :: "string \<Rightarrow> string" where
  "fold_key [] = []"
| "fold_key (a # cs) =
     (if ord_of a = 197 \<and> (case cs of b # _ \<Rightarrow> ord_of b = 191 | [] \<Rightarrow> False) then CHR ''S'' # fold_key (tl cs)
      else if ord_of a = 226 \<and> (case cs of b # c # _ \<Rightarrow> ord_of b = 132 \<and> ord_of c = 170 | _ \<Rightarrow> False)
      then CHR ''K'' # fold_key (drop 2 cs)
      else to_upper1 a # fold_key cs)"

definition field_for :: "(string \<times> jkind) list \<Rightarrow> string \<Rightarrow> (string \<times> jkind) option" where
  "field_for fs k = (case map_of fs k of Some t \<Rightarrow> Some (k, t)
     | None \<Rightarrow> find (\<lambda>(n, t). fold_key n = fold_key k) fs)"

fun json_strings :: "json list \<Rightarrow> string list option" where
  "json_strings [] = Some []"
| "json_strings (JStr r # js) = map_option (\<lambda>t. unquote r # t) (json_strings js)"
| "json_strings (JNull # js) = map_option (\<lambda>t. [] # t) (json_strings js)"
| "json_strings (_ # js) = None"

text \<open>One member into one field: the new value of the field, or \<open>None\<close> for a mismatch of types.\<close>

fun decode_field :: "jkind \<Rightarrow> gval option \<Rightarrow> json \<Rightarrow> gval option option" where
  "decode_field KRaw cur j = Some (Some (GRaw j))"
| "decode_field KString cur JNull = Some cur"
| "decode_field KString cur (JStr r) = Some (Some (GStr (unquote r)))"
| "decode_field KPString cur JNull = Some None"
| "decode_field KPString cur (JStr r) = Some (Some (GStr (unquote r)))"
| "decode_field KInt cur JNull = Some cur"
| "decode_field KInt cur (JNum t) = map_option (\<lambda>i. Some (GInt i)) (parse_int t)"
| "decode_field KPInt cur JNull = Some None"
| "decode_field KPInt cur (JNum t) = map_option (\<lambda>i. Some (GInt i)) (parse_int t)"
| "decode_field KBool cur JNull = Some cur"
| "decode_field KBool cur (JBool b) = Some (Some (GBool b))"
| "decode_field KPBool cur JNull = Some None"
| "decode_field KPBool cur (JBool b) = Some (Some (GBool b))"
| "decode_field KStrings cur JNull = Some None"
| "decode_field KStrings cur (JArr js) = map_option (\<lambda>l. Some (GStrs l)) (json_strings js)"
| "decode_field _ _ _ = None"

type_synonym gstruct = "string \<Rightarrow> gval option"

definition save_err :: "jerr option \<Rightarrow> jerr \<Rightarrow> jerr option" where
  "save_err e0 e = (case e0 of None \<Rightarrow> Some e | Some x \<Rightarrow> Some x)"

fun decode_members ::
  "bool \<Rightarrow> (string \<times> jkind) list \<Rightarrow> (string \<times> json) list \<Rightarrow> gstruct \<Rightarrow> jerr option \<Rightarrow> gstruct \<times> jerr option" where
  "decode_members strict fs [] g e = (g, e)"
| "decode_members strict fs ((k, v) # ms) g e =
     (case field_for fs (unquote k) of
        None \<Rightarrow> decode_members strict fs ms g (if strict then save_err e (JUnknown (unquote k)) else e)
      | Some (n, t) \<Rightarrow>
         (case decode_field t (g n) v of
            None \<Rightarrow> decode_members strict fs ms g (save_err e (JType n))
          | Some x \<Rightarrow> decode_members strict fs ms (g(n := x)) e))"

definition decode_struct :: "bool \<Rightarrow> (string \<times> jkind) list \<Rightarrow> json \<Rightarrow> gstruct \<times> jerr option" where
  "decode_struct strict fs j = (case j of
       JObj ms \<Rightarrow> decode_members strict fs ms Map.empty None
     | JNull \<Rightarrow> (Map.empty, None)
     | _ \<Rightarrow> (Map.empty, Some (JType [])))"

definition json_unmarshal :: "(string \<times> jkind) list \<Rightarrow> bytes \<Rightarrow> gstruct \<times> jerr option" where
  "json_unmarshal fs b = (case json_parse b of None \<Rightarrow> (Map.empty, Some JSyntax)
     | Some j \<Rightarrow> decode_struct False fs j)"

text \<open>\<open>json.Unmarshal\<close> into a \<open>map[string]json.RawMessage\<close>; a later duplicate wins.\<close>

definition json_object :: "bytes \<Rightarrow> (string \<times> json) list option" where
  "json_object b = (case json_parse b of
       Some (JObj ms) \<Rightarrow> Some (fold (\<lambda>(k, v) m. (unquote k, v) # filter (\<lambda>p. fst p \<noteq> unquote k) m) ms [])
     | Some JNull \<Rightarrow> Some []
     | _ \<Rightarrow> None)"

text \<open>\<open>json.Marshal\<close> of a map: the keys in byte order.\<close>

definition json_map :: "(string \<times> json) list \<Rightarrow> json" where
  "json_map m = JObj (map (\<lambda>(k, v). (quote k, v)) (sort_key fst m))"

definition gstr :: "gstruct \<Rightarrow> string \<Rightarrow> string" where
  "gstr g k = (case g k of Some (GStr s) \<Rightarrow> s | _ \<Rightarrow> [])"

definition gpstr :: "gstruct \<Rightarrow> string \<Rightarrow> string option" where
  "gpstr g k = (case g k of Some (GStr s) \<Rightarrow> Some s | _ \<Rightarrow> None)"

definition gint :: "gstruct \<Rightarrow> string \<Rightarrow> int" where
  "gint g k = (case g k of Some (GInt i) \<Rightarrow> i | _ \<Rightarrow> 0)"

definition gpint :: "gstruct \<Rightarrow> string \<Rightarrow> int option" where
  "gpint g k = (case g k of Some (GInt i) \<Rightarrow> Some i | _ \<Rightarrow> None)"

definition graw :: "gstruct \<Rightarrow> string \<Rightarrow> json option" where
  "graw g k = (case g k of Some (GRaw j) \<Rightarrow> Some j | _ \<Rightarrow> None)"


section \<open>The fuel is enough\<close>

lemma skip_ws_length: "length (skip_ws s) \<le> length s"
  by (simp add: skip_ws_def length_dropWhile_le)

lemma skip_ws_Cons_length: "skip_ws s = c # cs \<Longrightarrow> length cs < length s"
  using skip_ws_length [of s] by simp

lemma pstr_length: "pstr s = Some (r, t) \<Longrightarrow> length t < length s"
  by (induction s arbitrary: r t rule: pstr.induct)
    (fastforce split: if_splits list.splits option.splits)+

lemma digits_of_length: "digits_of s = (a, t) \<Longrightarrow> length t \<le> length s"
  by (auto simp: digits_of_def length_dropWhile_le)

lemma pnum_int_length: "pnum_int s = Some (i, t) \<Longrightarrow> length t < length s"
proof -
  assume a: "pnum_int s = Some (i, t)"
  then obtain c cs where s: "s = c # cs" by (auto simp: pnum_int_def split: list.splits)
  show "length t < length s"
  proof (cases "is_digit c \<and> c \<noteq> CHR ''0''")
    case True
    then have "dropWhile is_digit s = dropWhile is_digit cs" using s by simp
    then show ?thesis using a True s length_dropWhile_le [of is_digit cs]
      by (auto simp: pnum_int_def digits_of_def)
  next
    case False
    with a s show ?thesis by (auto simp: pnum_int_def split: if_splits)
  qed
qed

lemma pnum_frac_length: "pnum_frac s = Some (i, t) \<Longrightarrow> length t \<le> length s"
  by (auto simp: pnum_frac_def split: list.splits if_splits prod.splits dest: digits_of_length)

lemma pnum_exp_length: "pnum_exp s = Some (i, t) \<Longrightarrow> length t \<le> length s"
  by (auto simp: pnum_exp_def split: list.splits if_splits prod.splits dest!: digits_of_length)

lemma pnum_length: "pnum s = Some (r, t) \<Longrightarrow> length t < length s"
  by (fastforce simp: pnum_def split: list.splits if_splits prod.splits option.splits
      dest: pnum_int_length pnum_frac_length pnum_exp_length)

lemma plit_length: "plit w v s = Some (j, t) \<Longrightarrow> w \<noteq> [] \<Longrightarrow> length t < length s"
  by (cases w; cases s) (auto simp: plit_def split: if_splits)

lemma parse_length:
  shows "pval n d s = Some (v, t) \<Longrightarrow> length t < length s"
    and "pelems n d s = Some (vs, t) \<Longrightarrow> length t < length s"
    and "pmembers n d s = Some (ms, t) \<Longrightarrow> length t < length s"
proof (induction n d s and n d s and n d s arbitrary: v t and vs t and ms t rule: pval_pelems_pmembers.induct)
  case (2 n d s)
  then show ?case
    by (fastforce split: list.splits if_splits dest: skip_ws_Cons_length pstr_length pnum_length plit_length)
next
  case (4 n d s)
  then show ?case
    by (fastforce split: list.splits if_splits option.splits dest: skip_ws_Cons_length)
next
  case (6 n d s)
  then show ?case
    by (fastforce split: list.splits if_splits option.splits dest: skip_ws_Cons_length pstr_length)
qed auto

lemma pval_enough_aux:
  "(\<forall>d s m. 2 * length s < n \<longrightarrow> 2 * length s < m \<longrightarrow> pval n d s = pval m d s)
   \<and> (\<forall>d s m. 2 * length s + 1 < n \<longrightarrow> 2 * length s + 1 < m \<longrightarrow> pelems n d s = pelems m d s)
   \<and> (\<forall>d s m. 2 * length s + 1 < n \<longrightarrow> 2 * length s + 1 < m \<longrightarrow> pmembers n d s = pmembers m d s)"
proof (induction n)
  case (Suc n)
  have v: "pval (Suc n) d s = pval m d s" if "2 * length s < Suc n" "2 * length s < m" for d s m
  proof -
    from that obtain k where m: "m = Suc k" by (cases m) auto
    show ?thesis
    proof (cases "skip_ws s")
      case Nil
      then show ?thesis by (simp add: m)
    next
      case c: (Cons c cs)
      show ?thesis
      proof (cases "skip_ws cs")
        case Nil
        with c show ?thesis by (simp add: m)
      next
        case x: (Cons x xs)
        have l: "2 * length (x # xs) + 1 < n" "2 * length (x # xs) + 1 < k"
          using that c x m skip_ws_Cons_length [of s c cs] skip_ws_length [of cs] by auto
        then have "pmembers n e (x # xs) = pmembers k e (x # xs)" "pelems n e (x # xs) = pelems k e (x # xs)" for e
          using Suc.IH by blast+
        then show ?thesis unfolding m pval.simps(2) c x list.case by (simp only: c x list.case)
      qed
    qed
  qed
  have e: "pelems (Suc n) d s = pelems m d s" if "2 * length s + 1 < Suc n" "2 * length s + 1 < m" for d s m
  proof -
    from that obtain k where m: "m = Suc k" by (cases m) auto
    have "2 * length s < n" "2 * length s < k" using that m by auto
    then have 1: "pval n d s = pval k d s" using Suc.IH by blast
    have "pelems n d xs = pelems k d xs" if "pval k d s = Some (v, t)" "skip_ws t = x # xs" for v t x xs
    proof -
      have "2 * length xs + 1 < n" "2 * length xs + 1 < k"
        using that \<open>2 * length s + 1 < Suc n\<close> \<open>2 * length s + 1 < m\<close> m
          parse_length(1) [of k d s v t] skip_ws_Cons_length [of t x xs] by auto
      then show ?thesis using Suc.IH by blast
    qed
    then show ?thesis by (auto simp: m 1 split: list.splits option.splits)
  qed
  have o: "pmembers (Suc n) d s = pmembers m d s" if "2 * length s + 1 < Suc n" "2 * length s + 1 < m" for d s m
  proof -
    from that obtain k where m: "m = Suc k" by (cases m) auto
    have 1: "pval n d ys = pval k d ys" if "skip_ws s = q # qs" "pstr qs = Some (r, t)" "skip_ws t = y # ys" for q qs r t y ys
    proof -
      have "2 * length ys < n" "2 * length ys < k"
        using that \<open>2 * length s + 1 < Suc n\<close> \<open>2 * length s + 1 < m\<close> m pstr_length [of qs r t]
          skip_ws_Cons_length [of t y ys] skip_ws_Cons_length [of s q qs] by auto
      then show ?thesis using Suc.IH by blast
    qed
    have 2: "pmembers n d xs = pmembers k d xs"
      if "skip_ws s = q # qs" "pstr qs = Some (r, t)" "skip_ws t = y # ys" "pval k d ys = Some (v, u)" "skip_ws u = x # xs"
      for q qs r t y ys v u x xs
    proof -
      have "2 * length xs + 1 < n" "2 * length xs + 1 < k"
        using that \<open>2 * length s + 1 < Suc n\<close> \<open>2 * length s + 1 < m\<close> m pstr_length [of qs r t]
          parse_length(1) [of k d ys v u] skip_ws_Cons_length [of t y ys] skip_ws_Cons_length [of s q qs]
          skip_ws_Cons_length [of u x xs] by auto
      then show ?thesis using Suc.IH by blast
    qed
    show ?thesis by (auto simp: m 1 2 split: list.splits option.splits)
  qed
  show ?case using v e o by blast
qed simp

lemma pval_enough: "2 * length s < n \<Longrightarrow> 2 * length s < m \<Longrightarrow> pval n d s = pval m d s"
  using pval_enough_aux by blast

lemma pval_mono:
  shows "pval n d s = Some x \<Longrightarrow> n \<le> m \<Longrightarrow> pval m d s = Some x"
    and "pelems n d s = Some y \<Longrightarrow> n \<le> m \<Longrightarrow> pelems m d s = Some y"
    and "pmembers n d s = Some z \<Longrightarrow> n \<le> m \<Longrightarrow> pmembers m d s = Some z"
proof (induction n d s and n d s and n d s arbitrary: x m and y m and z m rule: pval_pelems_pmembers.induct)
  case (2 n d s)
  from 2(4) obtain k where k: "m = Suc k" "n \<le> k" by (cases m) auto
  show ?case
  proof (cases "skip_ws s")
    case Nil
    with 2 show ?thesis by simp
  next
    case c: (Cons c cs)
    show ?thesis
    proof (cases "skip_ws cs")
      case Nil
      with c 2 k show ?thesis by (simp split: if_splits)
    next
      case x: (Cons x xs)
      note e = 2(3) [unfolded pval.simps(2) c list.case x]
      consider (obj) "c = CHR 0x7B" "d \<noteq> 0" "x \<noteq> CHR 0x7D" | (arr) "c = CHR 0x5B" "d \<noteq> 0" "x \<noteq> CHR 0x5D"
        | (other) "pval (Suc n) d s = pval (Suc k) d s"
        unfolding pval.simps(2) c list.case x
        by (cases "c = CHR 0x7B"; cases "c = CHR 0x5B"; cases "d = 0"; cases "x = CHR 0x7D"; cases "x = CHR 0x5D") auto
      then show ?thesis
      proof cases
        case obj
        with e obtain w where "pmembers n (d - 1) (x # xs) = Some w" by auto
        moreover from this have "pmembers k (d - 1) (x # xs) = Some w" using 2(1) [OF c obj(1,2) x obj(3)] k by blast
        ultimately show ?thesis using e obj unfolding k(1) pval.simps(2) c list.case x by simp
      next
        case arr
        with e obtain w where "pelems n (d - 1) (x # xs) = Some w" by auto
        moreover from this have "pelems k (d - 1) (x # xs) = Some w" using 2(2) [OF c _ arr(1,2) x arr(3)] k arr by auto
        ultimately show ?thesis using e arr unfolding k(1) pval.simps(2) c list.case x by simp
      next
        case other
        show ?thesis unfolding k(1) other [symmetric] by (rule 2(3))
      qed
    qed
  qed
next
  case (4 n d s)
  from 4(4) obtain k where k: "m = Suc k" "n \<le> k" by (cases m) auto
  from 4(3) obtain v t where v: "pval n d s = Some (v, t)" by (auto split: option.splits)
  then have v': "pval k d s = Some (v, t)" using 4(1) k by blast
  show ?case
  proof (cases "skip_ws t")
    case Nil
    with 4(3) v show ?thesis by simp
  next
    case (Cons x xs)
    show ?thesis
    proof (cases "x = CHR '',''")
      case True
      with 4(3) v Cons obtain w where w: "pelems n d xs = Some w" by auto
      then have "pelems k d xs = Some w" using 4(2) [OF v refl Cons _ True w k(2)] True by simp
      with w 4(3) v v' Cons True k(1) show ?thesis by simp
    next
      case False
      with 4(3) v v' Cons k(1) show ?thesis by (simp split: if_splits)
    qed
  qed
next
  case (6 n d s)
  from 6(4) obtain k where k: "m = Suc k" "n \<le> k" by (cases m) auto
  from 6(3) obtain qs r t ys v u where p: "skip_ws s = CHR 0x22 # qs" "pstr qs = Some (r, t)" "skip_ws t = CHR '':'' # ys"
      and v: "pval n d ys = Some (v, u)"
    by (auto split: list.splits if_splits option.splits)
  then have v': "pval k d ys = Some (v, u)" using 6(1) k by blast
  show ?case
  proof (cases "skip_ws u")
    case Nil
    with 6(3) p v show ?thesis by simp
  next
    case (Cons x xs)
    show ?thesis
    proof (cases "x = CHR '',''")
      case True
      with 6(3) p v Cons obtain w where w: "pmembers n d xs = Some w" by auto
      then have "pmembers k d xs = Some w" using 6(2) [OF p(1) _ p(2) refl p(3) _ v refl Cons _ True w k(2)] True by simp
      with w 6(3) p v v' Cons True k(1) show ?thesis by simp
    next
      case False
      with 6(3) p v v' Cons k(1) show ?thesis by (simp split: if_splits)
    qed
  qed
qed auto

lemma json_first_any_fuel: "pval n max_nesting s = Some x \<Longrightarrow> json_first s = Some x"
proof -
  assume a: "pval n max_nesting s = Some x"
  let ?m = "max n (2 * length s + 2)"
  have "pval ?m max_nesting s = Some x" by (rule pval_mono(1) [OF a]) simp
  moreover have "pval (2 * length s + 2) max_nesting s = pval ?m max_nesting s" by (rule pval_enough) auto
  ultimately show ?thesis by (simp add: json_first_def)
qed


section \<open>Reading back what was written\<close>

fun raw_ok :: "string \<Rightarrow> bool" where
  "raw_ok [] = True"
| "raw_ok (c # cs) =
     (if c = CHR 0x22 then False
      else if c = CHR 0x5C then
        (case cs of [] \<Rightarrow> False
         | e # es \<Rightarrow> if simple_escape e then raw_ok es
                   else if e = CHR ''u'' then
                     (case es of h1 # h2 # h3 # h4 # t \<Rightarrow> is_hex h1 \<and> is_hex h2 \<and> is_hex h3 \<and> is_hex h4 \<and> raw_ok t
                      | _ \<Rightarrow> False)
                   else False)
      else 32 \<le> ord_of c \<and> raw_ok cs)"

definition num_ok :: "string \<Rightarrow> bool" where
  "num_ok t = (case parse_int t of Some i \<Rightarrow> t = show_int i | None \<Rightarrow> False)"

fun json_ok :: "json \<Rightarrow> bool"
and elems_ok :: "json list \<Rightarrow> bool"
and members_ok :: "(string \<times> json) list \<Rightarrow> bool" where
  "json_ok JNull = True"
| "json_ok (JBool b) = True"
| "json_ok (JNum t) = num_ok t"
| "json_ok (JStr r) = (raw_ok r \<and> html_esc r = r)"
| "json_ok (JArr vs) = elems_ok vs"
| "json_ok (JObj ms) = members_ok ms"
| "elems_ok [] = True"
| "elems_ok (v # vs) = (json_ok v \<and> elems_ok vs)"
| "members_ok [] = True"
| "members_ok ((k, v) # ms) = (raw_ok k \<and> html_esc k = k \<and> json_ok v \<and> members_ok ms)"

fun jdepth :: "json \<Rightarrow> nat"
and edepth :: "json list \<Rightarrow> nat"
and mdepth :: "(string \<times> json) list \<Rightarrow> nat" where
  "jdepth (JArr vs) = Suc (edepth vs)"
| "jdepth (JObj ms) = Suc (mdepth ms)"
| "jdepth _ = 0"
| "edepth [] = 0"
| "edepth (v # vs) = max (jdepth v) (edepth vs)"
| "mdepth [] = 0"
| "mdepth ((k, v) # ms) = max (jdepth v) (mdepth ms)"

lemma pstr_raw: "raw_ok r \<Longrightarrow> pstr (r @ CHR 0x22 # t) = Some (r, t)"
proof (induction r rule: length_induct)
  case (1 r)
  show ?case
  proof (cases r)
    case (Cons c cs)
    show ?thesis
    proof (cases "c = CHR 0x5C")
      case c: True
      with 1(2) Cons obtain e es where e: "cs = e # es" by (auto split: list.splits)
      show ?thesis
      proof (cases "simple_escape e")
        case True
        with 1 Cons c e show ?thesis by simp
      next
        case False
        with 1(2) Cons c e obtain h1 h2 h3 h4 u where u: "e = CHR ''u''" "es = h1 # h2 # h3 # h4 # u"
            "is_hex h1" "is_hex h2" "is_hex h3" "is_hex h4" "raw_ok u"
          by (auto split: if_splits list.splits)
        with 1 Cons c e False show ?thesis by simp
      qed
    next
      case False
      with 1 Cons show ?thesis by (auto split: if_splits)
    qed
  qed simp
qed

text \<open>What may follow a value: nothing, or a character that cannot continue a number.\<close>

definition num_end :: "string \<Rightarrow> bool" where
  "num_end t = (case t of [] \<Rightarrow> True | c # _ \<Rightarrow> \<not> is_digit c \<and> c \<noteq> CHR ''.'' \<and> c \<noteq> CHR ''e'' \<and> c \<noteq> CHR ''E'')"

lemma digits_show: "num_end t \<Longrightarrow> digits_of (show_nat n @ t) = (show_nat n, t)"
  using show_nat_digits [of n]
  by (cases t) (auto simp: digits_of_def num_end_def takeWhile_append dropWhile_append)

lemma show_nat_zero: "show_nat n = CHR ''0'' # cs \<Longrightarrow> cs = []"
proof (induction n arbitrary: cs rule: show_nat.induct)
  case (1 n)
  show ?case
  proof (cases "n < 10")
    case True
    with 1(2) show ?thesis by (subst (asm) show_nat.simps) simp
  next
    case False
    obtain c ds where s: "show_nat (n div 10) = c # ds" by (cases "show_nat (n div 10)") auto
    with 1(2) False have c: "c = CHR ''0''" by (subst (asm) show_nat.simps) simp
    with 1(1) False s have "ds = []" by blast
    with s c have "read_nat_acc 0 (show_nat (n div 10)) = Some 0" by (simp add: is_digit_def ord_of_def)
    then have "n div 10 = 0" by (simp add: read_show_acc)
    with False show ?thesis by simp
  qed
qed

lemma pnum_int_show: "num_end t \<Longrightarrow> pnum_int (show_nat n @ t) = Some (show_nat n, t)"
proof -
  assume t: "num_end t"
  obtain c cs where s: "show_nat n = c # cs" by (cases "show_nat n") auto
  then have "is_digit c" using show_nat_digits [of n] by simp
  moreover have "c = CHR ''0'' \<Longrightarrow> cs = []" using s show_nat_zero by blast
  ultimately show ?thesis using s digits_show [OF t, of n] by (auto simp: pnum_int_def)
qed

lemma pnum_show_nat: "num_end t \<Longrightarrow> pnum (show_nat n @ t) = Some (show_nat n, t)"
proof -
  assume t: "num_end t"
  obtain c cs where s: "show_nat n = c # cs" by (cases "show_nat n") auto
  then have "is_digit c" using show_nat_digits [of n] by simp
  then have "c \<noteq> CHR ''-''" by (auto simp: is_digit_def ord_of_def)
  moreover have "pnum_int (c # cs @ t) = Some (c # cs, t)" using pnum_int_show [OF t, of n] s by simp
  moreover have "pnum_frac t = Some ([], t)" "pnum_exp t = Some ([], t)"
    using t by (cases t; simp add: num_end_def pnum_frac_def pnum_exp_def)+
  ultimately show ?thesis by (simp add: pnum_def s)
qed

lemma pnum_show: "num_end t \<Longrightarrow> pnum (show_int i @ t) = Some (show_int i, t)"
proof (cases "i < 0")
  case True
  assume t: "num_end t"
  obtain c cs where s: "show_nat (nat (- i)) = c # cs" by (cases "show_nat (nat (- i))") auto
  have "pnum_int (c # cs @ t) = Some (c # cs, t)" using pnum_int_show [OF t, of "nat (- i)"] s by simp
  moreover have "pnum_frac t = Some ([], t)" "pnum_exp t = Some ([], t)"
    using t by (cases t; simp add: num_end_def pnum_frac_def pnum_exp_def)+
  ultimately show ?thesis using True by (simp add: pnum_def show_int_def s)
next
  case False
  assume "num_end t"
  with False show ?thesis by (simp add: show_int_def pnum_show_nat)
qed

lemma show_int_head: "\<exists>c cs. show_int i = c # cs \<and> (is_digit c \<or> c = CHR ''-'')"
proof (cases "i < 0")
  case True
  then show ?thesis by (simp add: show_int_def)
next
  case False
  obtain c cs where s: "show_nat (nat i) = c # cs" by (cases "show_nat (nat i)") auto
  then have "is_digit c" using show_nat_digits [of "nat i"] by simp
  with s False show ?thesis by (simp add: show_int_def)
qed

lemma skip_ws_other: "\<not> json_ws c \<Longrightarrow> skip_ws (c # s) = c # s"
  by (simp add: skip_ws_def)

lemma pval_num: "num_ok r \<Longrightarrow> num_end t \<Longrightarrow> pval (Suc n) d (r @ t) = Some (JNum r, t)"
proof -
  assume r: "num_ok r" and t: "num_end t"
  from r obtain i where i: "r = show_int i" by (auto simp: num_ok_def split: option.splits)
  obtain c cs where c: "show_int i = c # cs" and h: "is_digit c \<or> c = CHR ''-''" using show_int_head by blast
  have "\<not> json_ws c" using h by (auto simp: json_ws_def is_digit_def ord_of_def)
  moreover have "c \<notin> {CHR 0x7B, CHR 0x5B, CHR 0x22, CHR ''t'', CHR ''f'', CHR ''n''}"
    using h by (auto simp: is_digit_def ord_of_def)
  moreover have "pnum (c # cs @ t) = Some (c # cs, t)" using pnum_show [OF t, of i] c by simp
  ultimately show ?thesis by (simp add: i c skip_ws_other)
qed

lemma print_head: "json_ok v \<Longrightarrow> \<exists>c cs. json_print v = c # cs \<and> \<not> json_ws c \<and> c \<noteq> CHR 0x5D \<and> c \<noteq> CHR 0x7D"
proof (cases v)
  case (JNum t)
  assume "json_ok v"
  with JNum obtain i where "t = show_int i" by (auto simp: num_ok_def split: option.splits)
  moreover obtain c cs where "show_int i = c # cs" "is_digit c \<or> c = CHR ''-''" using show_int_head by blast
  ultimately show ?thesis using JNum by (auto simp: json_ws_def is_digit_def ord_of_def)
qed (auto simp: json_ws_def jstring_def)

lemma num_end_simps [simp]: "num_end (CHR '','' # t)" "num_end (CHR 0x5D # t)" "num_end (CHR 0x7D # t)" "num_end []"
  by (auto simp: num_end_def is_digit_def ord_of_def)

lemma skip_ws_simps [simp]:
  "skip_ws (CHR '','' # t) = CHR '','' # t" "skip_ws (CHR 0x5D # t) = CHR 0x5D # t"
  "skip_ws (CHR 0x7D # t) = CHR 0x7D # t" "skip_ws (CHR 0x7B # t) = CHR 0x7B # t" "skip_ws (CHR 0x5B # t) = CHR 0x5B # t"
  "skip_ws (CHR 0x22 # t) = CHR 0x22 # t" "skip_ws (CHR '':'' # t) = CHR '':'' # t" "skip_ws [] = []"
  by (simp_all add: skip_ws_def json_ws_def)

lemma parse_print:
  shows "json_ok v \<Longrightarrow> jdepth v \<le> d \<Longrightarrow> num_end t \<Longrightarrow> \<exists>n. pval n d (json_print v @ t) = Some (v, t)"
    and "elems_ok vs \<Longrightarrow> vs \<noteq> [] \<Longrightarrow> edepth vs \<le> d \<Longrightarrow> \<exists>n. pelems n d (print_elems vs @ t) = Some (vs, t)"
    and "members_ok ms \<Longrightarrow> ms \<noteq> [] \<Longrightarrow> mdepth ms \<le> d \<Longrightarrow> \<exists>n. pmembers n d (print_members ms @ t) = Some (ms, t)"
proof (induction v and vs and ms arbitrary: d t and d t and d t rule: json_print_print_elems_print_members.induct)
  case 1
  have "pval (Suc 0) d (json_print JNull @ t) = Some (JNull, t)" by (simp add: plit_def skip_ws_def json_ws_def)
  then show ?case by blast
next
  case (2 b)
  have "pval (Suc 0) d (json_print (JBool b) @ t) = Some (JBool b, t)"
    by (simp add: plit_def skip_ws_def json_ws_def)
  then show ?case by blast
next
  case (3 r)
  then have "pval (Suc 0) d (json_print (JNum r) @ t) = Some (JNum r, t)" using pval_num [of r t 0 d] by (simp del: pval.simps)
  then show ?case by blast
next
  case (4 r)
  then have "pval (Suc 0) d (json_print (JStr r) @ t) = Some (JStr r, t)" by (simp add: jstring_def pstr_raw)
  then show ?case by blast
next
  case (5 vs)
  show ?case
  proof (cases vs)
    case Nil
    with 5 have "pval (Suc 0) d (json_print (JArr vs) @ t) = Some (JArr vs, t)" by simp
    then show ?thesis by blast
  next
    case (Cons w ws)
    with 5(2,3) obtain c cs where h: "print_elems vs @ t = c # cs" "\<not> json_ws c" "c \<noteq> CHR 0x5D"
      using print_head [of w] by auto
    have "elems_ok vs" "vs \<noteq> []" "edepth vs \<le> d - 1" using 5(2,3) Cons by auto
    from 5(1) [OF Cons this] obtain n where "pelems n (d - 1) (print_elems vs @ t) = Some (vs, t)" by blast
    with h have "pval (Suc n) d (CHR 0x5B # print_elems vs @ t) = Some (JArr vs, t)"
      using 5(3) by (simp add: skip_ws_other)
    then show ?thesis using Cons by (metis append_Cons json_print.simps(5) list.simps(5))
  qed
next
  case (6 ms)
  show ?case
  proof (cases ms)
    case Nil
    with 6 have "pval (Suc 0) d (json_print (JObj ms) @ t) = Some (JObj ms, t)" by simp
    then show ?thesis by blast
  next
    case (Cons m ms')
    obtain k w where m: "m = (k, w)" by (cases m)
    then have h: "\<exists>cs. print_members ms @ t = CHR 0x22 # cs" using Cons by (simp add: jstring_def)
    have "members_ok ms" "ms \<noteq> []" "mdepth ms \<le> d - 1" using 6(2,3) Cons by auto
    from 6(1) [OF Cons this] obtain n where "pmembers n (d - 1) (print_members ms @ t) = Some (ms, t)" by blast
    with h have "pval (Suc n) d (CHR 0x7B # print_members ms @ t) = Some (JObj ms, t)"
      using 6(3) by (auto simp: skip_ws_other)
    then show ?thesis using Cons by (metis append_Cons json_print.simps(6) list.simps(5))
  qed
next
  case 7
  then show ?case by simp
next
  case (8 v vs)
  show ?case
  proof (cases vs)
    case Nil
    with 8(1) [of d "CHR 0x5D # t"] 8(3,5) obtain n where "pval n d (json_print v @ CHR 0x5D # t) = Some (v, CHR 0x5D # t)"
      by auto
    with Nil have "pelems (Suc n) d (print_elems (v # vs) @ t) = Some (v # vs, t)" by simp
    then show ?thesis by blast
  next
    case (Cons w ws)
    with 8(1) [of d "CHR '','' # print_elems vs @ t"] 8(3,5)
    obtain n where n: "pval n d (json_print v @ CHR '','' # print_elems vs @ t) = Some (v, CHR '','' # print_elems vs @ t)"
      by auto
    have "elems_ok vs" "vs \<noteq> []" "edepth vs \<le> d" using 8(3,5) Cons by auto
    from 8(2) [OF Cons this] obtain k where k: "pelems k d (print_elems vs @ t) = Some (vs, t)" by blast
    let ?m = "max n k"
    have "pelems (Suc ?m) d (print_elems (v # vs) @ t) = Some (v # vs, t)"
      using Cons pval_mono(1) [OF n, of ?m] pval_mono(2) [OF k, of ?m] by simp
    then show ?thesis by blast
  qed
next
  case 9
  then show ?case by simp
next
  case (10 k v ms)
  then have p: "pstr (k @ CHR 0x22 # x) = Some (k, x)" for x by (simp add: pstr_raw)
  show ?case
  proof (cases ms)
    case Nil
    with 10(1) [of d "CHR 0x7D # t"] 10(3,5) obtain n where "pval n d (json_print v @ CHR 0x7D # t) = Some (v, CHR 0x7D # t)"
      by auto
    with Nil 10(3) p have "pmembers (Suc n) d (print_members ((k, v) # ms) @ t) = Some ((k, v) # ms, t)"
      by (simp add: jstring_def)
    then show ?thesis by blast
  next
    case (Cons w ws)
    with 10(1) [of d "CHR '','' # print_members ms @ t"] 10(3,5)
    obtain n where n: "pval n d (json_print v @ CHR '','' # print_members ms @ t) = Some (v, CHR '','' # print_members ms @ t)"
      by auto
    have "members_ok ms" "ms \<noteq> []" "mdepth ms \<le> d" using 10(3,5) Cons by auto
    from 10(2) [OF Cons this] obtain j where j: "pmembers j d (print_members ms @ t) = Some (ms, t)" by blast
    let ?m = "max n j"
    have "pmembers (Suc ?m) d (print_members ((k, v) # ms) @ t) = Some ((k, v) # ms, t)"
      using Cons 10(3) p pval_mono(1) [OF n, of ?m] pval_mono(3) [OF j, of ?m] by (simp add: jstring_def)
    then show ?thesis by blast
  qed
qed

lemma json_first_print:
  "json_ok v \<Longrightarrow> jdepth v \<le> max_nesting \<Longrightarrow> num_end t \<Longrightarrow> json_first (json_print v @ t) = Some (v, t)"
  using parse_print(1) json_first_any_fuel by blast

lemma json_parse_print: "json_ok v \<Longrightarrow> jdepth v \<le> max_nesting \<Longrightarrow> json_parse (json_print v) = Some v"
  using json_first_print [of v "[]"] by (simp add: json_parse_def)



definition ascii :: "string \<Rightarrow> bool" where
  "ascii s \<longleftrightarrow> list_all (\<lambda>c. ord_of c < 128) s"

lemma ascii_simps [simp]: "ascii []" "ascii (c # s) \<longleftrightarrow> ord_of c < 128 \<and> ascii s" "ascii (s @ t) \<longleftrightarrow> ascii s \<and> ascii t"
  by (auto simp: ascii_def)

lemma hex_char_props [simp]: "n < 16 \<Longrightarrow> is_hex (hex_char n)" "n < 16 \<Longrightarrow> hex_val (hex_char n) = n"
    "n < 16 \<Longrightarrow> ord_of (hex_char n) < 128" "n < 16 \<Longrightarrow> \<not> html_char (hex_char n)"
  by (auto simp: hex_char_def is_hex_def is_digit_def hex_val_def html_char_def char_eq_ord [of "char_of _"])
    (auto simp: ord_of_def)

lemma hex_zero [simp]: "is_hex (CHR ''0'')" "hex_val (CHR ''0'') = 0"
  by (simp_all add: is_hex_def is_digit_def hex_val_def ord_of_def)

lemma raw_ok_quote_ascii: "ord_of c < 128 \<Longrightarrow> raw_ok (quote_ascii c @ r) = raw_ok r"
  by (auto simp: quote_ascii_def u00_def simple_escape_def)

lemma quote_ascii_plain: "ord_of c < 128 \<Longrightarrow> x \<in> set (quote_ascii c) \<Longrightarrow> ord_of x < 128 \<and> \<not> html_char x"
  by (auto simp: quote_ascii_def u00_def split: if_splits) (auto simp: html_char_def ord_of_def)

lemma quote_ascii_cases:
  "quote_ascii c = u00 (ord_of c) \<or> (\<exists>e. quote_ascii c = [CHR 0x5C, e] \<and> escape_value e = c \<and> e \<noteq> CHR ''u'')
   \<or> (quote_ascii c = [c] \<and> c \<noteq> CHR 0x5C)"
  by (simp add: quote_ascii_def escape_value_def)

lemma unquote_quote_ascii: "ord_of c < 128 \<Longrightarrow> unquote (quote_ascii c @ r) = c # unquote r"
proof -
  assume a: "ord_of c < 128"
  consider (u) "quote_ascii c = u00 (ord_of c)" | (e) e where "quote_ascii c = [CHR 0x5C, e]" "escape_value e = c" "e \<noteq> CHR ''u''"
    | (p) "quote_ascii c = [c]" "c \<noteq> CHR 0x5C"
    using quote_ascii_cases [of c] by blast
  then show ?thesis
  proof cases
    case u
    have "ord_of c div 16 < 16" using a by simp
    then have "getu4 (u00 (ord_of c) @ r) = Some (ord_of c)"
      by (simp add: u00_def getu4_def)
    with u a show ?thesis
      by (simp add: u00_def unquote.simps(2) utf8_enc_def is_surrogate_def)
  next
    case e
    then have "getu4 (CHR 0x5C # e # r) = None"
      by (auto simp: getu4_def split: list.splits)
    with e show ?thesis by (simp add: unquote.simps(2))
  next
    case p
    with a show ?thesis by (simp add: unquote.simps(2) utf8_len_def)
  qed
qed

lemma html_esc_plain: "\<forall>c \<in> set r. ord_of c < 128 \<and> \<not> html_char c \<Longrightarrow> html_esc r = r"
  by (induction r rule: html_esc.induct) auto

lemma quote_ascii_Cons: "ord_of c < 128 \<Longrightarrow> quote (c # s) = quote_ascii c @ quote s"
  by (simp add: quote.simps(2))

lemma quote_props:
  assumes "ascii s"
  shows raw_ok_quote: "raw_ok (quote s)" and unquote_quote: "unquote (quote s) = s"
    and quote_plain: "\<forall>c \<in> set (quote s). ord_of c < 128 \<and> \<not> html_char c"
  using assms
  by (induction s) (auto simp: quote_ascii_Cons raw_ok_quote_ascii unquote_quote_ascii dest: quote_ascii_plain)

lemma html_esc_quote: "ascii s \<Longrightarrow> html_esc (quote s) = quote s"
  by (rule html_esc_plain) (rule quote_plain)

lemma jstr_ok [simp]: "ascii s \<Longrightarrow> json_ok (jstr s)" "jdepth (jstr s) = 0"
  by (simp_all add: jstr_def raw_ok_quote html_esc_quote)

lemma jint_ok [simp]: "int64_ok i \<Longrightarrow> json_ok (jint i)" "jdepth (jint i) = 0"
  by (simp_all add: jint_def num_ok_def parse_int_show_int)

lemma plain_char:
  assumes "is_lower c \<or> is_digit c \<or> c = CHR ''_''"
  shows "ord_of c < 128" and "quote_ascii c = [c]"
proof -
  have u: "ord_of (CHR ''_'') = 95" by (simp add: ord_of_def)
  then have r: "48 \<le> ord_of c \<and> ord_of c \<le> 57 \<or> 95 \<le> ord_of c \<and> ord_of c \<le> 122"
    using assms by (auto simp: is_lower_def is_digit_def)
  then show "ord_of c < 128" by auto
  have "c \<noteq> d" if "d \<in> set [CHR 0x5C, CHR 0x22, CHR 0x08, CHR 0x0C, CHR 0x0A, CHR 0x0D, CHR 0x09, CHR ''<'', CHR ''>'', CHR ''&'']" for d
  proof -
    have "ord_of d < 48 \<or> 57 < ord_of d \<and> ord_of d < 95" using that by (auto simp: ord_of_def)
    with r show ?thesis by auto
  qed
  moreover have "\<not> ord_of c < 32" using r by auto
  ultimately show "quote_ascii c = [c]" by (simp add: quote_ascii_def html_char_def)
qed

definition plain :: "string \<Rightarrow> bool" where
  "plain s \<longleftrightarrow> list_all (\<lambda>c. is_lower c \<or> is_digit c \<or> c = CHR ''_'') s"

lemma plain_ascii: "plain s \<Longrightarrow> ascii s"
  unfolding plain_def ascii_def list_all_iff using plain_char(1) by blast

lemma plain_quote: "plain s \<Longrightarrow> quote s = s"
proof (induction s)
  case (Cons c s)
  then have "is_lower c \<or> is_digit c \<or> c = CHR ''_''" "plain s" by (auto simp: plain_def)
  with Cons show ?case by (simp add: quote_ascii_Cons plain_char)
qed simp

lemma plain_raw: "plain s \<Longrightarrow> raw_ok s" "plain s \<Longrightarrow> unquote s = s" "plain s \<Longrightarrow> html_esc s = s"
  using quote_props [of s] html_esc_quote [of s] by (auto simp: plain_quote plain_ascii)

end
