(* ===== verification/Problem.thy ===== *)
theory Problem
  imports Json
begin

text \<open>
  The package \<open>lib/problem\<close>: the problem document (RFC 9457), its builders, the cut of a
  catalogue message \<open>ERR-GGG-CCC: text\<close>, the challenge of a 401 (RFC 6750) and \<open>Write\<close>. With it
  stand the values the handlers exchange: a Go error (\<open>goerr\<close>, with \<open>errors.As\<close> along its wrapped
  chain), an HTTP request as the handlers read it and the response writer.
\<close>

section \<open>HTTP requests and responses\<close>

text \<open>Header fields are kept in canonical form: a name and its values in order.\<close>

type_synonym header = "(string \<times> string list) list"

definition hdr_values :: "header \<Rightarrow> string \<Rightarrow> string list" where
  "hdr_values h k = (case map_of h k of None \<Rightarrow> [] | Some vs \<Rightarrow> vs)"

text \<open>\<open>Header.Get\<close>: the first value or the empty string; \<open>Header.Set\<close> replaces.\<close>

definition hdr_get :: "header \<Rightarrow> string \<Rightarrow> string" where
  "hdr_get h k = (case hdr_values h k of [] \<Rightarrow> [] | v # _ \<Rightarrow> v)"

definition hdr_put :: "header \<Rightarrow> string \<Rightarrow> string list \<Rightarrow> header" where
  "hdr_put h k vs = (k, vs) # filter (\<lambda>p. fst p \<noteq> k) h"

definition hdr_set :: "header \<Rightarrow> string \<Rightarrow> string \<Rightarrow> header" where
  "hdr_set h k v = hdr_put h k [v]"

type_synonym url_values = "(string \<times> string list) list"

text \<open>A request: \<open>r.URL.Path\<close> is decoded, \<open>rescaped\<close> is \<open>r.URL.EscapedPath()\<close>, \<open>rquery\<close> what
  \<open>r.URL.Query()\<close> gives and \<open>rqueryerr\<close> the error of \<open>url.ParseQuery\<close> on the raw query;
  \<open>rpathvalue\<close> are the wildcards of the matched route; the body is \<open>None\<close> when reading it fails.\<close>

record request =
  rmethod :: string
  rpath :: string
  rescaped :: string
  rrawquery :: string
  rquery :: url_values
  rqueryerr :: "string option"
  rheader :: header
  rremote :: string
  rpathvalue :: "(string \<times> string) list"
  rbody :: "bytes option"

definition path_value :: "request \<Rightarrow> string \<Rightarrow> string" where
  "path_value r k = (case map_of (rpathvalue r) k of None \<Rightarrow> [] | Some v \<Rightarrow> v)"

text \<open>The response writer: the header map, the status once \<open>WriteHeader\<close> was called (the first call
  counts), the header as it was then, and the body.\<close>

record response =
  whdr :: header
  wstatus :: "nat option"
  wbody :: bytes

definition fresh_response :: response where
  "fresh_response = \<lparr>whdr = [], wstatus = None, wbody = []\<rparr>"

definition set_header :: "string \<Rightarrow> string \<Rightarrow> response \<Rightarrow> response" where
  "set_header k v w = w\<lparr>whdr := hdr_set (whdr w) k v\<rparr>"

definition write_header :: "nat \<Rightarrow> response \<Rightarrow> response" where
  "write_header n w = (case wstatus w of None \<Rightarrow> w\<lparr>wstatus := Some n\<rparr> | Some _ \<Rightarrow> w)"

definition write_body :: "bytes \<Rightarrow> response \<Rightarrow> response" where
  "write_body b w = (let w' = write_header 200 w in w'\<lparr>wbody := wbody w' @ b\<rparr>)"

section \<open>Problems\<close>

record problem =
  ptype :: string
  ptitle :: string
  pstatus :: nat
  pdetail :: string
  pinstance :: string
  prequest_id :: string
  pcode :: "string option"
  pno_credentials :: bool

definition code_login_failed :: string where
  "code_login_failed = ''ERR-401-001''"

definition code_token_expired :: string where
  "code_token_expired = ''ERR-401-008''"

definition code_json_empty :: string where
  "code_json_empty = ''ERR-400-060''"

definition code_json_key :: string where
  "code_json_key = ''ERR-400-061''"

definition problem_error :: "problem \<Rightarrow> string" where
  "problem_error p = (if pdetail p \<noteq> [] then ptitle p @ '': '' @ pdetail p else ptitle p)"

definition problem_new :: "nat \<Rightarrow> string \<Rightarrow> string \<Rightarrow> string \<Rightarrow> problem" where
  "problem_new status slug title detail =
     \<lparr>ptype = ''urn:apostol:error:'' @ slug, ptitle = title, pstatus = status, pdetail = detail,
      pinstance = [], prequest_id = [], pcode = None, pno_credentials = False\<rparr>"

definition with_code :: "problem \<Rightarrow> string \<Rightarrow> problem" where
  "with_code p code = p\<lparr>pcode := Some code\<rparr>"

definition no_credentials :: "problem \<Rightarrow> problem" where
  "no_credentials p = p\<lparr>pno_credentials := True\<rparr>"

text \<open>A catalogue is the function \<open>Title(code, fallback)\<close>.\<close>

type_synonym catalogue = "string \<Rightarrow> string \<Rightarrow> string"

definition unauthorized :: "catalogue option \<Rightarrow> string \<Rightarrow> string \<Rightarrow> problem" where
  "unauthorized cat code detail =
     (let title = ''Unauthorized'';
          title' = (case cat of None \<Rightarrow> title | Some f \<Rightarrow> f code title)
      in with_code (problem_new 401 ''unauthorized'' title' detail) code)"

text \<open>\<open>codeRe\<close>, \<open>^(ERR-(\d{3})-\d{3}): ?(.*)$\<close>: the code, its group and the text; the dot does not
  match a line feed.\<close>

definition code_re :: "string \<Rightarrow> (string \<times> string \<times> string) option" where
  "code_re s =
     (let code = take 11 s; group = take 3 (drop 4 s); rest = drop 12 s;
          body = (case rest of [] \<Rightarrow> [] | c # cs \<Rightarrow> if c = CHR '' '' then cs else rest)
      in if 12 \<le> length s \<and> take 4 s = ''ERR-'' \<and> list_all is_digit group \<and> s ! 7 = CHR ''-''
            \<and> list_all is_digit (take 3 (drop 8 s)) \<and> s ! 11 = CHR '':'' \<and> CHR 0x0A \<notin> set body
         then Some (code, group, body) else None)"

definition parse_message :: "string \<Rightarrow> (string \<times> string) option" where
  "parse_message msg = (case code_re msg of None \<Rightarrow> None | Some (code, _, text) \<Rightarrow> Some (code, text))"

text \<open>The statuses \<open>http.StatusText\<close> names.\<close>

definition status_text_known :: "nat \<Rightarrow> bool" where
  "status_text_known g \<longleftrightarrow> (100 \<le> g \<and> g \<le> 103) \<or> (200 \<le> g \<and> g \<le> 208) \<or> g = 226
     \<or> (300 \<le> g \<and> g \<le> 308 \<and> g \<noteq> 306) \<or> (400 \<le> g \<and> g \<le> 418) \<or> (421 \<le> g \<and> g \<le> 426)
     \<or> g = 428 \<or> g = 429 \<or> g = 431 \<or> g = 451 \<or> (500 \<le> g \<and> g \<le> 508) \<or> g = 510 \<or> g = 511"

definition from_code :: "string \<Rightarrow> string \<Rightarrow> string \<Rightarrow> problem" where
  "from_code code title detail =
     (let status = (case code_re (code @ '': '') of None \<Rightarrow> 400
            | Some (_, g, _) \<Rightarrow> (case parse_int g of None \<Rightarrow> 400
                 | Some i \<Rightarrow> if status_text_known (nat i) then nat i else 400))
      in \<lparr>ptype = ''urn:apostol:error:'' @ code, ptitle = title, pstatus = status, pdetail = detail,
          pinstance = [], prequest_id = [], pcode = Some code, pno_credentials = False\<rparr>)"

definition describable :: "string \<Rightarrow> bool" where
  "describable s = (if s = [] then False
     else list_all (\<lambda>c. \<not> (ord_of c < 32 \<or> 126 < ord_of c \<or> c = CHR 0x22 \<or> c = CHR 0x5C)) s)"

definition challenge :: "problem \<Rightarrow> string" where
  "challenge p =
     (if pno_credentials p then ''Bearer''
      else (let c = ''Bearer error='' @ CHR 0x22 # ''invalid_token'' @ [CHR 0x22]
            in if describable (pdetail p)
               then c @ '', error_description='' @ CHR 0x22 # pdetail p @ [CHR 0x22] else c))"

text \<open>The document as \<open>json.Encoder\<close> writes it: the fields in the order of the struct, the empty
  optional ones left out, a line feed at the end.\<close>

definition omitempty :: "string \<Rightarrow> string \<Rightarrow> (string \<times> json) list" where
  "omitempty k v = (if v = [] then [] else [(k, jstr v)])"

definition problem_json :: "problem \<Rightarrow> json" where
  "problem_json p = JObj ([(''type'', jstr (ptype p)), (''title'', jstr (ptitle p)), (''status'', jint (int (pstatus p)))]
     @ omitempty ''detail'' (pdetail p) @ omitempty ''instance'' (pinstance p)
     @ omitempty ''request_id'' (prequest_id p)
     @ [(''code'', case pcode p of None \<Rightarrow> JNull | Some c \<Rightarrow> jstr c)])"

definition problem_write :: "problem \<Rightarrow> response \<Rightarrow> request option \<Rightarrow> response" where
  "problem_write p w r =
     (let out = p;
          out = (case r of Some q \<Rightarrow> if pinstance out = [] then out\<lparr>pinstance := rpath q\<rparr> else out | None \<Rightarrow> out);
          out = (case r of Some q \<Rightarrow> if prequest_id out = [] then out\<lparr>prequest_id := hdr_get (rheader q) ''X-Request-Id''\<rparr> else out
                 | None \<Rightarrow> out);
          w1 = set_header ''Content-Type'' ''application/problem+json'' w;
          w2 = (if pstatus out = 401 then set_header ''Www-Authenticate'' (challenge out) w1 else w1);
          w3 = (if prequest_id out \<noteq> [] then set_header ''X-Request-Id'' (prequest_id out) w2 else w2)
      in write_body (json_print (problem_json out) @ [CHR 0x0A]) (write_header (pstatus out) w3))"

section \<open>Go errors\<close>

text \<open>An error value: a problem, a PostgreSQL error (SQLSTATE and message), \<open>pgtx.ErrNoRow\<close>,
  \<open>pgx.ErrNoRows\<close>, any other error by its text, or one that wraps another (\<open>%w\<close>).\<close>

datatype goerr =
    EProblem problem
  | EPg string string
  | ENoRow
  | ENoRows
  | EText string
  | EWrap string goerr

fun as_problem :: "goerr \<Rightarrow> problem option" where
  "as_problem (EProblem p) = Some p"
| "as_problem (EWrap _ e) = as_problem e"
| "as_problem _ = None"

fun as_pg :: "goerr \<Rightarrow> (string \<times> string) option" where
  "as_pg (EPg c m) = Some (c, m)"
| "as_pg (EWrap _ e) = as_pg e"
| "as_pg _ = None"

fun is_no_row :: "goerr \<Rightarrow> bool" where
  "is_no_row ENoRow = True"
| "is_no_row (EWrap _ e) = is_no_row e"
| "is_no_row _ = False"

abbreviation bad_request :: "string \<Rightarrow> goerr" where
  "bad_request detail \<equiv> EProblem (problem_new 400 ''validation'' ''Bad request'' detail)"

abbreviation not_found :: goerr where
  "not_found \<equiv> EProblem (problem_new 404 ''not-found'' ''Not found'' [])"

section \<open>Lemmas\<close>

lemma hdr_get_set [simp]: "hdr_get (hdr_set h k v) j = (if j = k then v else hdr_get h j)"
proof -
  have "map_of (filter (\<lambda>p. fst p \<noteq> k) h) j = (if j = k then None else map_of h j)"
    by (induction h) auto
  then show ?thesis by (simp add: hdr_get_def hdr_values_def hdr_set_def hdr_put_def)
qed

lemma set_header_simps [simp]: "whdr (set_header k v w) = hdr_set (whdr w) k v"
    "wstatus (set_header k v w) = wstatus w" "wbody (set_header k v w) = wbody w"
  by (simp_all add: set_header_def)

lemma write_header_simps [simp]: "whdr (write_header n w) = whdr w" "wbody (write_header n w) = wbody w"
    "wstatus (write_header n w) = Some (case wstatus w of None \<Rightarrow> n | Some m \<Rightarrow> m)"
  by (simp_all add: write_header_def split: option.splits)

lemma write_body_simps [simp]: "whdr (write_body b w) = whdr w" "wbody (write_body b w) = wbody w @ b"
    "wstatus (write_body b w) = Some (case wstatus w of None \<Rightarrow> 200 | Some m \<Rightarrow> m)"
  by (simp_all add: write_body_def Let_def)

lemma problem_new_simps [simp]: "pstatus (problem_new s g t d) = s" "pcode (problem_new s g t d) = None"
    "pdetail (problem_new s g t d) = d" "ptitle (problem_new s g t d) = t"
    "pno_credentials (problem_new s g t d) = False" "ptype (problem_new s g t d) = ''urn:apostol:error:'' @ g"
    "pinstance (problem_new s g t d) = []" "prequest_id (problem_new s g t d) = []"
  by (simp_all add: problem_new_def)

lemma with_code_simps [simp]: "pstatus (with_code p c) = pstatus p" "pcode (with_code p c) = Some c"
    "pdetail (with_code p c) = pdetail p" "pno_credentials (with_code p c) = pno_credentials p"
    "ptitle (with_code p c) = ptitle p" "ptype (with_code p c) = ptype p"
  by (simp_all add: with_code_def)

lemma unauthorized_simps [simp]: "pstatus (unauthorized cat c d) = 401" "pcode (unauthorized cat c d) = Some c"
    "pdetail (unauthorized cat c d) = d" "pno_credentials (unauthorized cat c d) = False"
    "ptype (unauthorized cat c d) = ''urn:apostol:error:unauthorized''"
  by (simp_all add: unauthorized_def Let_def)

lemma no_credentials_simps [simp]: "pstatus (no_credentials p) = pstatus p" "pcode (no_credentials p) = pcode p"
    "pdetail (no_credentials p) = pdetail p" "pno_credentials (no_credentials p)"
  by (simp_all add: no_credentials_def)

lemma from_code_simps [simp]: "pcode (from_code c t d) = Some c" "pdetail (from_code c t d) = d"
    "ptitle (from_code c t d) = t" "pno_credentials (from_code c t d) = False"
  by (simp_all add: from_code_def Let_def)

lemma problem_write_status [simp]:
  "wstatus (problem_write p w r) = Some (case wstatus w of None \<Rightarrow> pstatus p | Some m \<Rightarrow> m)"
  by (simp add: problem_write_def Let_def split: option.splits)

lemma problem_write_type [simp]:
  "hdr_get (whdr (problem_write p w r)) ''Content-Type'' = ''application/problem+json''"
  by (simp add: problem_write_def Let_def split: option.splits)

lemma challenge_instance [simp]: "challenge (p\<lparr>pinstance := i\<rparr>) = challenge p"
    "challenge (p\<lparr>prequest_id := j\<rparr>) = challenge p"
  by (simp_all add: challenge_def Let_def)

lemma problem_write_challenge:
  "hdr_get (whdr (problem_write p w r)) ''Www-Authenticate''
    = (if pstatus p = 401 then challenge p else hdr_get (whdr w) ''Www-Authenticate'')"
  by (simp add: problem_write_def Let_def split: option.splits)

lemma problem_write_other:
  "k \<notin> {''Content-Type'', ''Www-Authenticate'', ''X-Request-Id''} \<Longrightarrow>
   hdr_get (whdr (problem_write p w r)) k = hdr_get (whdr w) k"
  by (simp add: problem_write_def Let_def split: option.splits)

lemma from_code_status: "status_text_known (pstatus (from_code c t d))"
proof -
  have "status_text_known 400" by (simp add: status_text_known_def)
  then show ?thesis by (simp add: from_code_def Let_def split: option.splits prod.splits)
qed

text \<open>A catalogue code of group 100 to 103 gives an informational status.\<close>

lemma from_code_informational: "pstatus (from_code ''ERR-100-001'' t d) = 100"
  by code_simp

definition header_safe :: "string \<Rightarrow> bool" where
  "header_safe s \<longleftrightarrow> list_all (\<lambda>c. 32 \<le> ord_of c \<and> ord_of c \<le> 126) s"

lemma header_safe_append [simp]: "header_safe (s @ t) \<longleftrightarrow> header_safe s \<and> header_safe t"
  by (simp add: header_safe_def)

lemma header_safe_Cons [simp]: "header_safe (c # t) \<longleftrightarrow> 32 \<le> ord_of c \<and> ord_of c \<le> 126 \<and> header_safe t"
  by (simp add: header_safe_def)

lemma describable_safe: "describable s \<Longrightarrow> header_safe s"
proof -
  assume "describable s"
  then have "\<forall>c \<in> set s. \<not> (ord_of c < 32 \<or> 126 < ord_of c)"
    unfolding describable_def list_all_iff by (metis (full_types))
  then show ?thesis unfolding header_safe_def list_all_iff by (simp add: not_less)
qed

lemma challenge_safe: "header_safe (challenge p)"
proof -
  have "header_safe []" "header_safe ''Bearer''" "header_safe ''Bearer error=''" "header_safe ''invalid_token''"
    "header_safe '', error_description=''" by (code_simp)+
  moreover have "ord_of (CHR 0x22) = 34" by (simp add: ord_of_def)
  ultimately show ?thesis using describable_safe [of "pdetail p"]
    unfolding challenge_def Let_def by (cases "pno_credentials p"; cases "describable (pdetail p)")
      (simp_all only: if_True if_False header_safe_append header_safe_Cons, simp_all)
qed

text \<open>Every 401 the process writes carries a challenge that is a legal header value: the bare scheme when
  the request had no bearer at all, \<open>invalid_token\<close> otherwise, whatever text the database put in the detail.\<close>

lemma write_401_challenge:
  assumes "pstatus p = 401"
  shows "let v = hdr_get (whdr (problem_write p w r)) ''Www-Authenticate'' in
     header_safe v \<and> (if pno_credentials p then v = ''Bearer'' else has_prefix v (''Bearer error='' @ CHR 0x22 # ''invalid_token''))"
proof -
  have "has_prefix (challenge p) (''Bearer error='' @ CHR 0x22 # ''invalid_token'')" if "\<not> pno_credentials p"
    using that by (simp add: challenge_def Let_def has_prefix_def)
  moreover have "challenge p = ''Bearer''" if "pno_credentials p" using that by (simp add: challenge_def)
  ultimately show ?thesis using assms challenge_safe [of p] by (simp add: problem_write_challenge Let_def)
qed

end
