(* ===== verification/Base64.thy ===== *)
theory Base64
  imports Prelude
begin

text \<open>
  \<open>encoding/base64\<close> as the sources use it: \<open>RawURLEncoding\<close> (the parts of a JWT, no padding; the decoder
  skips CR and LF and does not check the unused trailing bits) and \<open>StdEncoding\<close>, in which
  \<open>encoding/json\<close> writes a \<open>[]byte\<close>. The codec is a pair of functions on groups of six bits;
  \<open>b64_decode_encode\<close> is the round trip.
\<close>

fun enc64 :: "nat list \<Rightarrow> nat list" where
  "enc64 [] = []"
| "enc64 [x] = [x div 4, x mod 4 * 16]"
| "enc64 [x, y] = [x div 4, x mod 4 * 16 + y div 16, y mod 16 * 4]"
| "enc64 (x # y # z # r) = [x div 4, x mod 4 * 16 + y div 16, y mod 16 * 4 + z div 64, z mod 64] @ enc64 r"

fun dec64 :: "nat list \<Rightarrow> nat list option" where
  "dec64 [] = Some []"
| "dec64 [a] = None"
| "dec64 [a, b] = Some [a * 4 + b div 16]"
| "dec64 [a, b, c] = Some [a * 4 + b div 16, b mod 16 * 16 + c div 4]"
| "dec64 (a # b # c # d # r) =
     map_option (\<lambda>t. [a * 4 + b div 16, b mod 16 * 16 + c div 4, c mod 4 * 64 + d] @ t) (dec64 r)"

text \<open>The alphabets differ in the last two characters.\<close>

definition b64_char :: "char \<Rightarrow> char \<Rightarrow> nat \<Rightarrow> char" where
  "b64_char c62 c63 n = (if n < 26 then char_of (65 + n) else if n < 52 then char_of (71 + n)
     else if n < 62 then char_of (n - 4) else if n = 62 then c62 else c63)"

definition b64_val :: "char \<Rightarrow> char \<Rightarrow> char \<Rightarrow> nat option" where
  "b64_val c62 c63 c = (let n = ord_of c in
     if 65 \<le> n \<and> n \<le> 90 then Some (n - 65) else if 97 \<le> n \<and> n \<le> 122 then Some (n - 71)
     else if 48 \<le> n \<and> n \<le> 57 then Some (n + 4)
     else if c = c62 then Some 62 else if c = c63 then Some 63 else None)"

fun b64_vals :: "string \<Rightarrow> nat list option" where
  "b64_vals [] = Some []"
| "b64_vals (c # cs) =
     (if c = CHR 0x0A \<or> c = CHR 0x0D then b64_vals cs
      else (case b64_val CHR ''-'' CHR ''_'' c of None \<Rightarrow> None
            | Some v \<Rightarrow> map_option (\<lambda>t. v # t) (b64_vals cs)))"

definition b64_decode :: "string \<Rightarrow> bytes option" where
  "b64_decode s = (case b64_vals s of None \<Rightarrow> None
     | Some vs \<Rightarrow> (case dec64 vs of None \<Rightarrow> None | Some bs \<Rightarrow> Some (map char_of bs)))"

definition b64_encode :: "bytes \<Rightarrow> string" where
  "b64_encode bs = map (b64_char CHR ''-'' CHR ''_'') (enc64 (map ord_of bs))"

definition b64_std :: "bytes \<Rightarrow> string" where
  "b64_std bs = (let t = map (b64_char CHR ''+'' CHR ''/'') (enc64 (map ord_of bs))
     in t @ replicate ((4 - length t mod 4) mod 4) CHR ''='')"

section \<open>The round trip\<close>

lemma enc64_less: "\<forall>x \<in> set bs. x < 256 \<Longrightarrow> v \<in> set (enc64 bs) \<Longrightarrow> v < 64"
  by (induction bs rule: enc64.induct) auto

lemma high_bits: "y < 256 \<Longrightarrow> y div 16 div 16 = (0::nat)" "y < 256 \<Longrightarrow> y div 16 mod 16 = y div (16::nat)"
    "z < 256 \<Longrightarrow> z div 64 div 4 = (0::nat)" "z < 256 \<Longrightarrow> z div 64 mod 4 = z div (64::nat)"
  by (simp_all add: div_less_iff_less_mult)

lemma dec64_enc64: "\<forall>x \<in> set bs. x < 256 \<Longrightarrow> dec64 (enc64 bs) = Some bs"
  by (induction bs rule: enc64.induct) (simp_all add: high_bits)

lemma b64_val_char: "n < 64 \<Longrightarrow> b64_val CHR ''-'' CHR ''_'' (b64_char CHR ''-'' CHR ''_'' n) = Some n"
  by (auto simp: b64_val_def b64_char_def Let_def char_eq_ord ord_of_def)

lemma b64_char_graph: "n < 64 \<Longrightarrow> b64_char CHR ''-'' CHR ''_'' n \<notin> {CHR 0x0A, CHR 0x0D, CHR ''.''}"
  by (auto simp: b64_char_def char_eq_ord ord_of_def)

lemma b64_vals_map: "\<forall>v \<in> set vs. v < 64 \<Longrightarrow> b64_vals (map (b64_char CHR ''-'' CHR ''_'') vs) = Some vs"
proof (induction vs)
  case (Cons v vs)
  then show ?case using b64_char_graph [of v] by (simp add: b64_val_char)
qed simp

lemma b64_decode_encode [simp]: "b64_decode (b64_encode bs) = Some bs"
proof -
  have b: "\<forall>x \<in> set (map ord_of bs). x < 256" by simp
  then have "b64_vals (b64_encode bs) = Some (enc64 (map ord_of bs))"
    unfolding b64_encode_def using b64_vals_map enc64_less by blast
  with dec64_enc64 [OF b] show ?thesis by (simp add: b64_decode_def comp_def)
qed

lemma b64_encode_nodot: "CHR ''.'' \<notin> set (b64_encode bs)"
proof
  assume "CHR ''.'' \<in> set (b64_encode bs)"
  then obtain v where v: "v \<in> set (enc64 (map ord_of bs))" "CHR ''.'' = b64_char CHR ''-'' CHR ''_'' v"
    by (auto simp: b64_encode_def)
  have "v < 64" using v(1) enc64_less [of "map ord_of bs" v] by auto
  then show False using b64_char_graph [of v] v(2) by simp
qed

end
