(* ===== verification/Args.thy ===== *)
theory Args
  imports Problem Base64 "HOL-Library.Multiset"
begin

text \<open>
  The argument side of \<open>lib/pgtx/call.go\<close>: the named arguments of an \<open>api.*\<close> call, their JSON object
  (what \<open>daemon.call\<close> takes) and \<open>callSQL\<close>, the text of the direct call. A Go map is an association
  list with distinct keys, in the order the range loop happens to visit it; \<open>call_sql_order\<close> shows
  that the text does not depend on it, \<open>call_sql_safe\<close> says exactly which calls are built and with
  which text and values: no text of a client can enter the statement.
\<close>

section \<open>Arguments\<close>

datatype aval =
    VNil
  | VStr string
  | VInt int
  | VBool bool
  | VStrs "string list"
  | VRaw bytes
  | VBytes bytes
  | VTyped aval string

type_synonym args = "(string \<times> aval) list"

text \<open>\<open>pgtx.JSON\<close>.\<close>

definition json_arg :: "bytes \<Rightarrow> aval" where
  "json_arg b = (if b = [] then VNil else VRaw b)"

text \<open>\<open>json.Marshal\<close> of a value; a \<open>json.RawMessage\<close> that is no JSON text is its error.\<close>

fun aval_json :: "aval \<Rightarrow> json option" where
  "aval_json VNil = Some JNull"
| "aval_json (VStr s) = Some (jstr s)"
| "aval_json (VInt i) = Some (jint i)"
| "aval_json (VBool b) = Some (JBool b)"
| "aval_json (VStrs xs) = Some (JArr (map jstr xs))"
| "aval_json (VRaw b) = json_parse b"
| "aval_json (VBytes b) = Some (jstr (b64_std b))"
| "aval_json (VTyped v _) = aval_json v"

fun args_members :: "args \<Rightarrow> (string \<times> json) list option" where
  "args_members [] = Some []"
| "args_members ((k, v) # r) = (case aval_json v of None \<Rightarrow> None
     | Some j \<Rightarrow> map_option (\<lambda>t. (k, j) # t) (args_members r))"

definition args_json :: "args \<Rightarrow> goerr + bytes" where
  "args_json a = (case args_members a of
       None \<Rightarrow> Inl (EText ''json: error calling MarshalJSON for type json.RawMessage'')
     | Some ms \<Rightarrow> Inr (json_print (json_map ms)))"

section \<open>The direct call\<close>

text \<open>The verb \<open>%q\<close> of the error texts, for the printable ASCII without quote and backslash of which names are made.\<close>

definition quoted :: "string \<Rightarrow> string" where
  "quoted s = CHR 0x22 # s @ [CHR 0x22]"

definition sql_types :: "string list" where
  "sql_types = [''uuid'', ''text'', ''integer'', ''bigint'', ''smallint'', ''numeric'', ''boolean'', ''date'',
     ''timestamp'', ''timestamptz'', ''json'', ''jsonb'']"

fun is_bare :: "aval \<Rightarrow> bool" where
  "is_bare (VBytes _) = True"
| "is_bare _ = False"

text \<open>The loop over the sorted keys: the parts of the argument list and the values.\<close>

fun call_parts :: "string \<Rightarrow> nat \<Rightarrow> args \<Rightarrow> goerr + (string list \<times> aval list)" where
  "call_parts fn i [] = Inr ([], [])"
| "call_parts fn i ((k, v) # r) =
     (if is_bare v then Inl (EText (''pgtx: '' @ fn @ '': '' @ quoted k @ '' is []byte '' @ [CHR 0xE2, CHR 0x80, CHR 0x94] @ '' pass JSON as json.RawMessage''))
      else (let bad = (case v of VTyped _ t \<Rightarrow> t \<notin> set sql_types | _ \<Rightarrow> False);
                cast = (case v of VTyped _ t \<Rightarrow> ''::'' @ t | _ \<Rightarrow> []);
                val = (case v of VTyped x _ \<Rightarrow> x | _ \<Rightarrow> v) in
        if bad then Inl (EText (''pgtx: '' @ fn @ '': '' @ quoted (case v of VTyped _ t \<Rightarrow> t | _ \<Rightarrow> []) @ '' is not a type name''))
        else (case call_parts fn (Suc i) r of
            Inl e \<Rightarrow> Inl e
          | Inr (ps, vs) \<Rightarrow> Inr ((''p'' @ k @ '' => $'' @ show_nat (Suc i) @ cast) # ps, val # vs))))"

definition call_sql :: "string \<Rightarrow> args \<Rightarrow> goerr + (string \<times> aval list)" where
  "call_sql fn a =
     (let name = trim_prefix fn ''api.'' in
      if \<not> is_ident name then Inl (EText (''pgtx: '' @ quoted fn @ '' is not a function of schema api''))
      else (case find (\<lambda>p. \<not> is_ident (fst p)) a of
          Some (k, _) \<Rightarrow> Inl (EText (''pgtx: '' @ fn @ '': '' @ quoted k @ '' is not a parameter name''))
        | None \<Rightarrow>
          (case call_parts fn 0 (sort_key fst a) of
             Inl e \<Rightarrow> Inl e
           | Inr (parts, vals) \<Rightarrow>
             Inr (''SELECT to_json(t) FROM api.'' @ name @ ''('' @ join '', '' parts @ '') t'', vals))))"

section \<open>No text of a client enters the statement\<close>

definition call_head :: string where
  "call_head = ''SELECT to_json(t) FROM api.''"

text \<open>The characters a statement is made of: no quote, no semicolon, no hyphen, no slash.\<close>

definition sql_char :: "char \<Rightarrow> bool" where
  "sql_char c \<longleftrightarrow> is_lower c \<or> is_digit c \<or> c \<in> set ''_ ,.=>$:()''"

abbreviation sql_safe :: "string \<Rightarrow> bool" where
  "sql_safe s \<equiv> list_all sql_char s"

lemma ident_safe: "is_ident s \<Longrightarrow> sql_safe s"
  by (cases s) (auto simp: is_ident_def sql_char_def list_all_iff)

lemma digits_safe: "sql_safe (show_nat n)"
  using show_nat_digits [of n] by (simp add: list_all_iff sql_char_def)

lemma join_safe: "list_all sql_safe ps \<Longrightarrow> sql_safe sep \<Longrightarrow> sql_safe (join sep ps)"
  by (induction sep ps rule: join.induct) auto

lemma types_ident: "t \<in> set sql_types \<Longrightarrow> is_ident t"
  by (auto simp: sql_types_def is_ident_def is_lower_def is_digit_def ord_of_def)

lemma glue_char [simp]: "sql_char CHR ''p''" "sql_char CHR ''t''" "sql_char CHR '' ''" "sql_char CHR ''=''" "sql_char CHR ''>''"
    "sql_char CHR ''$''" "sql_char CHR '':''" "sql_char CHR '',''" "sql_char CHR ''(''" "sql_char CHR '')''"
  by (simp_all add: sql_char_def is_lower_def ord_of_def)

lemma filter_key: "distinct (map fst c) \<Longrightarrow> k \<in> set c \<Longrightarrow> filter (\<lambda>x. fst k = fst x) c = [k]"
proof (induction c)
  case (Cons p c)
  show ?case
  proof (cases "p = k")
    case True
    with Cons.prems(1) have "filter (\<lambda>x. fst k = fst x) c = []" by (force simp: filter_empty_conv)
    with True show ?thesis by simp
  next
    case False
    with Cons.prems have "k \<in> set c" "fst k \<noteq> fst p" by (auto simp: image_iff)
    with Cons show ?thesis by simp
  qed
qed simp

text \<open>What the statement must say: the part of the argument at position \<open>i\<close>, and the value that travels with it.\<close>

fun arg_part :: "nat \<Rightarrow> string \<times> aval \<Rightarrow> string" where
  "arg_part i (k, VTyped _ t) = ''p'' @ k @ '' => $'' @ show_nat (Suc i) @ ''::'' @ t"
| "arg_part i (k, _) = ''p'' @ k @ '' => $'' @ show_nat (Suc i)"

fun arg_value :: "aval \<Rightarrow> aval" where
  "arg_value (VTyped v _) = v"
| "arg_value v = v"

fun arg_allowed :: "aval \<Rightarrow> bool" where
  "arg_allowed (VBytes _) = False"
| "arg_allowed (VTyped _ t) \<longleftrightarrow> t \<in> {''uuid'', ''text'', ''integer'', ''bigint'', ''smallint'', ''numeric'', ''boolean'', ''date'',
     ''timestamp'', ''timestamptz'', ''json'', ''jsonb''}"
| "arg_allowed _ = True"

lemma arg_allowed_code: "arg_allowed v \<longleftrightarrow> \<not> is_bare v \<and> (case v of VTyped _ t \<Rightarrow> t \<in> set sql_types | _ \<Rightarrow> True)"
  by (cases v) (auto simp: sql_types_def)

lemma arg_part_code: "arg_part i (k, v) = ''p'' @ k @ '' => $'' @ show_nat (Suc i) @ (case v of VTyped _ t \<Rightarrow> ''::'' @ t | _ \<Rightarrow> [])"
  by (cases v) simp_all

lemma call_parts_iff:
  "call_parts fn i a = Inr (ps, vs) \<longleftrightarrow> list_all (\<lambda>p. arg_allowed (snd p)) a
     \<and> ps = map (\<lambda>(j, p). arg_part j p) (zip [i..<i + length a] a) \<and> vs = map (\<lambda>p. arg_value (snd p)) a"
proof (induction a arbitrary: i ps vs)
  case (Cons p r)
  obtain k v where p: "p = (k, v)" by force
  have step: "call_parts fn i ((k, v) # r) = Inr (ps, vs) \<longleftrightarrow> arg_allowed v \<and>
      (\<exists>ps' vs'. call_parts fn (Suc i) r = Inr (ps', vs') \<and> ps = arg_part i (k, v) # ps' \<and> vs = arg_value v # vs')"
    unfolding arg_allowed_code arg_part_code by (cases v) (auto simp: Let_def split: sum.splits)
  have up: "[i..<i + length (p # r)] = i # [Suc i..<Suc i + length r]" by (simp add: upt_conv_Cons del: upt_Suc)
  show ?case unfolding p step Cons.IH using up by (auto simp: p simp del: arg_part.simps upt_Suc)
qed auto

lemma arg_part_safe: "is_ident k \<Longrightarrow> arg_allowed v \<Longrightarrow> sql_safe (arg_part i (k, v))"
  unfolding arg_part_code arg_allowed_code
  by (auto simp: ident_safe digits_safe dest!: types_ident ident_safe split: aval.splits)

lemma call_sql_iff:
  "call_sql fn a = Inr (sql, vals) \<longleftrightarrow> is_ident (trim_prefix fn ''api.'') \<and> list_all (\<lambda>(k, v). is_ident k \<and> arg_allowed v) a
     \<and> sql = call_head @ trim_prefix fn ''api.'' @ ''('' @ join '', '' (map (\<lambda>(i, p). arg_part i p) (zip [0..<length a] (sort_key fst a))) @ '') t''
     \<and> vals = map (\<lambda>p. arg_value (snd p)) (sort_key fst a)"
proof -
  have f: "find (\<lambda>p. \<not> is_ident (fst p)) a = None \<longleftrightarrow> list_all (\<lambda>p. is_ident (fst p)) a"
    by (auto simp: find_None_iff list_all_iff)
  have "call_sql fn a = Inr (sql, vals) \<longleftrightarrow> is_ident (trim_prefix fn ''api.'') \<and> list_all (\<lambda>p. is_ident (fst p)) a
     \<and> (\<exists>parts. call_parts fn 0 (sort_key fst a) = Inr (parts, vals) \<and> sql = call_head @ trim_prefix fn ''api.'' @ ''('' @ join '', '' parts @ '') t'')"
    unfolding f [symmetric] call_sql_def Let_def call_head_def by (auto split: option.splits sum.splits)
  then show ?thesis unfolding call_parts_iff by (auto simp: list_all_iff)
qed

lemma call_sql_idents: "call_sql fn a = Inr r \<Longrightarrow> \<forall>p \<in> set a. is_ident (fst p)"
  by (cases r) (auto simp: call_sql_iff list_all_iff)

text \<open>C34: a direct call is built exactly when it names a function of schema api, every key is an identifier, no value is a
  bare \<open>[]byte\<close> and every cast is one of the twelve listed types; its text is then the fixed head, the name and, in
  key order, \<open>p<key> => $<position>\<close> with the cast of a typed value, its values are the arguments' own in the same
  order, and past the head no quote, semicolon or comment occurs.\<close>

theorem call_sql_safe:
  "call_sql fn a = Inr (sql, vals) \<longleftrightarrow> is_ident (trim_prefix fn ''api.'') \<and> list_all (\<lambda>(k, v). is_ident k \<and> arg_allowed v) a
     \<and> (\<exists>rest. sql = call_head @ rest \<and> sql_safe rest
       \<and> rest = trim_prefix fn ''api.'' @ ''('' @ join '', '' (map (\<lambda>(i, p). arg_part i p) (zip [0..<length a] (sort_key fst a))) @ '') t'')
     \<and> vals = map (\<lambda>p. arg_value (snd p)) (sort_key fst a)"
proof -
  let ?ps = "map (\<lambda>(i, p). arg_part i p) (zip [0..<length a] (sort_key fst a))"
  have "sql_safe (trim_prefix fn ''api.'' @ ''('' @ join '', '' ?ps @ '') t'')"
    if i: "is_ident (trim_prefix fn ''api.'')" and al: "list_all (\<lambda>(k, v). is_ident k \<and> arg_allowed v) a"
  proof -
    have "sql_safe (arg_part i p)" if "p \<in> set a" for i p
      using al [unfolded list_all_iff, rule_format, OF that] arg_part_safe [of "fst p" "snd p"] by (simp add: case_prod_beta)
    then have "list_all sql_safe ?ps" by (auto simp: list_all_iff [of sql_safe] dest!: set_zip_rightD simp del: arg_part.simps)
    then show ?thesis using ident_safe [OF i] join_safe [where sep = "'', ''" and ps = ?ps] by simp
  qed
  then show ?thesis unfolding call_sql_iff by blast
qed

theorem call_sql_safe_witness:
  "call_sql ''api.list_user'' [(''search'', VStr [CHR 0x27]), (''id'', VTyped (VInt 1) ''bigint'')]
     = Inr (''SELECT to_json(t) FROM api.list_user(pid => $1::bigint, psearch => $2) t'', [VInt 1, VStr [CHR 0x27]])
   \<and> is_ident (trim_prefix ''api.list_user'' ''api.'')"
proof -
  have c: "call_sql ''api.list_user'' [(''search'', VStr [CHR 0x27]), (''id'', VTyped (VInt 1) ''bigint'')]
     = Inr (''SELECT to_json(t) FROM api.list_user(pid => $1::bigint, psearch => $2) t'', [VInt 1, VStr [CHR 0x27]])"
    by code_simp
  with c [unfolded call_sql_safe] show ?thesis by blast
qed

lemma sort_key_unique:
  assumes "mset a = mset b" "distinct (map fst a)"
  shows "sort_key fst b = sort_key fst a"
proof (rule properties_for_sort_key)
  show "filter (\<lambda>x. fst k = fst x) (sort_key fst a) = filter (\<lambda>x. fst k = fst x) b" if "k \<in> set (sort_key fst a)" for k
  proof -
    have "distinct (map fst b)" using assms by (metis mset_map mset_eq_imp_distinct_iff)
    then have "filter (\<lambda>x. fst k = fst x) b = [k]" "filter (\<lambda>x. fst k = fst x) a = [k]"
      using that assms(2) mset_eq_setD [OF assms(1)] filter_key [of b k] filter_key [of a k] by simp_all
    then show ?thesis by (simp add: filter_sort)
  qed
qed (simp_all add: assms(1))

text \<open>The text of a call and the order of its values do not depend on the order in which the range loop visits the
  argument map: one call is one prepared statement.\<close>

lemma call_sql_order:
  assumes "mset a = mset b" "distinct (map fst a)" "call_sql fn a = Inr r"
  shows "call_sql fn b = Inr r"
proof -
  have srt: "sort_key fst b = sort_key fst a" by (rule sort_key_unique [OF assms(1,2)])
  have "\<forall>p \<in> set a. is_ident (fst p)" using call_sql_idents [OF assms(3)] .
  then have fnd: "find (\<lambda>p. \<not> is_ident (fst p)) a = None" "find (\<lambda>p. \<not> is_ident (fst p)) b = None"
    unfolding find_None_iff using mset_eq_setD [OF assms(1)] by blast+
  show ?thesis using assms(3) unfolding call_sql_def srt fnd .
qed

end
