(* ===== verification/Driver.thy ===== *)
theory Driver
  imports Args
begin

text \<open>
  The database as the request road sees it. PostgreSQL and the driver pgx are not part of the sources:
  they are the parameter \<open>env\<close>, an arbitrary function that answers each statement, given everything
  that was sent before it, the transaction and the context it is sent under. The state records the
  statements with their answers, so a claim about what the program asks of the database is a claim
  about this trace. \<open>durable\<close> is the meaning of the trace as transactions: what a transaction keeps
  is what it sent and did not roll back, once its COMMIT is acknowledged. The second half is
  \<open>lib/pgtx/call.go\<close>: \<open>Call\<close>, \<open>CallRow\<close> and \<open>CallScalar\<close> on both roads.
\<close>

section \<open>Statements and answers\<close>

text \<open>The context of a statement: the request's own, the one bounded for the start of the transaction,
  \<open>journalCtx\<close>, the lookup context of the catalogue (both detached from the client's hang-up), and
  the detached one of the deferred rollback.\<close>

datatype dctx = ReqCtx | BeginCtx | JournalCtx | LookupCtx | DetachedCtx

text \<open>\<open>proc\<close>: one function of the request road as \<open>pg_proc\<close> lists it.\<close>

record proc =
  proc_schema :: string
  proc_name :: string
  proc_nargs :: int
  proc_exec :: bool

datatype stmt =
    SBegin
  | SCommit
  | SRollback
  | SSavepoint
  | SRollbackTo
  | SAuthorize string "string" "string option" "string option"
  | SLogRequest bool string string "bytes option" nat "string option" "string option"
  | SDaemonBegin string "string option" "string option" string string "bytes option" "string option"
  | SDaemonEnd nat "string option"
  | SDaemonCall string bytes
  | SApi string "aval list"
  | SParseMessage string
  | SGetError string
  | SDaemonError string
  | SDaemonRoutes string
  | SPgProc "string list"
  | STitles bool "string list"

datatype answer =
    AErr goerr
  | AOk
  | AAuth bool "string option"
  | ALog int
  | ABegun bool "int option" "string option" "string option"
  | AEnd "int option"
  | ARows "bytes option list" "goerr option"
  | AMsg "string option"
  | AParsed int string string
  | ARoutes "(string \<times> string) list" "goerr option"
  | AProcs "proc list" "goerr option"
  | ATitles "(string \<times> string option) list" "goerr option"

datatype event = Ev (etx: nat) (ectx: dctx) (estmt: stmt) (eans: answer)

type_synonym env = "event list \<Rightarrow> nat \<Rightarrow> dctx \<Rightarrow> stmt \<Rightarrow> answer"

text \<open>An error of \<open>Exec\<close>, and of \<open>Scan\<close> on an answer of another shape.\<close>

definition scan_error :: goerr where
  "scan_error = EText ''can't scan into dest''"

definition exec_err :: "answer \<Rightarrow> goerr option" where
  "exec_err a = (case a of AErr e \<Rightarrow> Some e | _ \<Rightarrow> None)"

definition scan_auth :: "answer \<Rightarrow> goerr + bool \<times> string option" where
  "scan_auth a = (case a of AErr e \<Rightarrow> Inl e | AAuth b m \<Rightarrow> Inr (b, m) | _ \<Rightarrow> Inl scan_error)"

definition scan_log :: "answer \<Rightarrow> goerr + int" where
  "scan_log a = (case a of AErr e \<Rightarrow> Inl e | ALog i \<Rightarrow> Inr i | _ \<Rightarrow> Inl scan_error)"

definition scan_begun :: "answer \<Rightarrow> goerr + bool \<times> int option \<times> string option \<times> string option" where
  "scan_begun a = (case a of AErr e \<Rightarrow> Inl e | ABegun b st c m \<Rightarrow> Inr (b, st, c, m) | _ \<Rightarrow> Inl scan_error)"

definition scan_end :: "answer \<Rightarrow> goerr + int option" where
  "scan_end a = (case a of AErr e \<Rightarrow> Inl e | AEnd i \<Rightarrow> Inr i | _ \<Rightarrow> Inl scan_error)"

definition scan_msg :: "answer \<Rightarrow> goerr + string option" where
  "scan_msg a = (case a of AErr e \<Rightarrow> Inl e | AMsg m \<Rightarrow> Inr m | _ \<Rightarrow> Inl scan_error)"

text \<open>The rows of a query: an error of \<open>Query\<close>, of a \<open>Scan\<close> or of \<open>rows.Err\<close> is the error of the
  call; every caller looks at it before the rows.\<close>

definition scan_rows :: "answer \<Rightarrow> goerr + bytes option list" where
  "scan_rows a = (case a of AErr e \<Rightarrow> Inl e | ARows rs None \<Rightarrow> Inr rs | ARows _ (Some e) \<Rightarrow> Inl e | _ \<Rightarrow> Inl scan_error)"

section \<open>The state\<close>

text \<open>\<open>pgtx.Request\<close>: what the journal is told of the HTTP request.\<close>

record preq =
  qmethod :: string
  qpath :: string
  qpayload :: bytes
  qrequest_id :: string
  qstatus :: nat
  qlog_id :: int

text \<open>The trace, the number of the next transaction, the runner's \<open>looked\<close> map and the request \<open>Do\<close> was
  given (the pointer the handler shares with it; \<open>None\<close> is nil).\<close>

record pst =
  strace :: "event list"
  snext :: nat
  slooked :: "(string \<times> string) list"
  sreq :: "preq option"

definition send :: "env \<Rightarrow> nat \<Rightarrow> dctx \<Rightarrow> stmt \<Rightarrow> pst \<Rightarrow> answer \<times> pst" where
  "send env t c q s = (let a = env (strace s) t c q in (a, s\<lparr>strace := strace s @ [Ev t c q a]\<rparr>))"

text \<open>\<open>Pool.Begin\<close>: a new transaction handle, or the error. Number 0 is a query on the pool itself.\<close>

definition pool_begin :: "env \<Rightarrow> dctx \<Rightarrow> pst \<Rightarrow> (goerr + nat) \<times> pst" where
  "pool_begin env c s = (let t = Suc (snext s); (a, s1) = send env t c SBegin s; s2 = s1\<lparr>snext := t\<rparr>
     in (case exec_err a of Some e \<Rightarrow> Inl e | None \<Rightarrow> Inr t, s2))"

section \<open>What a trace makes durable\<close>

type_synonym work = "(stmt \<times> answer) list"

datatype txst = TNone | TOpen work "work option" | TDone work

definition sofar :: "work \<Rightarrow> work option \<Rightarrow> work" where
  "sofar b sp = b @ (case sp of None \<Rightarrow> [] | Some w \<Rightarrow> w)"

text \<open>One event: a statement of an open transaction is its work whatever the answer (an error may
  have reached the database), a savepoint cuts the work, ROLLBACK TO drops what came after it, an
  acknowledged COMMIT keeps the rest, anything else that ends the transaction keeps nothing.\<close>

fun tx_step :: "nat \<Rightarrow> txst \<Rightarrow> event \<Rightarrow> txst" where
  "tx_step t st (Ev u c q a) =
     (if u \<noteq> t then st
      else (case st of
          TNone \<Rightarrow> if q = SBegin \<and> exec_err a = None then TOpen [] None else TNone
        | TDone w \<Rightarrow> TDone w
        | TOpen b sp \<Rightarrow>
          (case q of
             SBegin \<Rightarrow> st
           | SCommit \<Rightarrow> TDone (if exec_err a = None then sofar b sp else [])
           | SRollback \<Rightarrow> TDone []
           | SSavepoint \<Rightarrow> if exec_err a = None then TOpen (sofar b sp) (Some []) else st
           | SRollbackTo \<Rightarrow> if exec_err a = None \<and> sp \<noteq> None then TOpen b (Some []) else st
           | _ \<Rightarrow> (case sp of None \<Rightarrow> TOpen (b @ [(q, a)]) None | Some w \<Rightarrow> TOpen b (Some (w @ [(q, a)]))))))"

definition tx_run :: "nat \<Rightarrow> event list \<Rightarrow> txst" where
  "tx_run t tr = foldl (tx_step t) TNone tr"

definition durable :: "nat \<Rightarrow> event list \<Rightarrow> work" where
  "durable t tr = (case tx_run t tr of TDone w \<Rightarrow> w | _ \<Rightarrow> [])"

text \<open>The statements a handler may send: calls of functions of schema api.\<close>

definition is_call :: "stmt \<Rightarrow> bool" where
  "is_call q = (case q of SDaemonCall _ _ \<Rightarrow> True | SApi _ _ \<Rightarrow> True | _ \<Rightarrow> False)"

text \<open>\<open>tx.Commit\<close> and \<open>tx.Rollback\<close>; a rollback of a transaction that was ended sends nothing
  (\<open>pgx.ErrTxClosed\<close>).\<close>

definition commit_tx :: "env \<Rightarrow> nat \<Rightarrow> dctx \<Rightarrow> pst \<Rightarrow> goerr option \<times> pst" where
  "commit_tx env t c s = (let (a, s1) = send env t c SCommit s in (exec_err a, s1))"

definition tx_closed :: "nat \<Rightarrow> event list \<Rightarrow> bool" where
  "tx_closed t tr = (case tx_run t tr of TDone _ \<Rightarrow> True | _ \<Rightarrow> False)"

definition rollback_tx :: "env \<Rightarrow> nat \<Rightarrow> dctx \<Rightarrow> pst \<Rightarrow> pst" where
  "rollback_tx env t c s = (if tx_closed t (strace s) then s else snd (send env t c SRollback s))"

section \<open>Calls\<close>

text \<open>What a handler is given: its transaction and whether it is on the daemon road (\<open>onDaemonRoad\<close>:
  the transaction is a \<open>daemonTx\<close>, or the context carries \<open>roadKey\<close>).\<close>

record hctx =
  htx :: nat
  hdaemon_tx :: bool
  hroad_key :: bool

definition on_daemon_road :: "hctx \<Rightarrow> bool" where
  "on_daemon_road h = (if hdaemon_tx h then True else hroad_key h)"

definition call_daemon :: "env \<Rightarrow> hctx \<Rightarrow> string \<Rightarrow> args \<Rightarrow> pst \<Rightarrow> (goerr + bytes option list) \<times> pst" where
  "call_daemon env h fn a s =
     (let name = trim_prefix fn ''api.'' in
      if \<not> is_ident name then (Inl (EText (''pgtx: '' @ quoted fn @ '' is not a function of schema api'')), s)
      else (case find (\<lambda>p. \<not> is_ident (fst p) \<or> is_bare (snd p)) a of
          Some (k, v) \<Rightarrow>
            (Inl (EText (''pgtx: '' @ fn @ '': '' @ quoted k @
                (if \<not> is_ident k then '' is not a parameter name'' else '' is []byte '' @ [CHR 0xE2, CHR 0x80, CHR 0x94] @ '' pass JSON as json.RawMessage''))), s)
        | None \<Rightarrow>
          (case args_json a of
             Inl e \<Rightarrow> (Inl (EWrap (''pgtx: '' @ fn) e), s)
           | Inr body \<Rightarrow> (let (r, s1) = send env (htx h) ReqCtx (SDaemonCall name body) s in (scan_rows r, s1)))))"

definition call :: "env \<Rightarrow> hctx \<Rightarrow> string \<Rightarrow> args \<Rightarrow> pst \<Rightarrow> (goerr + bytes option list) \<times> pst" where
  "call env h fn a s =
     (if on_daemon_road h then call_daemon env h fn a s
      else (case call_sql fn a of
          Inl e \<Rightarrow> (Inl e, s)
        | Inr (sql, vals) \<Rightarrow> (let (r, s1) = send env (htx h) ReqCtx (SApi sql vals) s in (scan_rows r, s1))))"

definition call_row :: "env \<Rightarrow> hctx \<Rightarrow> string \<Rightarrow> args \<Rightarrow> pst \<Rightarrow> (goerr + bytes option) \<times> pst" where
  "call_row env h fn a s = (let (r, s1) = call env h fn a s in
     (case r of Inl e \<Rightarrow> Inl e | Inr rows \<Rightarrow> (case rows of [] \<Rightarrow> Inl ENoRow | x # _ \<Rightarrow> Inr x), s1))"

text \<open>\<open>CallScalar\<close>: the decoded value, \<open>None\<close> where a NULL leaves the destination untouched; \<open>dec\<close> is the
  decoding into the destination's type.\<close>

definition call_scalar :: "env \<Rightarrow> hctx \<Rightarrow> string \<Rightarrow> args \<Rightarrow> (json \<Rightarrow> 'v option) \<Rightarrow> pst \<Rightarrow> (goerr + 'v option) \<times> pst" where
  "call_scalar env h fn a dec s = (let (r, s1) = call_row env h fn a s in
     (case r of Inl e \<Rightarrow> Inl e | Inr None \<Rightarrow> Inr None
      | Inr (Some b) \<Rightarrow> (case json_parse b of None \<Rightarrow> Inl (EText ''invalid JSON'')
          | Some j \<Rightarrow> (case dec j of None \<Rightarrow> Inl (EText ''json: cannot unmarshal'') | Some v \<Rightarrow> Inr (Some v))), s1))"

section \<open>The contract of a handler\<close>

text \<open>A handler only adds calls to the trace, on its own transaction and under the request's context, and changes
  nothing of the request but its status.\<close>

definition same_request :: "preq option \<Rightarrow> preq option \<Rightarrow> bool" where
  "same_request a b = (case a of None \<Rightarrow> b = None
     | Some q \<Rightarrow> (case b of None \<Rightarrow> False | Some q' \<Rightarrow> q' = q\<lparr>qstatus := qstatus q'\<rparr>))"

definition call_event :: "hctx \<Rightarrow> event \<Rightarrow> bool" where
  "call_event h e \<longleftrightarrow> etx e = htx h \<and> ectx e = ReqCtx \<and> is_call (estmt e)"

definition calls_only :: "hctx \<Rightarrow> pst \<Rightarrow> pst \<Rightarrow> bool" where
  "calls_only h s s' \<longleftrightarrow> prefix (strace s) (strace s') \<and> list_all (call_event h) (drop (length (strace s)) (strace s'))
     \<and> snext s' = snext s \<and> slooked s' = slooked s \<and> same_request (sreq s) (sreq s')"

text \<open>A step of a handler is a computation on the state that may fail; \<open>hbind\<close> is the sequence that stops at
  the first error (\<open>if err != nil { return err }\<close>), \<open>htry\<close> the one that looks at it.\<close>

type_synonym 'a step = "pst \<Rightarrow> (goerr + 'a) \<times> pst"

type_synonym 'a handler = "hctx \<Rightarrow> 'a step"

definition hret :: "'a \<Rightarrow> 'a step" where
  "hret v s = (Inr v, s)"

definition hfail :: "goerr \<Rightarrow> 'a step" where
  "hfail e s = (Inl e, s)"

definition hbind :: "'a step \<Rightarrow> ('a \<Rightarrow> 'b step) \<Rightarrow> 'b step" where
  "hbind m k s = (case m s of (Inl e, s1) \<Rightarrow> (Inl e, s1) | (Inr v, s1) \<Rightarrow> k v s1)"

definition htry :: "'a step \<Rightarrow> (goerr + 'a \<Rightarrow> 'b step) \<Rightarrow> 'b step" where
  "htry m k s = (case m s of (r, s1) \<Rightarrow> k r s1)"

definition set_status :: "nat \<Rightarrow> unit step" where
  "set_status n s = (Inr (), s\<lparr>sreq := map_option (\<lambda>q. q\<lparr>qstatus := n\<rparr>) (sreq s)\<rparr>)"

definition step_ok :: "hctx \<Rightarrow> 'a step \<Rightarrow> bool" where
  "step_ok h m \<longleftrightarrow> (\<forall>s. calls_only h s (snd (m s)))"

definition handler_ok :: "'a handler \<Rightarrow> bool" where
  "handler_ok fn \<longleftrightarrow> (\<forall>h. step_ok h (fn h))"

lemma same_request_refl [simp]: "same_request a a"
  by (cases a) (simp_all add: same_request_def)

lemma same_request_trans: "same_request a b \<Longrightarrow> same_request b c \<Longrightarrow> same_request a c"
proof (cases a; cases b; cases c)
  fix x y z assume "same_request a b" "same_request b c" "a = Some x" "b = Some y" "c = Some z"
  then have "y = x\<lparr>qstatus := qstatus y\<rparr>" "z = y\<lparr>qstatus := qstatus z\<rparr>" by (simp_all add: same_request_def)
  then have "z = x\<lparr>qstatus := qstatus z\<rparr>" by (metis preq.surjective preq.update_convs(5))
  then show ?thesis by (simp add: same_request_def \<open>a = Some x\<close> \<open>c = Some z\<close>)
qed (auto simp: same_request_def)

lemma calls_only_events:
  "calls_only h s s' \<longleftrightarrow> (\<exists>es. strace s' = strace s @ es \<and> list_all (call_event h) es)
     \<and> snext s' = snext s \<and> slooked s' = slooked s \<and> same_request (sreq s) (sreq s')"
  by (auto simp: calls_only_def prefix_def)

lemma calls_only_refl [simp]: "calls_only h s s"
  by (simp add: calls_only_def)

lemma calls_only_trans: "calls_only h s s1 \<Longrightarrow> calls_only h s1 s2 \<Longrightarrow> calls_only h s s2"
  unfolding calls_only_events using same_request_trans by fastforce

lemma step_ok_ret [go_intros]: "step_ok h (hret v)"
  by (simp add: step_ok_def hret_def)

lemma step_ok_fail [go_intros]: "step_ok h (hfail e)"
  by (simp add: step_ok_def hfail_def)

lemma step_ok_try [go_intros]: "step_ok h m \<Longrightarrow> (\<And>v. step_ok h (k v)) \<Longrightarrow> step_ok h (htry m k)"
  unfolding step_ok_def htry_def by (auto split: prod.splits) (metis calls_only_trans snd_conv)

lemma hbind_try: "hbind m k = htry m (\<lambda>r. case r of Inl e \<Rightarrow> hfail e | Inr v \<Rightarrow> k v)"
  by (rule ext) (simp add: hbind_def htry_def hfail_def split: prod.splits sum.splits)

lemma step_ok_bind [go_intros]: "step_ok h m \<Longrightarrow> (\<And>v. step_ok h (k v)) \<Longrightarrow> step_ok h (hbind m k)"
  unfolding hbind_try by (rule step_ok_try) (auto intro: step_ok_fail split: sum.splits)

lemma step_ok_status [go_intros]: "step_ok h (set_status n)"
  by (auto simp: step_ok_def set_status_def calls_only_def same_request_def split: option.splits)

lemma step_ok_send: "is_call q \<Longrightarrow> step_ok h (\<lambda>s. case send env (htx h) ReqCtx q s of (r, s1) \<Rightarrow> (f r, s1))"
  by (simp add: step_ok_def calls_only_def call_event_def send_def Let_def)

lemma call_daemon_ok: "step_ok h (call_daemon env h fn a)"
  using step_ok_send [where q = "SDaemonCall _ _" and h = h and env = env and f = scan_rows]
  by (auto simp: step_ok_def call_daemon_def Let_def is_call_def split: option.splits sum.splits)

lemma call_ok [go_intros]: "step_ok h (call env h fn a)"
  using step_ok_send [where q = "SApi _ _" and h = h and env = env and f = scan_rows] call_daemon_ok [of h env fn a]
  by (auto simp: step_ok_def call_def Let_def is_call_def split: option.splits sum.splits)

lemma call_row_ok [go_intros]: "step_ok h (call_row env h fn a)"
  using call_ok [of h env fn a] unfolding step_ok_def call_row_def Let_def
  by (metis (no_types, lifting) prod.case_eq_if snd_conv)

lemma call_scalar_ok [go_intros]: "step_ok h (call_scalar env h fn a dec)"
  using call_row_ok [of h env fn a] unfolding step_ok_def call_scalar_def Let_def
  by (metis (no_types, lifting) prod.case_eq_if snd_conv)

section \<open>Lemmas on traces\<close>

lemma send_simps [simp]: "snext (snd (send env t c q s)) = snext s" "slooked (snd (send env t c q s)) = slooked s"
    "sreq (snd (send env t c q s)) = sreq s"
    "strace (snd (send env t c q s)) = strace s @ [Ev t c q (fst (send env t c q s))]"
  by (simp_all add: send_def Let_def)

lemma tx_run_append [simp]: "tx_run t (tr @ es) = foldl (tx_step t) (tx_run t tr) es"
  by (simp add: tx_run_def)

lemma tx_step_done [simp]: "tx_step t (TDone w) e = TDone w"
  by (cases e) simp

lemma tx_step_other [simp]: "etx e \<noteq> t \<Longrightarrow> tx_step t st e = st"
  by (cases e) simp

text \<open>A statement that does not control the transaction.\<close>

definition is_work :: "stmt \<Rightarrow> bool" where
  "is_work q \<longleftrightarrow> q \<notin> {SBegin, SCommit, SRollback, SSavepoint, SRollbackTo}"

lemma tx_step_work [simp]: "is_work q \<Longrightarrow> tx_step t (TOpen b sp) (Ev t c q a)
    = (case sp of None \<Rightarrow> TOpen (b @ [(q, a)]) None | Some w \<Rightarrow> TOpen b (Some (w @ [(q, a)])))"
  by (cases sp; cases q; simp add: is_work_def)

lemma tx_step_simps [simp]:
  "tx_step t (TOpen b sp) (Ev t c SCommit a) = TDone (if exec_err a = None then sofar b sp else [])"
  "tx_step t (TOpen b sp) (Ev t c SRollback a) = TDone []"
  "exec_err a = None \<Longrightarrow> tx_step t (TOpen b sp) (Ev t c SSavepoint a) = TOpen (sofar b sp) (Some [])"
  "exec_err a \<noteq> None \<Longrightarrow> tx_step t (TOpen b sp) (Ev t c SSavepoint a) = TOpen b sp"
  "exec_err a = None \<Longrightarrow> tx_step t (TOpen b (Some w)) (Ev t c SRollbackTo a) = TOpen b (Some [])"
  "exec_err a \<noteq> None \<Longrightarrow> tx_step t (TOpen b sp) (Ev t c SRollbackTo a) = TOpen b sp"
  "exec_err a = None \<Longrightarrow> tx_step t TNone (Ev t c SBegin a) = TOpen [] None"
  "exec_err a \<noteq> None \<Longrightarrow> tx_step t TNone (Ev t c SBegin a) = TNone"
  "tx_step t TNone (Ev t c SRollback a) = TNone"
  by auto

declare tx_step.simps [simp del]

lemma is_work_call [simp]: "is_call q \<Longrightarrow> is_work q"
  by (auto simp: is_work_def is_call_def)

lemma tx_fold_other: "\<forall>e \<in> set es. etx e \<noteq> t \<Longrightarrow> foldl (tx_step t) st es = st"
  by (induction es) simp_all

lemma tx_run_other: "\<forall>e \<in> set es. etx e \<noteq> t \<Longrightarrow> tx_run t (tr @ es) = tx_run t tr"
  by (simp add: tx_fold_other)

definition pairs :: "event list \<Rightarrow> work" where
  "pairs es = map (\<lambda>e. (estmt e, eans e)) es"

lemma tx_fold_calls:
  assumes "\<forall>e \<in> set es. etx e = t \<and> is_call (estmt e)"
  shows "foldl (tx_step t) (TOpen b None) es = TOpen (b @ pairs es) None"
    "foldl (tx_step t) (TOpen b (Some w)) es = TOpen b (Some (w @ pairs es))"
proof -
  have st: "tx_step t (TOpen b None) e = TOpen (b @ pairs [e]) None"
      "tx_step t (TOpen b (Some w)) e = TOpen b (Some (w @ pairs [e]))"
    if "etx e = t" "is_call (estmt e)" for b w e
    using that by (cases e; simp add: pairs_def)+
  from assms show "foldl (tx_step t) (TOpen b None) es = TOpen (b @ pairs es) None"
    by (induction es arbitrary: b) (simp_all add: st pairs_def)
  from assms show "foldl (tx_step t) (TOpen b (Some w)) es = TOpen b (Some (w @ pairs es))"
    by (induction es arbitrary: w) (simp_all add: st pairs_def)
qed

end
