(* ===== verification/Netip.thy ===== *)
theory Netip
  imports Prelude
begin

text \<open>
  The part of the Go packages \<open>net\<close> and \<open>net/netip\<close> that the host and the request road use: reading
  and printing an address (\<open>ParseAddr\<close>, \<open>ParseAddrPort\<close>, \<open>ParsePrefix\<close>, \<open>Addr.String\<close>, \<open>Unmap\<close>,
  \<open>WithZone\<close>, \<open>Prefix.Contains\<close>, \<open>Prefix.Masked\<close>, \<open>net.ParseIP\<close>). An IPv4 address is its four bytes, an
  IPv6 address its eight 16-bit groups with the zone.
\<close>

datatype addr = V4 "nat list" | V6 "nat list" string

section \<open>Reading\<close>

definition dec_byte :: "string \<Rightarrow> nat option" where
  "dec_byte s = (if s \<noteq> [] \<and> list_all is_digit s \<and> (length s = 1 \<or> hd s \<noteq> CHR ''0'')
     then (case read_nat s of None \<Rightarrow> None | Some n \<Rightarrow> if int n \<le> 255 then Some n else None) else None)"

fun all_some :: "'a option list \<Rightarrow> 'a list option" where
  "all_some [] = Some []"
| "all_some (None # _) = None"
| "all_some (Some x # xs) = (case all_some xs of None \<Rightarrow> None | Some ys \<Rightarrow> Some (x # ys))"

definition parse_v4 :: "string \<Rightarrow> nat list option" where
  "parse_v4 s = (let parts = split_on CHR ''.'' s in
     if length parts = 4 then all_some (map dec_byte parts) else None)"

definition hex_num :: "string \<Rightarrow> nat" where
  "hex_num s = foldl (\<lambda>a c. 16 * a + hex_val c) 0 s"

text \<open>The loop of \<open>parseIPv6\<close>: \<open>gs\<close> are the groups read so far, \<open>ell\<close> the position of \<open>::\<close>.\<close>

function v6_loop :: "string \<Rightarrow> nat list \<Rightarrow> nat option \<Rightarrow> (nat list \<times> nat option) option" where
  "v6_loop s gs ell =
     (if 8 \<le> length gs then (if s = [] then Some (gs, ell) else None)
      else (let d = takeWhile is_hex s; r = dropWhile is_hex s in
        if d = [] \<or> 4 < length d then None
        else if r \<noteq> [] \<and> hd r = CHR ''.'' then
          (if ell = None \<and> length gs \<noteq> 6 \<or> 6 < length gs then None
           else (case parse_v4 s of None \<Rightarrow> None
                 | Some b \<Rightarrow> Some (gs @ [256 * b ! 0 + b ! 1, 256 * b ! 2 + b ! 3], ell)))
        else (let gs' = gs @ [hex_num d] in
          case r of [] \<Rightarrow> Some (gs', ell)
          | c # r1 \<Rightarrow>
            (if c \<noteq> CHR '':'' then None
             else (case r1 of [] \<Rightarrow> None
               | c2 # r2 \<Rightarrow>
                 (if c2 = CHR '':'' then
                    (if ell \<noteq> None then None
                     else if r2 = [] then Some (gs', Some (length gs'))
                     else v6_loop r2 gs' (Some (length gs')))
                  else v6_loop r1 gs' ell))))))"
  by pat_completeness auto
termination
  by (relation "measure (\<lambda>(_, gs, _). 8 - length gs)") auto

declare v6_loop.simps [simp del]

definition parse_v6 :: "string \<Rightarrow> addr option" where
  "parse_v6 s0 =
     (let s = cut_before CHR ''%'' s0; has = CHR ''%'' \<in> set s0; zone = drop (Suc (length s)) s0 in
      if has \<and> zone = [] then None
      else (let lead = take 2 s = ''::''; s1 = (if lead then drop 2 s else s) in
        if lead \<and> s1 = [] then Some (V6 (replicate 8 0) zone)
        else (case v6_loop s1 [] (if lead then Some 0 else None) of None \<Rightarrow> None
          | Some (gs, ell) \<Rightarrow>
            (if length gs < 8 then
               (case ell of None \<Rightarrow> None
                | Some k \<Rightarrow> Some (V6 (take k gs @ replicate (8 - length gs) 0 @ drop k gs) zone))
             else if ell \<noteq> None then None else Some (V6 gs zone)))))"

definition parse_addr :: "string \<Rightarrow> addr option" where
  "parse_addr s =
     (case find (\<lambda>c. c = CHR ''.'' \<or> c = CHR '':'' \<or> c = CHR ''%'') s of
        None \<Rightarrow> None
      | Some c \<Rightarrow> if c = CHR ''.'' then (case parse_v4 s of None \<Rightarrow> None | Some b \<Rightarrow> Some (V4 b))
                  else if c = CHR '':'' then parse_v6 s else None)"

text \<open>The text after the last separator and the text before it.\<close>

definition cut_last :: "char \<Rightarrow> string \<Rightarrow> (string \<times> string) option" where
  "cut_last c s = (if c \<in> set s then
     (let t = takeWhile (\<lambda>x. x \<noteq> c) (rev s) in Some (take (length s - Suc (length t)) s, rev t)) else None)"

definition is_v4 :: "addr \<Rightarrow> bool" where
  "is_v4 a = (case a of V4 _ \<Rightarrow> True | V6 _ _ \<Rightarrow> False)"

definition parse_addr_port :: "string \<Rightarrow> addr option" where
  "parse_addr_port s =
     (case cut_last CHR '':'' s of None \<Rightarrow> None
      | Some (ip, port) \<Rightarrow>
        (if ip = [] \<or> port = [] then None
         else (let br = (hd ip = CHR ''[''); bad = (br \<and> (length ip < 2 \<or> last ip \<noteq> CHR '']''));
                   ip' = (if br then butlast (tl ip) else ip) in
           if bad then None
           else (case read_nat port of None \<Rightarrow> None
             | Some n \<Rightarrow> if 65535 < int n then None
               else (case parse_addr ip' of None \<Rightarrow> None
                 | Some a \<Rightarrow> if br = is_v4 a then None else Some a)))))"

section \<open>Mapped addresses, prefixes\<close>

definition is_4in6 :: "addr \<Rightarrow> bool" where
  "is_4in6 a = (case a of V4 _ \<Rightarrow> False | V6 gs _ \<Rightarrow> take 6 gs = [0, 0, 0, 0, 0, 65535])"

definition unmap :: "addr \<Rightarrow> addr" where
  "unmap a = (case a of V4 _ \<Rightarrow> a
     | V6 gs _ \<Rightarrow> if is_4in6 a then V4 [gs ! 6 div 256, gs ! 6 mod 256, gs ! 7 div 256, gs ! 7 mod 256] else a)"

definition no_zone :: "addr \<Rightarrow> addr" where
  "no_zone a = (case a of V4 _ \<Rightarrow> a | V6 gs _ \<Rightarrow> V6 gs [])"

definition bit_len :: "addr \<Rightarrow> nat" where
  "bit_len a = (case a of V4 _ \<Rightarrow> 32 | V6 _ _ \<Rightarrow> 128)"

text \<open>A valid prefix: an address without zone and its number of bits; an invalid one is \<open>None\<close> and
  contains nothing.\<close>

type_synonym prefix = "(addr \<times> nat) option"

definition prefix_from :: "addr \<Rightarrow> int \<Rightarrow> prefix" where
  "prefix_from a bits = (if bits < 0 \<or> int (bit_len a) < bits then None else Some (no_zone a, nat bits))"

definition parse_prefix :: "string \<Rightarrow> (addr \<times> nat) option" where
  "parse_prefix s =
     (case cut_last CHR ''/'' s of None \<Rightarrow> None
      | Some (ip, bits) \<Rightarrow>
        (case parse_addr ip of None \<Rightarrow> None
         | Some a \<Rightarrow>
           (if no_zone a \<noteq> a then None
            else if 1 < length bits \<and> (\<not> is_digit (hd bits) \<or> hd bits = CHR ''0'') then None
            else (case parse_int bits of None \<Rightarrow> None
              | Some n \<Rightarrow> if n < 0 \<or> int (bit_len a) < n then None else Some (a, nat n)))))"

text \<open>The leading \<open>n\<close> bits of an address, group by group of \<open>w\<close> bits: \<open>Prefix.Masked\<close> clears the rest,
  \<open>Prefix.Contains\<close> compares what is left.\<close>

definition mask_groups :: "nat \<Rightarrow> nat list \<Rightarrow> nat \<Rightarrow> nat list" where
  "mask_groups w gs n = map (\<lambda>(i, g). let k = (if n \<le> w * i then w else if w * Suc i \<le> n then 0 else w * Suc i - n)
     in g div 2 ^ k * 2 ^ k) (enumerate 0 gs)"

definition prefix_contains :: "prefix \<Rightarrow> addr \<Rightarrow> bool" where
  "prefix_contains p a = (case p of None \<Rightarrow> False
     | Some (V4 b, n) \<Rightarrow> (case a of V4 c \<Rightarrow> mask_groups 8 c n = mask_groups 8 b n | V6 _ _ \<Rightarrow> False)
     | Some (V6 b _, n) \<Rightarrow> (case a of V4 _ \<Rightarrow> False | V6 c z \<Rightarrow> z = [] \<and> mask_groups 16 c n = mask_groups 16 b n))"

definition masked :: "prefix \<Rightarrow> prefix" where
  "masked p = (case p of None \<Rightarrow> None
     | Some (V4 b, n) \<Rightarrow> Some (V4 (mask_groups 8 b n), n)
     | Some (V6 gs z, n) \<Rightarrow> Some (V6 (mask_groups 16 gs n) z, n))"

section \<open>Printing\<close>

fun show_hex :: "nat \<Rightarrow> string" where
  "show_hex n = (if n < 16 then [hex_char n] else show_hex (n div 16) @ [hex_char (n mod 16)])"

declare show_hex.simps [simp del]

definition show_v4 :: "nat list \<Rightarrow> string" where
  "show_v4 b = join ''.'' (map show_nat b)"

text \<open>The first longest run of at least two zero groups is written \<open>::\<close>.\<close>

definition zrun :: "nat list \<Rightarrow> nat \<Rightarrow> nat" where
  "zrun gs i = length (takeWhile (\<lambda>g. g = 0) (drop i gs))"

definition best_run :: "nat list \<Rightarrow> (nat \<times> nat) option" where
  "best_run gs = foldl (\<lambda>b i. let l = zrun gs i in
     if 2 \<le> l \<and> (case b of None \<Rightarrow> True | Some (_, l') \<Rightarrow> l' < l) then Some (i, l) else b) None [0..<8]"

definition show_v6 :: "nat list \<Rightarrow> string" where
  "show_v6 gs = (case best_run gs of
       None \<Rightarrow> join '':'' (map show_hex gs)
     | Some (i, l) \<Rightarrow> join '':'' (map show_hex (take i gs)) @ ''::'' @ join '':'' (map show_hex (drop (i + l) gs)))"

definition show_addr :: "addr \<Rightarrow> string" where
  "show_addr a = (case a of V4 b \<Rightarrow> show_v4 b
     | V6 gs z \<Rightarrow> (if is_4in6 a then ''::ffff:'' @ show_v4 [gs ! 6 div 256, gs ! 6 mod 256, gs ! 7 div 256, gs ! 7 mod 256]
                   else show_v6 gs) @ (if z = [] then [] else CHR ''%'' # z))"

text \<open>\<open>net.ParseIP(s)\<close> followed by \<open>String()\<close>: no zone, a mapped address printed as IPv4.\<close>

definition parse_ip_string :: "string \<Rightarrow> string option" where
  "parse_ip_string s = (case parse_addr s of None \<Rightarrow> None
     | Some a \<Rightarrow> if no_zone a \<noteq> a then None else Some (show_addr (unmap a)))"

section \<open>Lemmas\<close>

lemma show_addr_ne [simp]: "length (case a of V4 b \<Rightarrow> b | V6 gs _ \<Rightarrow> gs) \<noteq> 0 \<Longrightarrow> show_addr a \<noteq> []"
proof (cases a)
  case (V4 b)
  assume "length (case a of V4 b \<Rightarrow> b | V6 gs _ \<Rightarrow> gs) \<noteq> 0"
  with V4 obtain x xs where b: "b = x # xs" by (cases b) auto
  then show ?thesis using V4 by (cases xs) (auto simp: show_addr_def show_v4_def)
next
  case (V6 gs z)
  have h: "show_hex n \<noteq> []" for n by (subst show_hex.simps) simp
  assume "length (case a of V4 b \<Rightarrow> b | V6 gs _ \<Rightarrow> gs) \<noteq> 0"
  with V6 obtain x xs where b: "gs = x # xs" by (cases gs) auto
  then have "show_v6 gs \<noteq> []" using h by (cases xs) (auto simp: show_v6_def split: option.splits)
  then show ?thesis using V6 by (simp add: show_addr_def)
qed

lemma all_some_length: "all_some xs = Some ys \<Longrightarrow> length ys = length xs"
  by (induction xs arbitrary: ys rule: all_some.induct) (auto split: option.splits)

lemma parse_v4_length: "parse_v4 s = Some b \<Longrightarrow> length b = 4"
  by (auto simp: parse_v4_def Let_def dest: all_some_length split: if_splits)

lemma show_nat_nodot: "c \<in> set (show_nat n) \<Longrightarrow> c \<noteq> CHR ''.''"
  using show_nat_digits [of n] by (auto simp: is_digit_def ord_of_def)

end
