(* ===== verification/Pgtx.thy ===== *)
theory Pgtx
  imports Driver Netip
begin

text \<open>
  \<open>lib/pgtx/pgtx.go\<close> and the catalogue part of \<open>daemon.go\<close>: what the database offers
  (\<open>Detect\<close>, \<open>featuresFrom\<close>), the titles, the limits of the pool, the classification of an error from
  inside the transaction and \<open>explain\<close>, which turns it into a problem. Log lines are not modelled.
\<close>

section \<open>The runner\<close>

record session =
  s_code :: string
  s_token :: string
  s_agent :: string
  s_host :: string

record features =
  f_authorize_local :: bool
  f_log_request :: bool
  f_log_request_err :: bool
  f_parse_message :: bool
  f_daemon :: bool

text \<open>\<open>r_pool\<close>: the pool is there (it is nil only in a runner built without one).\<close>

record runner =
  r_pool :: bool
  r_features :: features
  r_begin_timeout :: int
  r_titles :: "(string \<times> string) list"

definition title_codes :: "string list" where
  "title_codes = [code_login_failed, code_token_expired]"

definition title :: "runner \<Rightarrow> string \<Rightarrow> string \<Rightarrow> string" where
  "title r code fallback = (case map_of (r_titles r) code of
       None \<Rightarrow> fallback | Some t \<Rightarrow> if t \<noteq> [] then t else fallback)"

definition usable_title :: "string \<Rightarrow> bool" where
  "usable_title msg \<longleftrightarrow> msg \<noteq> [] \<and> CHR ''%'' \<notin> set msg"

definition request_status :: "preq option \<Rightarrow> nat" where
  "request_status q = (case q of None \<Rightarrow> 200 | Some r \<Rightarrow> if qstatus r = 0 then 200 else qstatus r)"

definition daemon_road :: "string list" where
  "daemon_road = [''begin'', ''call'', ''end'', ''error'', ''routes'']"

section \<open>Detect\<close>

definition no_features :: features where
  "no_features = \<lparr>f_authorize_local = False, f_log_request = False, f_log_request_err = False,
     f_parse_message = False, f_daemon = False\<rparr>"

text \<open>One turn of the loop: the features and the callable functions of schema daemon.\<close>

definition features_step :: "features \<times> (string \<Rightarrow> bool) \<Rightarrow> proc \<Rightarrow> features \<times> (string \<Rightarrow> bool)" where
  "features_step st p = (case st of (f, road) \<Rightarrow>
     (if proc_schema p = ''daemon'' then (f, road(proc_name p := (road (proc_name p) \<or> proc_exec p)))
      else if proc_name p = ''authorize_local'' then (f\<lparr>f_authorize_local := True\<rparr>, road)
      else if proc_name p = ''log_request'' then
        (f\<lparr>f_log_request := True, f_log_request_err := (f_log_request_err f \<or> 7 \<le> proc_nargs p)\<rparr>, road)
      else if proc_name p = ''parse_message'' then (f\<lparr>f_parse_message := True\<rparr>, road)
      else (f, road)))"

definition features_from :: "proc list \<Rightarrow> features" where
  "features_from ps = (case foldl features_step (no_features, \<lambda>_. False) ps of
     (f, road) \<Rightarrow> f\<lparr>f_daemon := list_all road daemon_road\<rparr>)"

definition load_titles :: "env \<Rightarrow> runner \<Rightarrow> pst \<Rightarrow> runner \<times> pst" where
  "load_titles env r s =
     (let (a, s1) = send env 0 ReqCtx (STitles (f_daemon (r_features r)) title_codes) s in
      case a of ATitles rows None \<Rightarrow>
        (r\<lparr>r_titles := fold (\<lambda>(c, m) ts. case m of None \<Rightarrow> ts
             | Some t \<Rightarrow> if usable_title t then (c, t) # ts else ts) rows []\<rparr>, s1)
      | _ \<Rightarrow> (r, s1))"

definition detect :: "env \<Rightarrow> runner \<Rightarrow> pst \<Rightarrow> goerr option \<times> runner \<times> pst" where
  "detect env r s =
     (let (a, s1) = send env 0 ReqCtx (SPgProc daemon_road) s in
      case a of
        AErr e \<Rightarrow> (Some e, r, s1)
      | AProcs ps None \<Rightarrow> (let (r2, s2) = load_titles env (r\<lparr>r_features := features_from ps\<rparr>) s1 in (None, r2, s2))
      | AProcs ps (Some e) \<Rightarrow> (Some e, r, s1)
      | _ \<Rightarrow> (Some scan_error, r, s1))"

definition authorize_sql :: "runner \<Rightarrow> string" where
  "authorize_sql r = (if f_authorize_local (r_features r)
     then ''SELECT authorized, message FROM api.authorize_local($1, $2, $3::inet)''
     else ''SELECT authorized, message FROM api.authorize($1, $2, $3::inet)'')"

section \<open>The pool\<close>

text \<open>The keyword form of a DSN, on what is left of the text: a quoted value with its escapes, a bare value.\<close>

fun skip_quoted :: "string \<Rightarrow> string" where
  "skip_quoted [] = []"
| "skip_quoted (c # cs) = (if c = CHR 0x27 then cs
     else if c = CHR 0x5C then skip_quoted (drop 1 cs) else skip_quoted cs)"

fun skip_bare :: "string \<Rightarrow> string" where
  "skip_bare [] = []"
| "skip_bare (c # cs) = (if c = CHR '' '' then c # cs
     else if c = CHR 0x5C then skip_bare (drop 1 cs) else skip_bare cs)"

definition skip_value :: "string \<Rightarrow> string" where
  "skip_value s = (case s of [] \<Rightarrow> [] | c # cs \<Rightarrow> if c = CHR 0x27 then skip_quoted cs else skip_bare s)"

abbreviation skip_blanks :: "string \<Rightarrow> string" where
  "skip_blanks s \<equiv> dropWhile (\<lambda>c. c = CHR '' '') s"

abbreviation key_char :: "char \<Rightarrow> bool" where
  "key_char c \<equiv> c \<noteq> CHR ''='' \<and> c \<noteq> CHR '' ''"

lemma skip_quoted_length: "length (skip_quoted s) \<le> length s"
  by (induction s rule: skip_quoted.induct) (simp, fastforce)

lemma skip_bare_length: "length (skip_bare s) \<le> length s"
  by (induction s rule: skip_bare.induct) (simp, fastforce)

lemma skip_value_length: "length (skip_value s) \<le> length s"
  using skip_quoted_length [of "tl s"] skip_bare_length [of s] by (cases s) (simp_all add: skip_value_def le_SucI)

function keyword_keys :: "string \<Rightarrow> string list" where
  "keyword_keys s =
     (if s = [] then []
      else (let s1 = skip_blanks s; key = takeWhile key_char s1; s3 = skip_blanks (dropWhile key_char s1) in
        case s3 of [] \<Rightarrow> []
        | c # s4 \<Rightarrow> if c \<noteq> CHR ''='' then keyword_keys s3
                    else (let r = keyword_keys (skip_value (skip_blanks s4)) in if key \<noteq> [] then key # r else r)))"
  by pat_completeness auto
termination
proof (relation "measure length")
  fix s x xa xb c s4
  assume "s \<noteq> []" and x: "x = skip_blanks s" and xa: "xa = takeWhile key_char x"
    and xb: "xb = skip_blanks (dropWhile key_char x)" and "xb = c # s4"
  have l: "length xb \<le> length (dropWhile key_char x)" "length (dropWhile key_char x) \<le> length x" "length x \<le> length s"
    by (simp_all add: xb x length_dropWhile_le)
  {
    assume "c \<noteq> CHR ''=''"
    have "length xb < length s"
    proof (cases x)
      case Nil then show ?thesis using \<open>s \<noteq> []\<close> xb by simp
    next
      case (Cons d ds)
      have "d \<noteq> CHR '' ''" using x Cons by (metis (mono_tags, lifting) hd_dropWhile list.distinct(1) list.sel(1))
      show ?thesis
      proof (cases "d = CHR ''=''")
        case True
        then have "xb = x" using xb Cons by simp
        then show ?thesis using \<open>xb = c # s4\<close> Cons True \<open>c \<noteq> CHR ''=''\<close> by simp
      next
        case False
        with \<open>d \<noteq> CHR '' ''\<close> Cons have "length (dropWhile key_char x) < length x"
          by (simp add: le_imp_less_Suc length_dropWhile_le)
        with l show ?thesis by linarith
      qed
    qed
    then show "(xb, s) \<in> measure length" by simp
  }
  have "length (skip_value (skip_blanks s4)) \<le> length s4"
    using skip_value_length [of "skip_blanks s4"] length_dropWhile_le [of _ s4] order_trans by blast
  moreover have "length s4 < length s" using l \<open>xb = c # s4\<close> by simp
  ultimately show "(skip_value (skip_blanks s4), s) \<in> measure length" by simp
qed simp

declare keyword_keys.simps [simp del]

text \<open>\<open>dsnKeys\<close>; \<open>url_keys\<close> stands for the keys of \<open>url.Parse(dsn).Query()\<close> (\<open>None\<close> when it does not parse).\<close>

definition dsn_keys :: "(string \<Rightarrow> string list option) \<Rightarrow> string \<Rightarrow> string list" where
  "dsn_keys url_keys dsn =
     (if has_prefix dsn ''postgres://'' \<or> has_prefix dsn ''postgresql://''
      then (case url_keys dsn of None \<Rightarrow> [] | Some ks \<Rightarrow> ks)
      else keyword_keys dsn)"

text \<open>The part of \<open>pgxpool.Config\<close> that \<open>NewPool\<close> sets; times in nanoseconds.\<close>

record pool_config =
  connect_timeout :: int
  max_conns :: int
  max_conn_idle_time :: int
  reset_on_release :: bool

definition second :: int where
  "second = 1000000000"

definition default_begin_timeout :: int where
  "default_begin_timeout = 5 * second"

definition default_connect_timeout :: int where
  "default_connect_timeout = 5 * second"

definition default_max_conns :: int where
  "default_max_conns = 10"

definition default_max_conn_idle_time :: int where
  "default_max_conn_idle_time = 5 * 60 * second"

definition with_max_conns :: "int \<Rightarrow> pool_config \<Rightarrow> pool_config" where
  "with_max_conns n c = (if 1 \<le> n then c\<lparr>max_conns := n\<rparr> else c)"

definition new_pool :: "(string \<Rightarrow> goerr + pool_config) \<Rightarrow> (string \<Rightarrow> string list option) \<Rightarrow> string
    \<Rightarrow> (pool_config \<Rightarrow> pool_config) list \<Rightarrow> goerr + pool_config" where
  "new_pool parse_config url_keys dsn opts =
     (case parse_config dsn of Inl e \<Rightarrow> Inl e
      | Inr cfg \<Rightarrow>
        (let set_keys = set (dsn_keys url_keys dsn);
             c1 = (if ''connect_timeout'' \<notin> set_keys \<and> connect_timeout cfg = 0
                   then cfg\<lparr>connect_timeout := default_connect_timeout\<rparr> else cfg);
             c2 = (if ''pool_max_conns'' \<notin> set_keys then c1\<lparr>max_conns := default_max_conns\<rparr> else c1);
             c3 = (if ''pool_max_conn_idle_time'' \<notin> set_keys
                   then c2\<lparr>max_conn_idle_time := default_max_conn_idle_time\<rparr> else c2);
             c4 = foldl (\<lambda>c opt. opt c) c3 opts
         in Inr (c4\<lparr>reset_on_release := True\<rparr>)))"

definition begin_timeout :: "runner \<Rightarrow> int" where
  "begin_timeout r = (if r_begin_timeout r \<le> 0 then default_begin_timeout else r_begin_timeout r)"

section \<open>Classification\<close>

datatype kind = KProblem | KCatalogue | KRaise | KConstraint | KData | KInternal

definition classify :: "goerr \<Rightarrow> string \<times> string \<times> kind" where
  "classify err =
     (if as_problem err \<noteq> None then ([], [], KProblem)
      else (case as_pg err of None \<Rightarrow> ([], [], KInternal)
        | Some (st, msg) \<Rightarrow>
          (if st = ''P0001'' then
             (case parse_message msg of Some (code, text) \<Rightarrow> (code, text, KCatalogue) | None \<Rightarrow> ([], msg, KRaise))
           else if has_prefix st ''23'' then (st, msg, KConstraint)
           else if has_prefix st ''22'' then (st, msg, KData)
           else ([], [], KInternal))))"

definition internal :: "string \<Rightarrow> goerr" where
  "internal place = EProblem (problem_new 500 ''internal'' ''Internal error'' (place @ '' failed''))"

fun is_no_rows :: "goerr \<Rightarrow> bool" where
  "is_no_rows ENoRows = True"
| "is_no_rows (EWrap _ e) = is_no_rows e"
| "is_no_rows _ = False"

definition catalogue_title :: "env \<Rightarrow> runner \<Rightarrow> string \<Rightarrow> string \<Rightarrow> pst \<Rightarrow> string \<times> pst" where
  "catalogue_title env r code fallback s =
     (case map_of (r_titles r) code of
        Some (c # t) \<Rightarrow> (c # t, s)
      | _ \<Rightarrow>
        if \<not> r_pool r then (fallback, s)
        else (case map_of (slooked s) code of
            Some t \<Rightarrow> (if t \<noteq> [] then t else fallback, s)
          | None \<Rightarrow>
            (let (a, s1) = send env 0 LookupCtx
                   (if f_daemon (r_features r) then SDaemonError code else SGetError code) s in
             case scan_msg a of
               Inl e \<Rightarrow> if is_no_rows e then (fallback, s1\<lparr>slooked := (code, []) # slooked s1\<rparr>) else (fallback, s1)
             | Inr m \<Rightarrow>
               (let t = (case m of None \<Rightarrow> [] | Some x \<Rightarrow> if usable_title x then x else []) in
                (if t \<noteq> [] then t else fallback, s1\<lparr>slooked := (code, t) # slooked s1\<rparr>)))))"

text \<open>The lookup of the direct road: the database's own cut of the message, then the catalogue's title.\<close>

definition explain_catalogue :: "env \<Rightarrow> runner \<Rightarrow> string \<Rightarrow> string \<Rightarrow> string \<Rightarrow> pst \<Rightarrow> goerr \<times> pst" where
  "explain_catalogue env r msg code detail s =
     (let (d, s1) = (if f_parse_message (r_features r)
            then (let (a, s') = send env 0 LookupCtx (SParseMessage msg) s in
                  (case a of AParsed _ m _ \<Rightarrow> if m \<noteq> [] then m else detail | _ \<Rightarrow> detail, s'))
            else (detail, s));
          (a, s2) = send env 0 LookupCtx (SGetError code) s1;
          t = (case scan_msg a of Inr (Some m) \<Rightarrow> if usable_title m then m else detail | _ \<Rightarrow> detail)
      in (EProblem (from_code code t d), s2))"

definition explain :: "env \<Rightarrow> runner \<Rightarrow> goerr \<Rightarrow> pst \<Rightarrow> goerr \<times> pst" where
  "explain env r err s =
     (case classify err of (code, detail, k) \<Rightarrow>
      (case k of
         KProblem \<Rightarrow> (err, s)
       | KCatalogue \<Rightarrow>
         (if f_daemon (r_features r)
          then (let (t, s1) = catalogue_title env r code detail s in (EProblem (from_code code t detail), s1))
          else if r_pool r then explain_catalogue env r (case as_pg err of Some (_, m) \<Rightarrow> m | None \<Rightarrow> []) code detail s
          else (EProblem (from_code code detail detail), s))
       | KRaise \<Rightarrow> (EProblem (problem_new 400 ''raise'' ''Request refused'' detail), s)
       | KConstraint \<Rightarrow>
         (if code = ''23505'' then (EProblem (problem_new 409 ''conflict'' ''Conflict'' detail), s)
          else if code = ''23503'' \<and> (case sreq s of None \<Rightarrow> False | Some q \<Rightarrow> qmethod q = ''DELETE'')
          then (EProblem (problem_new 409 ''conflict'' ''Conflict'' detail), s)
          else (bad_request detail, s))
       | KData \<Rightarrow> (bad_request detail, s)
       | KInternal \<Rightarrow> (internal ''request'', s)))"

definition nil_if_empty :: "string \<Rightarrow> string option" where
  "nil_if_empty s = (if s = [] then None else Some s)"

section \<open>The journal\<close>

definition payload_of :: "preq \<Rightarrow> bytes option" where
  "payload_of q = (if 0 < length (qpayload q) then Some (qpayload q) else None)"

definition log_stmt :: "runner \<Rightarrow> preq \<Rightarrow> nat \<Rightarrow> string \<Rightarrow> stmt" where
  "log_stmt r q status code =
     (let rid = (if qrequest_id q \<noteq> [] \<and> uuid_shape (qrequest_id q) then Some (qrequest_id q) else None) in
      if f_log_request_err (r_features r)
      then SLogRequest True (qmethod q) (qpath q) (payload_of q) status rid (nil_if_empty code)
      else SLogRequest False (qmethod q) (qpath q) (payload_of q) status rid None)"

definition set_log_id :: "int \<Rightarrow> pst \<Rightarrow> pst" where
  "set_log_id i s = s\<lparr>sreq := map_option (\<lambda>q. q\<lparr>qlog_id := i\<rparr>) (sreq s)\<rparr>"

definition log_request :: "env \<Rightarrow> runner \<Rightarrow> nat \<Rightarrow> dctx \<Rightarrow> preq \<Rightarrow> nat \<Rightarrow> string \<Rightarrow> pst \<Rightarrow> goerr option \<times> pst" where
  "log_request env r t c q status code s =
     (let (a, s1) = send env t c (log_stmt r q status code) s in
      case scan_log a of Inl e \<Rightarrow> (Some e, s1) | Inr i \<Rightarrow> (None, set_log_id i s1))"

text \<open>The status and the code a refusal is journalled with.\<close>

definition refusal_line :: "goerr \<Rightarrow> nat \<times> string" where
  "refusal_line p = (case as_problem p of None \<Rightarrow> (500, [])
     | Some pr \<Rightarrow> (pstatus pr, case pcode pr of None \<Rightarrow> [] | Some c \<Rightarrow> c))"

definition journal_refusal :: "env \<Rightarrow> runner \<Rightarrow> nat \<Rightarrow> preq \<Rightarrow> goerr \<Rightarrow> pst \<Rightarrow> pst" where
  "journal_refusal env r t q p s =
     (case refusal_line p of (status, code) \<Rightarrow>
      (let (e1, s1) = log_request env r t JournalCtx q status code s;
           (e2, s2) = (case e1 of None \<Rightarrow> commit_tx env t JournalCtx s1 | Some _ \<Rightarrow> (e1, s1))
       in case e2 of None \<Rightarrow> s2 | Some _ \<Rightarrow> set_log_id 0 s2))"

section \<open>Features do not depend on the order of the rows\<close>

lemma features_fold:
  "foldl features_step (f, road) ps =
     (f\<lparr>f_authorize_local := f_authorize_local f \<or> (\<exists>p \<in> set ps. proc_schema p \<noteq> ''daemon'' \<and> proc_name p = ''authorize_local''),
        f_log_request := f_log_request f \<or> (\<exists>p \<in> set ps. proc_schema p \<noteq> ''daemon'' \<and> proc_name p = ''log_request''),
        f_log_request_err := f_log_request_err f \<or>
          (\<exists>p \<in> set ps. proc_schema p \<noteq> ''daemon'' \<and> proc_name p = ''log_request'' \<and> 7 \<le> proc_nargs p),
        f_parse_message := f_parse_message f \<or> (\<exists>p \<in> set ps. proc_schema p \<noteq> ''daemon'' \<and> proc_name p = ''parse_message'')\<rparr>,
      \<lambda>n. road n \<or> (\<exists>p \<in> set ps. proc_schema p = ''daemon'' \<and> proc_name p = n \<and> proc_exec p))"
proof (induction ps arbitrary: f road)
  case (Cons p ps)
  obtain f' road' where st: "features_step (f, road) p = (f', road')" by force
  have f': "f' = f\<lparr>f_authorize_local := f_authorize_local f \<or> (proc_schema p \<noteq> ''daemon'' \<and> proc_name p = ''authorize_local''),
        f_log_request := f_log_request f \<or> (proc_schema p \<noteq> ''daemon'' \<and> proc_name p = ''log_request''),
        f_log_request_err := f_log_request_err f \<or>
          (proc_schema p \<noteq> ''daemon'' \<and> proc_name p = ''log_request'' \<and> 7 \<le> proc_nargs p),
        f_parse_message := f_parse_message f \<or> (proc_schema p \<noteq> ''daemon'' \<and> proc_name p = ''parse_message'')\<rparr>"
    using st by (auto simp: features_step_def split: if_splits)
  have road': "road' = (\<lambda>n. road n \<or> (proc_schema p = ''daemon'' \<and> proc_name p = n \<and> proc_exec p))"
    using st by (auto simp: features_step_def fun_eq_iff split: if_splits)
  show ?case unfolding foldl_Cons st Cons.IH [of f' road'] by (simp add: f' road' disj_assoc)
qed simp

text \<open>What \<open>featuresFrom\<close> reads off the function list depends only on which functions are listed: a seven-parameter
  \<open>log_request\<close> wins over a six-parameter one whatever the order of the rows, and the daemon road is taken only when
  every one of its five functions is listed as callable.\<close>

lemma features_from_iff:
  "f_log_request_err (features_from ps) =
      (\<exists>p \<in> set ps. proc_schema p \<noteq> ''daemon'' \<and> proc_name p = ''log_request'' \<and> 7 \<le> proc_nargs p)
   \<and> f_log_request (features_from ps) = (\<exists>p \<in> set ps. proc_schema p \<noteq> ''daemon'' \<and> proc_name p = ''log_request'')
   \<and> f_daemon (features_from ps) = list_all (\<lambda>n. \<exists>p \<in> set ps. proc_schema p = ''daemon'' \<and> proc_name p = n \<and> proc_exec p) daemon_road"
  by (simp add: features_from_def features_fold no_features_def)

section \<open>explain\<close>

lemma as_problem_simps [simp]: "as_problem (internal w) = Some (problem_new 500 ''internal'' ''Internal error'' (w @ '' failed''))"
  by (simp add: internal_def)

lemma catalogue_title_pool: "\<exists>es. strace (snd (catalogue_title env r code fb s)) = strace s @ es \<and> (\<forall>e \<in> set es. etx e = 0)
    \<and> snext (snd (catalogue_title env r code fb s)) = snext s \<and> sreq (snd (catalogue_title env r code fb s)) = sreq s"
  by (auto simp: catalogue_title_def Let_def send_def split: option.splits list.splits sum.splits)

lemma explain_pool: "\<exists>es. strace (snd (explain env r err s)) = strace s @ es \<and> (\<forall>e \<in> set es. etx e = 0)
    \<and> snext (snd (explain env r err s)) = snext s \<and> sreq (snd (explain env r err s)) = sreq s"
proof -
  obtain code detail k where c: "classify err = (code, detail, k)" by (cases "classify err")
  show ?thesis
    using catalogue_title_pool [of env r code detail s]
    by (cases k) (auto simp: explain_def c explain_catalogue_def Let_def send_def split: prod.splits option.splits)
qed

lemma explain_frame [simp]: "snext (snd (explain env r err s)) = snext s" "sreq (snd (explain env r err s)) = sreq s"
    "t \<noteq> 0 \<Longrightarrow> tx_run t (strace (snd (explain env r err s))) = tx_run t (strace s)"
  using explain_pool [of env r err s] tx_run_other by (blast, blast, metis)

lemma explain_is_problem: "as_problem (fst (explain env r err s)) \<noteq> None"
proof -
  obtain code detail k where c: "classify err = (code, detail, k)" by (cases "classify err")
  have "k = KProblem \<Longrightarrow> as_problem err \<noteq> None"
    using c by (auto simp: classify_def split: option.splits if_splits)
  then show ?thesis
    by (cases k) (auto simp: explain_def c explain_catalogue_def Let_def split: prod.splits option.splits)
qed

text \<open>C31: a failure that is neither a refusal of the database's own code nor bad data of the client is answered with a
  fixed 500: no text of the database or of the driver reaches the client.\<close>

theorem explain_no_leak:
  assumes "as_problem err = None"
    and "\<And>st msg. as_pg err = Some (st, msg) \<Longrightarrow> st \<noteq> ''P0001'' \<and> \<not> has_prefix st ''22'' \<and> \<not> has_prefix st ''23''"
  shows "explain env r err s = (EProblem (problem_new 500 ''internal'' ''Internal error'' ''request failed''), s)"
  using assms by (cases "as_pg err") (auto simp: explain_def classify_def internal_def split: prod.splits)

theorem explain_no_leak_witness:
  "explain (\<lambda>_ _ _ _. AOk) \<lparr>r_pool = True, r_features = no_features, r_begin_timeout = 0, r_titles = []\<rparr>
     (EPg ''42P01'' ''relation db.secret does not exist'') \<lparr>strace = [], snext = 0, slooked = [], sreq = None\<rparr>
   = (EProblem (problem_new 500 ''internal'' ''Internal error'' ''request failed''), \<lparr>strace = [], snext = 0, slooked = [], sreq = None\<rparr>)"
  by (rule explain_no_leak) (simp_all add: has_prefix_def)

end
