(* ===== verification/Road.thy ===== *)
theory Road
  imports Pgtx
begin

text \<open>
  One HTTP request as one database transaction: \<open>Runner.Do\<close> of \<open>lib/pgtx/pgtx.go\<close> on the direct road and
  \<open>doDaemon\<close> of \<open>daemon.go\<close> on the daemon road, whole, with every early return and the deferred
  rollback. The locale \<open>request_road\<close> states what both promise a handler that keeps its contract:
  an error leaves none of the handler's work behind, a success keeps all of it, the answer is a
  problem; it is interpreted on both roads and on \<open>Do\<close>, which chooses between them.
\<close>

section \<open>The direct road\<close>

abbreviation sess_host :: "session \<Rightarrow> string option" where
  "sess_host s \<equiv> parse_ip_string (s_host s)"

text \<open>The handler's part: the savepoint, the handler, the journal line and the commit. \<open>jq\<close> is the request
  when the database journals it.\<close>

definition do_handler :: "env \<Rightarrow> runner \<Rightarrow> 'a handler \<Rightarrow> nat \<Rightarrow> preq option \<Rightarrow> pst \<Rightarrow> (goerr + 'a) \<times> pst" where
  "do_handler env r fn t jq s =
     (let (e, s1) = (case jq of None \<Rightarrow> (None, s)
            | Some _ \<Rightarrow> (let (a, s') = send env t ReqCtx SSavepoint s in (exec_err a, s')))
      in case e of Some _ \<Rightarrow> (Inl (internal ''savepoint''), s1)
      | None \<Rightarrow>
        (case fn \<lparr>htx = t, hdaemon_tx = False, hroad_key = False\<rparr> s1 of
           (Inl err, s2) \<Rightarrow>
             (let (p, s3) = explain env r err s2 in
              (Inl p, case jq of None \<Rightarrow> s3
                | Some q \<Rightarrow> (let (a, s4) = send env t JournalCtx SRollbackTo s3 in
                    if exec_err a = None then journal_refusal env r t q p s4 else s4)))
         | (Inr v, s2) \<Rightarrow>
             (let (e3, s3) = (case jq of None \<Rightarrow> (None, s2)
                     | Some q \<Rightarrow> log_request env r t ReqCtx q (request_status (sreq s2)) [] s2)
              in case e3 of Some err \<Rightarrow> (let (p, s4) = explain env r err s3 in (Inl p, s4))
              | None \<Rightarrow>
                (let (e4, s4) = commit_tx env t ReqCtx s3 in
                 case e4 of None \<Rightarrow> (Inr v, s4)
                 | Some err \<Rightarrow> (let (p, s5) = explain env r err (set_log_id 0 s4) in (Inl p, s5))))))"

text \<open>The transaction from the authorization on.\<close>

definition do_body :: "env \<Rightarrow> runner \<Rightarrow> session \<Rightarrow> 'a handler \<Rightarrow> nat \<Rightarrow> pst \<Rightarrow> (goerr + 'a) \<times> pst" where
  "do_body env r sess fn t s =
     (let jq = (if f_log_request (r_features r) then sreq s else None);
          (a, s1) = send env t ReqCtx (SAuthorize (authorize_sql r) (s_code sess) (nil_if_empty (s_agent sess)) (sess_host sess)) s
      in case scan_auth a of
        Inl err \<Rightarrow>
          (let (p, s2) = explain env r err s1 in
           (Inl p, case jq of None \<Rightarrow> s2
             | Some q \<Rightarrow>
               (let (f, s3) = pool_begin env JournalCtx (rollback_tx env t JournalCtx s2) in
                case f of Inl _ \<Rightarrow> s3
                | Inr u \<Rightarrow> rollback_tx env u JournalCtx (journal_refusal env r u q p s3))))
      | Inr (authorized, message) \<Rightarrow>
          (if \<not> authorized then
             (let p = EProblem (unauthorized (Some (title r)) code_login_failed (case message of None \<Rightarrow> [] | Some m \<Rightarrow> m)) in
              (Inl p, case jq of None \<Rightarrow> s1 | Some q \<Rightarrow> journal_refusal env r t q p s1))
           else do_handler env r fn t jq s1))"

definition do_direct :: "env \<Rightarrow> runner \<Rightarrow> session \<Rightarrow> 'a handler \<Rightarrow> pst \<Rightarrow> (goerr + 'a) \<times> pst" where
  "do_direct env r sess fn s =
     (let (b, s1) = pool_begin env BeginCtx (set_log_id 0 s) in
      case b of Inl _ \<Rightarrow> (Inl (internal ''begin''), s1)
      | Inr t \<Rightarrow> (let (res, s2) = do_body env r sess fn t s1 in (res, rollback_tx env t DetachedCtx s2)))"

section \<open>The daemon road\<close>

definition code_not_accepted :: string where
  "code_not_accepted = ''ERR-401-002''"

definition refusal :: "env \<Rightarrow> runner \<Rightarrow> int option \<Rightarrow> string option \<Rightarrow> string option \<Rightarrow> pst \<Rightarrow> goerr \<times> pst" where
  "refusal env r status code message s =
     (let st = (case status of None \<Rightarrow> 500 | Some i \<Rightarrow> nat i);
          c = (case code of None \<Rightarrow> [] | Some x \<Rightarrow> x);
          detail = (case message of None \<Rightarrow> [] | Some x \<Rightarrow> x)
      in if st = 401 then
           (let c' = (if c = [] then code_login_failed else c);
                d' = (if c' = code_not_accepted then ''The access token was not accepted.'' else detail)
            in (EProblem (unauthorized (Some (title r)) c' d'), s))
         else if c \<noteq> [] then
           (let (t, s1) = catalogue_title env r c detail s in (EProblem ((from_code c t detail)\<lparr>pstatus := st\<rparr>), s1))
         else (internal ''begin'', s))"

definition refusal_of :: "goerr \<Rightarrow> goerr \<Rightarrow> nat \<times> string option" where
  "refusal_of p cause =
     (case as_pg cause of
        Some (_, msg) \<Rightarrow> (case as_problem p of None \<Rightarrow> 500 | Some pr \<Rightarrow> pstatus pr, Some msg)
      | None \<Rightarrow>
        (case as_problem p of None \<Rightarrow> (500, None)
         | Some pr \<Rightarrow> (pstatus pr, case pcode pr of Some c \<Rightarrow> Some (c @ '': '' @ pdetail pr)
             | None \<Rightarrow> if pdetail pr \<noteq> [] then Some (pdetail pr) else None)))"

definition end_request :: "env \<Rightarrow> nat \<Rightarrow> dctx \<Rightarrow> nat \<Rightarrow> string option \<Rightarrow> pst \<Rightarrow> goerr option \<times> pst" where
  "end_request env t c status text s =
     (let (a, s1) = send env t c (SDaemonEnd status text) s in
      case scan_end a of Inl e \<Rightarrow> (Some e, s1)
      | Inr i \<Rightarrow> (None, case i of None \<Rightarrow> s1 | Some k \<Rightarrow> set_log_id k s1))"

definition salvage :: "env \<Rightarrow> nat \<Rightarrow> pst \<Rightarrow> pst" where
  "salvage env t s = (let (a, s1) = send env t JournalCtx SRollbackTo s in
     if exec_err a = None then snd (commit_tx env t JournalCtx s1) else s1)"

text \<open>The method the guard of a route knows: upper case, GET for HEAD.\<close>

definition guard_method :: "string \<Rightarrow> string" where
  "guard_method m = (let u = map to_upper1 m in if u = ''HEAD'' then ''GET'' else u)"

definition daemon_begin_stmt :: "session \<Rightarrow> preq \<Rightarrow> stmt" where
  "daemon_begin_stmt sess q =
     SDaemonBegin (s_token sess) (nil_if_empty (s_agent sess)) (sess_host sess) (guard_method (qmethod q)) (qpath q)
       (payload_of q) (if uuid_shape (qrequest_id q) then Some (qrequest_id q) else None)"

definition daemon_handler :: "env \<Rightarrow> runner \<Rightarrow> 'a handler \<Rightarrow> nat \<Rightarrow> pst \<Rightarrow> (goerr + 'a) \<times> pst" where
  "daemon_handler env r fn t s =
     (let (a, s1) = send env t ReqCtx SSavepoint s in
      if exec_err a \<noteq> None then (Inl (internal ''savepoint''), s1)
      else (case fn \<lparr>htx = t, hdaemon_tx = True, hroad_key = True\<rparr> s1 of
          (Inl err, s2) \<Rightarrow>
            (let (p, s3) = explain env r err s2; (a2, s4) = send env t JournalCtx SRollbackTo s3 in
             if exec_err a2 \<noteq> None then (Inl p, s4)
             else (case end_request env t JournalCtx (fst (refusal_of p err)) (snd (refusal_of p err)) s4 of
                  (Some _, s5) \<Rightarrow> (Inl p, salvage env t (set_log_id 0 s5))
                | (None, s5) \<Rightarrow>
                  (let (e6, s6) = commit_tx env t JournalCtx s5 in
                   (Inl p, case e6 of None \<Rightarrow> s6 | Some _ \<Rightarrow> set_log_id 0 s6))))
        | (Inr v, s2) \<Rightarrow>
            (case end_request env t ReqCtx (request_status (sreq s2)) None s2 of
               (Some _, s3) \<Rightarrow> (Inl (internal ''end''), salvage env t (set_log_id 0 s3))
             | (None, s3) \<Rightarrow>
               (let (e4, s4) = commit_tx env t ReqCtx s3 in
                case e4 of None \<Rightarrow> (Inr v, s4)
                | Some err \<Rightarrow> (let (p, s5) = explain env r err (set_log_id 0 s4) in (Inl p, s5))))))"

definition daemon_body :: "env \<Rightarrow> runner \<Rightarrow> session \<Rightarrow> preq \<Rightarrow> 'a handler \<Rightarrow> nat \<Rightarrow> pst \<Rightarrow> (goerr + 'a) \<times> pst" where
  "daemon_body env r sess q fn t s =
     (let (a, s1) = send env t ReqCtx (daemon_begin_stmt sess q) s in
      case scan_begun a of
        Inl _ \<Rightarrow> (Inl (internal ''begin''), s1)
      | Inr (authorized, status, code, message) \<Rightarrow>
        (if \<not> authorized then
           (let (_, s2) = commit_tx env t JournalCtx s1; (p, s3) = refusal env r status code message s2 in (Inl p, s3))
         else daemon_handler env r fn t s1))"

definition do_daemon :: "env \<Rightarrow> runner \<Rightarrow> session \<Rightarrow> 'a handler \<Rightarrow> pst \<Rightarrow> (goerr + 'a) \<times> pst" where
  "do_daemon env r sess fn s =
     (case sreq s of None \<Rightarrow> (Inl (internal ''begin''), s)
      | Some q \<Rightarrow>
        (let (b, s1) = pool_begin env BeginCtx (set_log_id 0 s) in
         case b of Inl _ \<Rightarrow> (Inl (internal ''begin''), s1)
         | Inr t \<Rightarrow> (let (res, s2) = daemon_body env r sess q fn t s1 in (res, rollback_tx env t DetachedCtx s2))))"

definition run_do :: "env \<Rightarrow> runner \<Rightarrow> session \<Rightarrow> 'a handler \<Rightarrow> pst \<Rightarrow> (goerr + 'a) \<times> pst" where
  "run_do env r sess fn s = (if f_daemon (r_features r) then do_daemon env r sess fn s else do_direct env r sess fn s)"

definition routes :: "env \<Rightarrow> runner \<Rightarrow> string \<Rightarrow> pst \<Rightarrow> (goerr + (string \<times> string) list option) \<times> pst" where
  "routes env r version s =
     (if \<not> f_daemon (r_features r) then (Inr None, s)
      else (let (a, s1) = send env 0 ReqCtx (SDaemonRoutes version) s in
        (case a of AErr e \<Rightarrow> Inl e | ARoutes rs None \<Rightarrow> Inr (Some rs) | ARoutes _ (Some e) \<Rightarrow> Inl e
         | _ \<Rightarrow> Inl scan_error, s1)))"

section \<open>What the steps do to the transactions\<close>

definition new_work :: "pst \<Rightarrow> pst \<Rightarrow> work" where
  "new_work s s' = pairs (drop (length (strace s)) (strace s'))"

definition fresh :: "pst \<Rightarrow> bool" where
  "fresh s \<longleftrightarrow> list_all (\<lambda>e. etx e \<le> snext s) (strace s)"

lemma fresh_none: "fresh s \<Longrightarrow> snext s < t \<Longrightarrow> tx_run t (strace s) = TNone"
  using tx_run_other [of "strace s" t "[]"] by (fastforce simp: fresh_def list_all_iff tx_run_def)

lemma sendD: "send env t c q s = (a, s1) \<Longrightarrow>
    strace s1 = strace s @ [Ev t c q a] \<and> snext s1 = snext s \<and> sreq s1 = sreq s \<and> slooked s1 = slooked s"
  by (auto simp: send_def Let_def)

lemma set_log_id_simps [simp]: "strace (set_log_id i s) = strace s" "snext (set_log_id i s) = snext s"
    "sreq (set_log_id i s) = map_option (\<lambda>q. q\<lparr>qlog_id := i\<rparr>) (sreq s)"
  by (simp_all add: set_log_id_def)

lemma durable_open [simp]: "tx_run t tr = TOpen b sp \<Longrightarrow> durable t tr = []"
  by (simp add: durable_def)

lemma durable_done: "tx_run t tr = TDone w \<Longrightarrow> durable t tr = w"
  by (simp add: durable_def)

lemma durable_other: "etx e \<noteq> t \<Longrightarrow> durable t (tr @ [e]) = durable t tr"
  by (simp add: durable_def)

lemma rollback_simps [simp]: "snext (rollback_tx env u c s) = snext s" "sreq (rollback_tx env u c s) = sreq s"
  by (simp_all add: rollback_tx_def)

lemma durable_rollback [simp]: "durable t (strace (rollback_tx env u c s)) = durable t (strace s)"
  by (cases "t = u"; cases "tx_run u (strace s)") (simp_all add: rollback_tx_def durable_def tx_closed_def)

lemma is_work_road [simp]: "is_work (log_stmt r q st code)" "is_work (SAuthorize x1 x2 x3 x4)" "is_work (SDaemonEnd x5 x6)"
    "is_work (daemon_begin_stmt sess q)"
  by (auto simp: log_stmt_def Let_def is_work_def daemon_begin_stmt_def split: if_splits)

lemma sofar_open [simp]: "sofar b (Some w) = b @ w" "sofar b None = b"
  by (simp_all add: sofar_def)

lemma log_requestD: "log_request env r t c q st code s = (e, s1) \<Longrightarrow>
    \<exists>a. strace s1 = strace s @ [Ev t c (log_stmt r q st code) a] \<and> snext s1 = snext s
      \<and> (case e of None \<Rightarrow> (\<exists>i. a = ALog i \<and> sreq s1 = map_option (\<lambda>q. q\<lparr>qlog_id := i\<rparr>) (sreq s)) | Some _ \<Rightarrow> sreq s1 = sreq s)"
  by (auto simp: log_request_def Let_def scan_log_def dest!: sendD split: prod.splits sum.splits answer.splits)

text \<open>The journal of a refusal: the line alone is kept and \<open>LogID\<close> is its number, or nothing is kept and \<open>LogID\<close> is 0.\<close>

definition journalled :: "preq option \<Rightarrow> preq option \<Rightarrow> int \<Rightarrow> bool" where
  "journalled q q' i \<longleftrightarrow> q' = map_option (\<lambda>q. q\<lparr>qlog_id := i\<rparr>) q"

lemma commitD: "commit_tx env t c s = (e, s1) \<Longrightarrow>
    \<exists>a. strace s1 = strace s @ [Ev t c SCommit a] \<and> exec_err a = e \<and> snext s1 = snext s \<and> sreq s1 = sreq s"
  by (auto simp: commit_tx_def Let_def dest!: sendD split: prod.splits)

lemma journal_refusal_view:
  assumes "tx_run t (strace s) = TOpen b sp" "refusal_line p = (st, code)"
  shows "(\<exists>i. durable t (strace (journal_refusal env r t q p s)) = sofar b sp @ [(log_stmt r q st code, ALog i)]
            \<and> journalled (sreq s) (sreq (journal_refusal env r t q p s)) i)
       \<or> durable t (strace (journal_refusal env r t q p s)) = [] \<and> journalled (sreq s) (sreq (journal_refusal env r t q p s)) 0"
proof -
  obtain e1 s1 where l: "log_request env r t JournalCtx q st code s = (e1, s1)" by force
  from log_requestD [OF l] obtain a where a: "strace s1 = strace s @ [Ev t JournalCtx (log_stmt r q st code) a]"
    and e: "case e1 of None \<Rightarrow> (\<exists>i. a = ALog i \<and> sreq s1 = map_option (\<lambda>q. q\<lparr>qlog_id := i\<rparr>) (sreq s)) | Some _ \<Rightarrow> sreq s1 = sreq s"
    by blast
  show ?thesis
  proof (cases e1)
    case (Some x)
    with assms a e show ?thesis
      by (auto simp: journal_refusal_def l Let_def journalled_def durable_def split: option.splits)
  next
    case None
    obtain e2 s2 where c: "commit_tx env t JournalCtx s1 = (e2, s2)" by force
    from commitD [OF c] None a e assms show ?thesis
      by (auto simp: journal_refusal_def l c Let_def journalled_def durable_def comp_def option.map_comp split: option.splits)
  qed
qed

lemma journal_refusal_frame [simp]: "snext (journal_refusal env r u q p s) = snext s"
    "t \<noteq> u \<Longrightarrow> tx_run t (strace (journal_refusal env r u q p s)) = tx_run t (strace s)"
    "fresh s \<Longrightarrow> u \<le> snext s \<Longrightarrow> fresh (journal_refusal env r u q p s)"
  unfolding journal_refusal_def Let_def
  by (auto simp: fresh_def dest!: log_requestD commitD split: prod.splits option.splits)

definition log_is :: "int \<Rightarrow> pst \<Rightarrow> bool" where
  "log_is i s = (case sreq s of None \<Rightarrow> True | Some q \<Rightarrow> qlog_id q = i)"

lemma log_is_journalled: "journalled (sreq s) (sreq s') i \<Longrightarrow> log_is i s'"
  by (auto simp: journalled_def log_is_def split: option.splits)

lemma log_is_map: "sreq s' = map_option (\<lambda>q. q\<lparr>qlog_id := i\<rparr>) x \<Longrightarrow> log_is i s'"
  by (cases x) (simp_all add: log_is_def)

lemma log_is_set [simp]: "log_is i (set_log_id i s)"
  by (simp add: log_is_def split: option.splits)

lemma log_is_same: "log_is i s \<Longrightarrow> same_request (sreq s) (sreq s') \<Longrightarrow> log_is i s'"
  by (cases "sreq s"; cases "sreq s'") (auto simp: log_is_def same_request_def, metis preq.ext_inject preq.surjective preq.update_convs(5))

lemma log_is_eq: "sreq s = sreq s' \<Longrightarrow> log_is i s \<Longrightarrow> log_is i s'"
  by (simp add: log_is_def)

lemma log_is_explain [simp]: "log_is i (snd (explain env r e s)) = log_is i s"
  by (simp add: log_is_def)

lemma log_is_rollback [simp]: "log_is i (rollback_tx env t c s) = log_is i s"
  by (simp add: log_is_def)

text \<open>A handler that keeps its contract extends the work of its transaction and nothing else.\<close>

lemma handler_view:
  assumes "handler_ok fn" "fn h s = (x, s')"
  shows "tx_run (htx h) (strace s) = TOpen b None \<Longrightarrow> tx_run (htx h) (strace s') = TOpen (b @ new_work s s') None"
    "tx_run (htx h) (strace s) = TOpen b (Some w) \<Longrightarrow> tx_run (htx h) (strace s') = TOpen b (Some (w @ new_work s s'))"
    "t \<noteq> htx h \<Longrightarrow> tx_run t (strace s') = tx_run t (strace s)"
    "snext s' = snext s" "same_request (sreq s) (sreq s')" "list_all (\<lambda>p. is_call (fst p)) (new_work s s')"
    "fresh s \<Longrightarrow> htx h \<le> snext s \<Longrightarrow> fresh s'"
proof -
  from assms have c: "calls_only h s s'" unfolding handler_ok_def step_ok_def by (metis snd_conv)
  then obtain es where e: "strace s' = strace s @ es" and l: "list_all (call_event h) es"
    and n: "snext s' = snext s" "same_request (sreq s) (sreq s')" unfolding calls_only_events by blast
  have w: "new_work s s' = pairs es" by (simp add: new_work_def e)
  have tx: "\<forall>x \<in> set es. etx x = htx h \<and> is_call (estmt x)" using l by (simp add: list_all_iff call_event_def)
  show "tx_run (htx h) (strace s) = TOpen b None \<Longrightarrow> tx_run (htx h) (strace s') = TOpen (b @ new_work s s') None"
    "tx_run (htx h) (strace s) = TOpen b (Some w) \<Longrightarrow> tx_run (htx h) (strace s') = TOpen b (Some (w @ new_work s s'))"
    using tx_fold_calls [OF tx] by (simp_all add: e w)
  show "t \<noteq> htx h \<Longrightarrow> tx_run t (strace s') = tx_run t (strace s)" unfolding e using tx by (intro tx_run_other) auto
  show "snext s' = snext s" "same_request (sreq s) (sreq s')" by (rule n)+
  show "list_all (\<lambda>p. is_call (fst p)) (new_work s s')" using tx by (simp add: w pairs_def list_all_iff)
  show "fresh s \<Longrightarrow> htx h \<le> snext s \<Longrightarrow> fresh s'" using tx by (auto simp: fresh_def e n list_all_iff)
qed

definition same_status :: "pst \<Rightarrow> pst \<Rightarrow> bool" where
  "same_status s s' \<longleftrightarrow> map_option qstatus (sreq s) = map_option qstatus (sreq s')"

lemma same_status_request: "same_status s s' \<Longrightarrow> request_status (sreq s') = request_status (sreq s)"
  by (cases "sreq s"; cases "sreq s'") (simp_all add: same_status_def request_status_def)

lemma same_status_map: "sreq s' = map_option (\<lambda>q. q\<lparr>qlog_id := i\<rparr>) (sreq s) \<Longrightarrow> same_status s s'"
  by (simp add: same_status_def option.map_comp comp_def)

lemma do_handler_kept:
  assumes "do_handler env r fn t jq s = (Inr v, s')" "handler_ok fn" "tx_run t (strace s) = TOpen b None"
  shows "\<exists>s1 s2. fn \<lparr>htx = t, hdaemon_tx = False, hroad_key = False\<rparr> s1 = (Inr v, s2) \<and> sreq s1 = sreq s \<and> same_status s2 s' \<and>
     (case jq of None \<Rightarrow> durable t (strace s') = b @ new_work s1 s2
      | Some q \<Rightarrow> \<exists>i. durable t (strace s') = b @ new_work s1 s2 @ [(log_stmt r q (request_status (sreq s2)) [], ALog i)]
                   \<and> log_is i s')"
proof (cases jq)
  case None
  with assms(1) obtain s2 where f: "fn \<lparr>htx = t, hdaemon_tx = False, hroad_key = False\<rparr> s = (Inr v, s2)"
    and c: "commit_tx env t ReqCtx s2 = (None, s')"
    by (auto simp: do_handler_def Let_def split: prod.splits sum.splits option.splits)
  from commitD [OF c] handler_view(1) [OF assms(2) f, of b] assms(3)
  have "durable t (strace s') = b @ new_work s s2" "same_status s2 s'" by (auto simp: durable_def same_status_def)
  with f None show ?thesis by auto
next
  case (Some q)
  with assms(1) obtain a s1 s2 s3 where sp: "send env t ReqCtx SSavepoint s = (a, s1)" "exec_err a = None"
    and f: "fn \<lparr>htx = t, hdaemon_tx = False, hroad_key = False\<rparr> s1 = (Inr v, s2)"
    and l: "log_request env r t ReqCtx q (request_status (sreq s2)) [] s2 = (None, s3)"
    and c: "commit_tx env t ReqCtx s3 = (None, s')"
    by (auto simp: do_handler_def Let_def split: prod.splits sum.splits option.splits)
  from sendD [OF sp(1)] sp(2) assms(3) have "tx_run t (strace s1) = TOpen b (Some [])" "sreq s1 = sreq s" by auto
  with handler_view(2) [OF assms(2) f, of b] have t2: "tx_run t (strace s2) = TOpen b (Some (new_work s1 s2))" by simp
  from log_requestD [OF l] obtain i where
    "strace s3 = strace s2 @ [Ev t ReqCtx (log_stmt r q (request_status (sreq s2)) []) (ALog i)]"
    "sreq s3 = map_option (\<lambda>q. q\<lparr>qlog_id := i\<rparr>) (sreq s2)" by auto
  with t2 commitD [OF c] have "durable t (strace s') = b @ new_work s1 s2 @ [(log_stmt r q (request_status (sreq s2)) [], ALog i)]"
    "log_is i s'" "same_status s2 s'" by (auto simp: durable_def intro: log_is_map same_status_map)
  with f Some \<open>sreq s1 = sreq s\<close> show ?thesis by auto
qed

text \<open>What an error may leave behind: nothing, with \<open>LogID\<close> 0, or the journal line \<open>w\<close> with its number.\<close>

definition leaves :: "nat \<Rightarrow> work \<Rightarrow> stmt \<Rightarrow> (int \<Rightarrow> answer) \<Rightarrow> pst \<Rightarrow> bool" where
  "leaves t b line ans s \<longleftrightarrow> durable t (strace s) = [] \<and> log_is 0 s
     \<or> (\<exists>i. durable t (strace s) = b @ [(line, ans i)] \<and> log_is i s)"

lemma leaves_rollback [simp]: "leaves t b l f (rollback_tx env u c s) = leaves t b l f s"
  by (simp add: leaves_def)

lemma leaves_nothing: "durable t (strace s) = [] \<Longrightarrow> log_is 0 s \<Longrightarrow> leaves t b l f s"
  by (simp add: leaves_def)

abbreviation refusal_stmt :: "runner \<Rightarrow> preq \<Rightarrow> goerr \<Rightarrow> stmt" where
  "refusal_stmt r q p \<equiv> log_stmt r q (fst (refusal_line p)) (snd (refusal_line p))"

lemma journal_refusal_leaves:
  assumes "tx_run t (strace s) = TOpen b sp"
  shows "leaves t (sofar b sp) (refusal_stmt r q p) ALog (journal_refusal env r t q p s)"
  using journal_refusal_view [OF assms, of p "fst (refusal_line p)" "snd (refusal_line p)" env r q]
  by (auto simp: leaves_def dest: log_is_journalled)

lemma durable_explain [simp]: "t \<noteq> 0 \<Longrightarrow> durable t (strace (snd (explain env r e s))) = durable t (strace s)"
  by (simp add: durable_def)

lemma explainD: "explain env r e s = (p, s1) \<Longrightarrow> as_problem p \<noteq> None \<and> snext s1 = snext s \<and> sreq s1 = sreq s
    \<and> (\<forall>t. t \<noteq> 0 \<longrightarrow> tx_run t (strace s1) = tx_run t (strace s))"
  using explain_is_problem [of env r e s] explain_frame(1,2) [of env r e s] explain_frame(3) [of _ env r e s] by (metis fst_conv snd_conv)

lemma do_handler_error:
  assumes "do_handler env r fn t jq s = (Inl p, s')" "handler_ok fn" "tx_run t (strace s) = TOpen b None" "t \<noteq> 0" "log_is 0 s"
  shows "as_problem p \<noteq> None \<and> (case jq of None \<Rightarrow> durable t (strace s') = [] \<and> log_is 0 s'
      | Some q \<Rightarrow> leaves t b (refusal_stmt r q p) ALog s')"
proof -
  let ?h = "\<lparr>htx = t, hdaemon_tx = False, hroad_key = False\<rparr>"
  obtain e s1 where sp: "(case jq of None \<Rightarrow> (None, s)
            | Some _ \<Rightarrow> (let (a, s') = send env t ReqCtx SSavepoint s in (exec_err a, s'))) = (e, s1)" by force
  then have s1: "sreq s1 = sreq s" "log_is 0 s1" using assms(5) by (auto simp: log_is_def split: option.splits prod.splits dest: sendD)
  have open1: "tx_run t (strace s1) = (case jq of None \<Rightarrow> TOpen b None | Some _ \<Rightarrow> TOpen b (Some []))" if "e = None"
    using sp assms(3) that by (auto split: option.splits prod.splits dest: sendD)
  have open1': "\<exists>b sp. tx_run t (strace s1) = TOpen b sp"
    using sp assms(3) by (cases e) (auto split: option.splits prod.splits dest!: sendD)
  show ?thesis
  proof (cases e)
    case (Some x)
    then show ?thesis using assms(1) s1 open1' by (auto simp: do_handler_def sp leaves_def split: option.splits)
  next
    case None
    obtain x s2 where f: "fn ?h s1 = (x, s2)" by force
    note hv = handler_view [OF assms(2) f]
    have l2: "log_is 0 s2" using log_is_same [OF s1(2) hv(5)] .
    obtain sp2 b2 where o2: "tx_run t (strace s2) = TOpen b2 sp2" "jq \<noteq> None \<Longrightarrow> b2 = b \<and> sp2 \<noteq> None"
      using open1 [OF None] hv(1,2) [of b] by (cases jq) auto
    show ?thesis
    proof (cases x)
      case (Inl err)
      obtain p' s3 where ex: "explain env r err s2 = (p', s3)" by force
      note D = explainD [OF ex]
      show ?thesis
      proof (cases jq)
        case jn: None
        with assms(1) Inl ex None sp f have "p = p'" "s' = s3" by (auto simp: do_handler_def Let_def)
        with D o2 assms(4) jn show ?thesis using log_is_eq [OF _ l2] by auto
      next
        case (Some q)
        obtain a s4 where rb: "send env t JournalCtx SRollbackTo s3 = (a, s4)" by force
        with assms(1) Inl ex None sp f Some
        have p: "p = p'" "s' = (if exec_err a = None then journal_refusal env r t q p s4 else s4)" by (auto simp: do_handler_def Let_def)
        show ?thesis
        proof (cases "exec_err a")
          case None
          with sendD [OF rb] D o2 Some assms(4) have "tx_run t (strace s4) = TOpen b (Some [])" by auto
          with journal_refusal_leaves [OF this, of r q p env] p D None Some show ?thesis by auto
        next
          case (Some y)
          with sendD [OF rb] D o2 assms(4) p log_is_eq [OF _ l2, of s4] show ?thesis by (auto simp: leaves_def split: option.splits)
        qed
      qed
    next
      case (Inr v)
      obtain e3 s3 where lr: "(case jq of None \<Rightarrow> (None, s2)
          | Some q \<Rightarrow> log_request env r t ReqCtx q (request_status (sreq s2)) [] s2) = (e3, s3)" by force
      have o3: "\<exists>b sp. tx_run t (strace s3) = TOpen b sp" "e3 \<noteq> None \<Longrightarrow> sreq s3 = sreq s2"
        using lr o2 by (auto split: option.splits dest!: log_requestD)
      have "as_problem p \<noteq> None \<and> durable t (strace s') = [] \<and> log_is 0 s'"
      proof (cases e3)
        case (Some err)
        with assms(1) Inr None sp f lr obtain q' where "explain env r err s3 = (q', s')" "p = q'"
          by (auto simp: do_handler_def Let_def split: prod.splits)
        with explainD [OF this(1)] o3 assms(4) Some log_is_eq [OF _ l2, of s'] show ?thesis by auto
      next
        case none3: None
        obtain e4 s4 where cm: "commit_tx env t ReqCtx s3 = (e4, s4)" by force
        with assms(1) Inr None sp f lr none3 obtain err where e4: "e4 = Some err" "explain env r err (set_log_id 0 s4) = (p, s')"
          by (auto simp: do_handler_def Let_def split: prod.splits option.splits)
        from explainD [OF e4(2)] commitD [OF cm] o3 assms(4) e4(1) show ?thesis
          by (auto simp: durable_def intro: log_is_map)
      qed
      then show ?thesis by (auto simp: leaves_def split: option.splits)
    qed
  qed
qed

section \<open>Frames: which transactions a step can touch\<close>

definition touches :: "nat set \<Rightarrow> pst \<Rightarrow> pst \<Rightarrow> bool" where
  "touches T s s' \<longleftrightarrow> (\<exists>es. strace s' = strace s @ es \<and> (\<forall>e \<in> set es. etx e \<in> T)) \<and> snext s \<le> snext s'"

lemma touches_trans [trans]: "touches T s s1 \<Longrightarrow> touches T s1 s2 \<Longrightarrow> touches T s s2"
  unfolding touches_def by fastforce

lemma touches_mono: "touches T s s' \<Longrightarrow> T \<subseteq> U \<Longrightarrow> touches U s s'"
  unfolding touches_def by blast

lemma touches_refl [simp]: "touches T s s"
  by (simp add: touches_def)

lemma touches_log [simp]: "touches T s (set_log_id i s') = touches T s s'"
  by (simp add: touches_def)

lemma touches_tx: "touches T s s' \<Longrightarrow> t \<notin> T \<Longrightarrow> tx_run t (strace s') = tx_run t (strace s)"
  unfolding touches_def using tx_run_other by metis

lemma touches_durable: "touches T s s' \<Longrightarrow> t \<notin> T \<Longrightarrow> durable t (strace s') = durable t (strace s)"
  by (simp add: durable_def touches_tx)

lemma touches_fresh: "touches T s s' \<Longrightarrow> fresh s \<Longrightarrow> \<forall>t \<in> T. t \<le> snext s' \<Longrightarrow> fresh s'"
  unfolding touches_def fresh_def list_all_iff by (auto intro: order_trans)

named_theorems touch

lemma touches_send [touch]: "t \<in> T \<Longrightarrow> touches T s (snd (send env t c q s))"
  by (simp add: touches_def)

lemma touches_commit [touch]: "t \<in> T \<Longrightarrow> touches T s (snd (commit_tx env t c s))"
  by (simp add: commit_tx_def Let_def touches_send split: prod.splits) (metis snd_conv touches_send)

lemma touches_logreq [touch]: "t \<in> T \<Longrightarrow> touches T s (snd (log_request env r t c q st code s))"
  by (cases "log_request env r t c q st code s") (auto simp: touches_def dest!: log_requestD)

lemma touches_explain [touch]: "0 \<in> T \<Longrightarrow> touches T s (snd (explain env r e s))"
  using explain_pool [of env r e s] by (force simp: touches_def)

lemma touches_explain_log [touch]: "0 \<in> T \<Longrightarrow> touches T s (snd (explain env r e (set_log_id i s)))"
  using touches_explain [of T "set_log_id i s" env r e] by (simp add: touches_def)

lemma touches_rollback [touch]: "t \<in> T \<Longrightarrow> touches T s (rollback_tx env t c s)"
  by (simp add: rollback_tx_def touches_def)

lemma touches_handler: "handler_ok fn \<Longrightarrow> htx h \<in> T \<Longrightarrow> touches T s (snd (fn h s))"
  unfolding handler_ok_def step_ok_def calls_only_events touches_def call_event_def list_all_iff
  by (metis order_refl)

text \<open>The rules that follow the structure of a step: a sequence, a case, a conditional.\<close>

lemma touches_seq [touch]: "touches T s (snd m) \<Longrightarrow> (\<And>a s1. touches T s1 (snd (k a s1))) \<Longrightarrow>
    touches T s (snd (case m of (a, s1) \<Rightarrow> k a s1))"
  by (cases m) (auto intro: touches_trans)

lemma touches_seq' [touch]: "touches T s (snd m) \<Longrightarrow> (\<And>a s1. touches T s1 (k a s1)) \<Longrightarrow>
    touches T s (case m of (a, s1) \<Rightarrow> k a s1)"
  by (cases m) (auto intro: touches_trans)

lemma touches_cases [touch]:
  "touches T s (snd n) \<Longrightarrow> (\<And>y. touches T s (snd (f y))) \<Longrightarrow> touches T s (snd (case x of None \<Rightarrow> n | Some y \<Rightarrow> f y))"
  "touches T s n' \<Longrightarrow> (\<And>y. touches T s (f' y)) \<Longrightarrow> touches T s (case x of None \<Rightarrow> n' | Some y \<Rightarrow> f' y)"
  "(\<And>y. touches T s (snd (g y))) \<Longrightarrow> (\<And>y. touches T s (snd (h y))) \<Longrightarrow> touches T s (snd (case z of Inl y \<Rightarrow> g y | Inr y \<Rightarrow> h y))"
  "(\<And>y. touches T s (g' y)) \<Longrightarrow> (\<And>y. touches T s (h' y)) \<Longrightarrow> touches T s (case z of Inl y \<Rightarrow> g' y | Inr y \<Rightarrow> h' y)"
  "touches T s (snd a) \<Longrightarrow> touches T s (snd b) \<Longrightarrow> touches T s (snd (if c then a else b))"
  "touches T s a' \<Longrightarrow> touches T s b' \<Longrightarrow> touches T s (if c then a' else b')"
  by (simp_all split: option.splits sum.splits)

lemma touches_pair [touch]: "touches T s s' \<Longrightarrow> touches T s (snd (x, s'))"
  by simp

lemma touches_done [touch]: "touches T s s"
  by simp

lemma touches_set [touch]: "touches T s s' \<Longrightarrow> touches T s (set_log_id i s')"
  by simp

lemma touches_journal [touch]: "t \<in> T \<Longrightarrow> touches T s (journal_refusal env r t q p s)"
  unfolding journal_refusal_def Let_def
  by (cases "refusal_line p") (simp only: prod.case, intro touch; simp)

lemma do_handler_touches [touch]: "handler_ok fn \<Longrightarrow> touches {0, t} s (snd (do_handler env r fn t jq s))"
  unfolding do_handler_def Let_def by (intro touch touches_handler [where fn = fn]; simp)

section \<open>The direct road keeps its promises\<close>

lemma pool_beginD: "pool_begin env c s = (b, s1) \<Longrightarrow>
    \<exists>a. strace s1 = strace s @ [Ev (Suc (snext s)) c SBegin a] \<and> snext s1 = Suc (snext s) \<and> sreq s1 = sreq s
      \<and> b = (case exec_err a of Some e \<Rightarrow> Inl e | None \<Rightarrow> Inr (Suc (snext s)))"
  by (auto simp: pool_begin_def Let_def dest!: sendD split: prod.splits)

lemma pool_begin_open: "pool_begin env c s = (Inr t, s1) \<Longrightarrow> fresh s \<Longrightarrow>
    t = Suc (snext s) \<and> tx_run t (strace s1) = TOpen [] None \<and> snext s1 = t \<and> sreq s1 = sreq s \<and> fresh s1
    \<and> (\<forall>u. u \<noteq> t \<longrightarrow> tx_run u (strace s1) = tx_run u (strace s))"
  by (drule pool_beginD) (auto simp: fresh_none fresh_def list_all_iff split: option.splits, simp add: le_SucI)

lemma fresh_set_log [simp]: "fresh (set_log_id i s) = fresh s"
  by (simp add: fresh_def)

lemma log_stmt_log_id [simp]: "log_stmt r (q\<lparr>qlog_id := i\<rparr>) st code = log_stmt r q st code"
  by (simp add: log_stmt_def payload_of_def)

text \<open>The journal line the request has, when the database journals.\<close>

definition journal_req :: "runner \<Rightarrow> pst \<Rightarrow> preq option" where
  "journal_req r s = (if f_log_request (r_features r) then sreq s else None)"

lemma do_direct_kept:
  assumes "do_direct env r sess fn s = (Inr v, s')" "handler_ok fn" "fresh s"
  shows "\<exists>m s1 s2. fn \<lparr>htx = Suc (snext s), hdaemon_tx = False, hroad_key = False\<rparr> s1 = (Inr v, s2) \<and>
     sreq s1 = map_option (\<lambda>q. q\<lparr>qlog_id := 0\<rparr>) (sreq s) \<and> same_status s2 s' \<and>
     (let auth = (SAuthorize (authorize_sql r) (s_code sess) (nil_if_empty (s_agent sess)) (sess_host sess), AAuth True m) in
      case journal_req r s of None \<Rightarrow> durable (Suc (snext s)) (strace s') = auth # new_work s1 s2
      | Some q \<Rightarrow> \<exists>i. durable (Suc (snext s)) (strace s')
             = auth # new_work s1 s2 @ [(log_stmt r q (request_status (sreq s2)) [], ALog i)] \<and> log_is i s')"
proof -
  from assms(1) obtain t s1 s2 where b: "pool_begin env BeginCtx (set_log_id 0 s) = (Inr t, s1)"
    and body: "do_body env r sess fn t s1 = (Inr v, s2)" and s': "s' = rollback_tx env t DetachedCtx s2"
    by (auto simp: do_direct_def Let_def split: prod.splits sum.splits)
  note o = pool_begin_open [OF b]
  let ?q = "SAuthorize (authorize_sql r) (s_code sess) (nil_if_empty (s_agent sess)) (sess_host sess)"
  define jq where "jq = (if f_log_request (r_features r) then sreq s1 else None)"
  from body obtain a s3 m where a: "send env t ReqCtx ?q s1 = (a, s3)" "scan_auth a = Inr (True, m)"
    and h: "do_handler env r fn t jq s3 = (Inr v, s2)"
    by (auto simp: do_body_def Let_def jq_def split: prod.splits sum.splits if_splits)
  from a(2) have "a = AAuth True m" by (auto simp: scan_auth_def split: answer.splits)
  with sendD [OF a(1)] o assms(3) have open3: "tx_run t (strace s3) = TOpen [(?q, AAuth True m)] None" by auto
  have "same_status s2 (rollback_tx env t DetachedCtx s2')" if "same_status s2 s2'" for s2 s2'
    using that by (simp add: same_status_def)
  with do_handler_kept [OF h assms(2) open3] o assms(3) sendD [OF a(1)] show ?thesis
    by (fastforce simp: s' jq_def journal_req_def Let_def split: option.splits if_splits)
qed

text \<open>What a refused request leaves: no call at all, and at most one journal line, alone with the statement that
  authorized the session; \<open>LogID\<close> is the number of that line, 0 without one.\<close>

definition is_opening :: "stmt \<Rightarrow> bool" where
  "is_opening q = (case q of SAuthorize _ _ _ _ \<Rightarrow> True | _ \<Rightarrow> False)"

lemma is_opening_not_call: "is_opening q \<Longrightarrow> \<not> is_call q"
  by (simp add: is_opening_def is_call_def split: stmt.splits)

definition refusal_kept :: "(preq \<Rightarrow> stmt) \<Rightarrow> (int \<Rightarrow> answer) \<Rightarrow> preq option \<Rightarrow> pst \<Rightarrow> pst \<Rightarrow> bool" where
  "refusal_kept line ans jq s s' \<longleftrightarrow>
     (\<forall>u. snext s < u \<longrightarrow> durable u (strace s') = []) \<and> log_is 0 s'
   \<or> (\<exists>t q i pre. snext s < t \<and> jq = Some q \<and> durable t (strace s') = pre @ [(line q, ans i)]
        \<and> list_all (\<lambda>w. is_opening (fst w)) pre \<and> log_is i s' \<and> (\<forall>u. snext s < u \<longrightarrow> u \<noteq> t \<longrightarrow> durable u (strace s') = []))"

lemma refusal_keptI:
  assumes "case jq of None \<Rightarrow> durable t (strace s') = [] \<and> log_is 0 s' | Some q \<Rightarrow> leaves t b (line q) ans s'"
    and "snext s < t" "list_all (\<lambda>w. is_opening (fst w)) b" "\<And>u. snext s < u \<Longrightarrow> u \<noteq> t \<Longrightarrow> durable u (strace s') = []"
  shows "refusal_kept line ans jq s s'"
proof (cases "durable t (strace s') = [] \<and> log_is 0 s'")
  case True
  then show ?thesis using assms(4) unfolding refusal_kept_def by (metis)
next
  case False
  with assms(1) obtain q i where "jq = Some q" "durable t (strace s') = b @ [(line q, ans i)]" "log_is i s'"
    by (auto simp: leaves_def split: option.splits)
  then show ?thesis using assms(2-4) unfolding refusal_kept_def by blast
qed

lemma durable_begin: "pool_begin env c s = (f, s1) \<Longrightarrow> fresh s \<Longrightarrow> durable u (strace s1) = durable u (strace s)"
proof -
  assume b: "pool_begin env c s = (f, s1)" and f: "fresh s"
  obtain a where "strace s1 = strace s @ [Ev (Suc (snext s)) c SBegin a]" using pool_beginD [OF b] by blast
  then show ?thesis using fresh_none [OF f, of "Suc (snext s)"]
    by (cases "u = Suc (snext s)"; cases "exec_err a") (simp_all add: durable_def)
qed

text \<open>A refusal that aborted the transaction is journalled in a fresh one.\<close>

lemma journal_fresh_kept:
  assumes "fresh s" "snext s = t" "snext s0 < t" "log_is 0 s" and d: "\<And>u. snext s0 < u \<Longrightarrow> durable u (strace s) = []"
  shows "refusal_kept (\<lambda>q. refusal_stmt r q p) ALog jq s0
    (case jq of None \<Rightarrow> s
     | Some q \<Rightarrow> (let (f, s3) = pool_begin env JournalCtx (rollback_tx env t JournalCtx s) in
         case f of Inl _ \<Rightarrow> s3 | Inr u \<Rightarrow> rollback_tx env u JournalCtx (journal_refusal env r u q p s3)))"
proof (cases jq)
  case None
  then show ?thesis using assms by (simp add: refusal_kept_def)
next
  case (Some q)
  define s1 where "s1 = rollback_tx env t JournalCtx s"
  have f1: "fresh s1" unfolding s1_def
    using touches_fresh [OF touches_rollback [of t "{t}"] assms(1)] assms(2) by simp
  obtain f s3 where b: "pool_begin env JournalCtx s1 = (f, s3)" by force
  have d3: "durable u (strace s3) = []" if "snext s0 < u" for u
    using durable_begin [OF b f1, of u] d [OF that] by (simp add: s1_def)
  have l3: "log_is 0 s3" using pool_beginD [OF b] assms(4) by (auto simp: log_is_def s1_def)
  show ?thesis
  proof (cases f)
    case (Inl e)
    then show ?thesis using Some b d3 l3 by (simp add: refusal_kept_def s1_def)
  next
    case (Inr u)
    with pool_begin_open [OF b [unfolded Inr] f1] have u: "u = Suc t" "tx_run u (strace s3) = TOpen [] None"
      using assms(2) by (auto simp: s1_def)
    have "durable v (strace (journal_refusal env r u q p s3)) = []" if "snext s0 < v" "v \<noteq> u" for v
      using d3 [OF that(1)] journal_refusal_frame(2) [OF that(2), of env r q p s3] by (simp add: durable_def)
    with journal_refusal_leaves [OF u(2), of r q p env] Some Inr b u(1) assms(3) show ?thesis
      by (auto intro!: refusal_keptI [where t = u and b = "[]"] simp: s1_def)
  qed
qed

lemma do_body_error:
  assumes "do_body env r sess fn t s = (Inl p, s')" "handler_ok fn" "tx_run t (strace s) = TOpen [] None"
    and "fresh s" "snext s = t" "t \<noteq> 0" "log_is 0 s" "s0 = s\<lparr>snext := n\<rparr>" "n < t" "\<And>u. n < u \<Longrightarrow> u \<noteq> t \<Longrightarrow> durable u (strace s) = []"
  shows "as_problem p \<noteq> None \<and> refusal_kept (\<lambda>q. refusal_stmt r q p) ALog (journal_req r s) s0 s'"
proof -
  let ?q = "SAuthorize (authorize_sql r) (s_code sess) (nil_if_empty (s_agent sess)) (sess_host sess)"
  define jq where "jq = journal_req r s"
  obtain a s1 where a: "send env t ReqCtx ?q s = (a, s1)" by force
  note D = sendD [OF a]
  have o1: "tx_run t (strace s1) = TOpen [(?q, a)] None" using D assms(3) by auto
  have f1: "\<And>u. n < u \<Longrightarrow> u \<noteq> t \<Longrightarrow> durable u (strace s1) = []" using D assms(10) by (auto simp: durable_def)
  have l1: "log_is 0 s1" using D assms(7) by (simp add: log_is_def)
  show ?thesis
  proof (cases "scan_auth a")
    case (Inr x)
    obtain ok m where x: "x = (ok, m)" by force
    show ?thesis
    proof (cases ok)
      case True
      with assms(1) a Inr x have h: "do_handler env r fn t jq s1 = (Inl p, s')"
        by (auto simp: do_body_def Let_def jq_def journal_req_def split: prod.splits)
      have "touches {0, t} s1 s'" using do_handler_touches [OF assms(2), of t s1 env r jq] h by simp
      then have "durable u (strace s') = []" if "n < u" "u \<noteq> t" for u using f1 [OF that] touches_durable that by fastforce
      with do_handler_error [OF h assms(2) o1 assms(6) l1] assms(8,9) show ?thesis
        by (auto intro!: refusal_keptI [where t = t and b = "[(?q, a)]"] simp: jq_def is_opening_def)
    next
      case False
      define p' where "p' = EProblem (unauthorized (Some (title r)) code_login_failed (case m of None \<Rightarrow> [] | Some m \<Rightarrow> m))"
      with assms(1) a Inr x False have p: "p = p'" "s' = (case jq of None \<Rightarrow> s1 | Some q \<Rightarrow> journal_refusal env r t q p s1)"
        by (auto simp: do_body_def Let_def jq_def journal_req_def split: prod.splits)
      have "touches {t} s1 s'" unfolding p(2) by (intro touch; simp)
      then have "durable u (strace s') = []" if "n < u" "u \<noteq> t" for u using f1 [OF that] touches_durable that by fastforce
      then show ?thesis using journal_refusal_leaves [OF o1] o1 l1 assms(8,9)
        by (auto intro!: refusal_keptI [where t = t and b = "[(?q, a)]"] simp: p p'_def jq_def is_opening_def split: option.splits)
    qed
  next
    case (Inl err)
    obtain p' s2 where ex: "explain env r err s1 = (p', s2)" by force
    note E = explainD [OF ex]
    have d2: "durable u (strace s2) = []" if "n < u" for u
      using that E o1 f1 assms(6,9) by (cases "u = t") (auto simp: durable_def)
    have "fresh s2" "snext s2 = t" "log_is 0 s2"
      using touches_fresh [of "{0, t}" s s2] touches_send [of t "{0, t}" s env ReqCtx ?q] touches_explain [of "{0, t}" s1 env r err]
        assms(4,5) D E a ex l1 touches_trans by (auto simp: log_is_def)
    from journal_fresh_kept [OF this(1,2) _ this(3), of s0 r p' jq env] d2 assms(8,9) E
    show ?thesis using assms(1) a Inl ex by (auto simp: do_body_def Let_def jq_def journal_req_def split: prod.splits)
  qed
qed

lemma refusal_kept_map:
  "refusal_kept line ans (map_option f jq) s s' \<Longrightarrow> (\<And>q. line (f q) = line q) \<Longrightarrow> refusal_kept line ans jq s s'"
  unfolding refusal_kept_def by (auto simp: map_option_case split: option.splits)

lemma refusal_kept_rollback [simp]: "refusal_kept line ans jq s (rollback_tx env t c s') = refusal_kept line ans jq s s'"
  by (simp add: refusal_kept_def)

lemma refusal_kept_snext: "snext s = snext s0 \<Longrightarrow> refusal_kept line ans jq s s' = refusal_kept line ans jq s0 s'"
  by (simp add: refusal_kept_def)

lemma fresh_durable: "fresh s \<Longrightarrow> snext s < u \<Longrightarrow> durable u (strace s) = []"
  by (simp add: durable_def fresh_none)

lemma begin_failed_kept:
  assumes "pool_begin env c (set_log_id 0 s) = (Inl e, s')" "fresh s"
  shows "refusal_kept line ans jq s s'"
  using durable_begin [OF assms(1)] fresh_durable [OF assms(2)] pool_beginD [OF assms(1)] assms(2)
  by (auto simp: refusal_kept_def intro!: log_is_map [of s' 0 "sreq s"])

lemma do_direct_error:
  assumes "do_direct env r sess fn s = (Inl p, s')" "handler_ok fn" "fresh s"
  shows "as_problem p \<noteq> None \<and> refusal_kept (\<lambda>q. refusal_stmt r q p) ALog (journal_req r s) s s'"
proof -
  obtain b s1 where b: "pool_begin env BeginCtx (set_log_id 0 s) = (b, s1)" by force
  show ?thesis
  proof (cases b)
    case (Inl e)
    with assms(1) b begin_failed_kept [OF b [unfolded Inl] assms(3)] show ?thesis
      by (auto simp: do_direct_def)
  next
    case (Inr t)
    note o = pool_begin_open [OF b [unfolded Inr], simplified, OF assms(3)]
    obtain res s2 where body: "do_body env r sess fn t s1 = (res, s2)" by force
    with assms(1) b Inr have res: "res = Inl p" "s' = rollback_tx env t DetachedCtx s2" by (auto simp: do_direct_def)
    have d: "durable u (strace s1) = []" if "snext s < u" for u
      using durable_begin [OF b] fresh_durable [OF assms(3) that] assms(3) by simp
    have l: "log_is 0 s1" using o by (auto intro: log_is_map)
    from do_body_error [OF body [unfolded res] assms(2) _ _ _ _ l refl, of "snext s"] o d
    have k: "as_problem p \<noteq> None \<and> refusal_kept (\<lambda>q. refusal_stmt r q p) ALog (journal_req r s1) (s1\<lparr>snext := snext s\<rparr>) s2"
      by auto
    have "journal_req r s1 = map_option (\<lambda>q. q\<lparr>qlog_id := 0\<rparr>) (journal_req r s)" using o by (auto simp: journal_req_def)
    with k refusal_kept_map [of "\<lambda>q. refusal_stmt r q p" ALog "\<lambda>q. q\<lparr>qlog_id := 0\<rparr>" "journal_req r s" s s2]
    show ?thesis using refusal_kept_snext [of "s1\<lparr>snext := snext s\<rparr>" s] by (simp add: res)
  qed
qed

text \<open>A request only uses transactions it began itself, and the pool.\<close>

definition since :: "nat \<Rightarrow> pst \<Rightarrow> pst \<Rightarrow> bool" where
  "since n s s' \<longleftrightarrow> (\<exists>es. strace s' = strace s @ es \<and> (\<forall>e \<in> set es. etx e = 0 \<or> n < etx e \<and> etx e \<le> snext s')) \<and> snext s \<le> snext s'"

lemma since_trans: "since n s s1 \<Longrightarrow> since n s1 s2 \<Longrightarrow> since n s s2"
  unfolding since_def by auto (fastforce dest: bspec)+

lemma since_touches: "touches T s s' \<Longrightarrow> (\<And>t. t \<in> T \<Longrightarrow> t = 0 \<or> n < t \<and> t \<le> snext s) \<Longrightarrow> since n s s'"
  unfolding touches_def since_def by (metis order_trans)

lemma since_begin: "pool_begin env c s = (b, s1) \<Longrightarrow> n \<le> snext s \<Longrightarrow> since n s s1"
  by (drule pool_beginD) (auto simp: since_def)

lemma since_log [simp]: "since n (set_log_id i s) s' = since n s s'" "since n s (set_log_id i s') = since n s s'"
  by (simp_all add: since_def)

lemma since_fresh: "since n s s' \<Longrightarrow> fresh s \<Longrightarrow> fresh s'"
  unfolding since_def fresh_def list_all_iff by auto (fastforce dest: bspec)+

lemma since_durable: "since n s s' \<Longrightarrow> u \<noteq> 0 \<Longrightarrow> u \<le> n \<Longrightarrow> durable u (strace s') = durable u (strace s)"
  unfolding since_def durable_def using tx_run_other [of _ u "strace s"] by fastforce

lemma do_body_since:
  assumes "handler_ok fn" "n < t" "snext s = t"
  shows "since n s (snd (do_body env r sess fn t s))"
proof -
  let ?q = "SAuthorize (authorize_sql r) (s_code sess) (nil_if_empty (s_agent sess)) (sess_host sess)"
  obtain a s1 where a: "send env t ReqCtx ?q s = (a, s1)" by force
  have t01: "touches {0, t} s s1" using touches_send [of t "{0, t}" s env ReqCtx ?q] a by simp
  show ?thesis
  proof (cases "scan_auth a")
    case (Inr x)
    have "touches {0, t} s1 (snd (do_body env r sess fn t s))"
      using a Inr do_handler_touches [OF assms(1), of t s1] touches_journal [of t "{0, t}" s1]
      by (cases x) (auto simp: do_body_def Let_def split: option.splits)
    with t01 show ?thesis using touches_trans since_touches [where T = "{0, t}"] assms by blast
  next
    case (Inl err)
    obtain p s2 where ex: "explain env r err s1 = (p, s2)" by force
    define s3 where "s3 = rollback_tx env t JournalCtx s2"
    have "touches {0, t} s1 s2" using touches_explain [of "{0, t}" s1 env r err] ex by simp
    moreover have "touches {0, t} s2 s3" unfolding s3_def by (rule touches_rollback) simp
    ultimately have s3: "since n s s2" "since n s s3"
      using t01 touches_trans since_touches [where T = "{0, t}"] assms by blast+
    obtain f s4 where b: "pool_begin env JournalCtx s3 = (f, s4)" by force
    have n3: "n \<le> snext s3" using s3(2) assms by (simp add: since_def)
    have "since n s4 (rollback_tx env u JournalCtx (journal_refusal env r u q p s4))" if "f = Inr u" for u q
    proof -
      have "touches {u} s4 (rollback_tx env u JournalCtx (journal_refusal env r u q p s4))"
        by (meson touches_trans touches_rollback touches_journal singletonI)
      with pool_beginD [OF b] n3 that show ?thesis by (intro since_touches [where T = "{u}"]) (auto split: option.splits)
    qed
    with s3 since_trans [OF s3(2) since_begin [OF b n3]] since_trans show ?thesis
      by (auto simp: do_body_def Let_def a Inl ex b simp flip: s3_def split: option.splits sum.splits)
  qed
qed

lemma do_direct_since:
  assumes "handler_ok fn" "fresh s"
  shows "since (snext s) s (snd (do_direct env r sess fn s))"
proof -
  obtain b s1 where b: "pool_begin env BeginCtx (set_log_id 0 s) = (b, s1)" by force
  have s1: "since (snext s) s s1" using since_begin [OF b, of "snext s"] by simp
  have "since (snext s) s1 (rollback_tx env t DetachedCtx (snd (do_body env r sess fn t s1)))" if "b = Inr t" for t
  proof -
    from pool_beginD [OF b] that have t: "t = Suc (snext s)" "snext s1 = t" by (auto split: option.splits)
    from do_body_since [OF assms(1) _ t(2), of "snext s" env r sess] t
    have d: "since (snext s) s1 (snd (do_body env r sess fn t s1))" by simp
    moreover have "since (snext s) (snd (do_body env r sess fn t s1)) (rollback_tx env t DetachedCtx (snd (do_body env r sess fn t s1)))"
      using d t by (intro since_touches [OF touches_rollback [of t "{t}"]]) (auto simp: since_def)
    ultimately show ?thesis by (rule since_trans)
  qed
  with s1 since_trans b show ?thesis by (auto simp: do_direct_def split: sum.splits prod.splits)
qed

section \<open>The daemon road keeps its promises\<close>

lemma end_requestD: "end_request env t c st text s = (e, s1) \<Longrightarrow>
    \<exists>a. strace s1 = strace s @ [Ev t c (SDaemonEnd st text) a] \<and> snext s1 = snext s
      \<and> (case e of Some _ \<Rightarrow> sreq s1 = sreq s
         | None \<Rightarrow> (\<exists>i. a = AEnd i \<and> sreq s1 = (case i of None \<Rightarrow> sreq s | Some k \<Rightarrow> map_option (\<lambda>q. q\<lparr>qlog_id := k\<rparr>) (sreq s))))"
  by (auto simp: end_request_def Let_def scan_end_def dest!: sendD split: prod.splits sum.splits answer.splits)
    (auto split: option.splits)

lemma touches_end [touch]: "t \<in> T \<Longrightarrow> touches T s (snd (end_request env t c st text s))"
  by (cases "end_request env t c st text s") (auto simp: touches_def dest!: end_requestD)

lemma touches_salvage: "t \<in> T \<Longrightarrow> touches T s (salvage env t s)"
  unfolding salvage_def Let_def by (intro touch; simp)

lemma touches_salvage_log [touch]: "t \<in> T \<Longrightarrow> touches T s (salvage env t (set_log_id i s))"
  using touches_salvage [of t T "set_log_id i s" env] by (simp add: touches_def)

lemma touches_refusal [touch]: "0 \<in> T \<Longrightarrow> touches T s (snd (refusal env r st c m s))"
  using catalogue_title_pool [of env r] unfolding refusal_def Let_def
  by (auto simp: touches_def split: prod.splits option.splits) (metis order_refl snd_conv)+

lemma refusal_frame [simp]: "sreq (snd (refusal env r st c m s)) = sreq s" "as_problem (fst (refusal env r st c m s)) \<noteq> None"
  using catalogue_title_pool [of env r] by (auto simp: refusal_def Let_def split: prod.splits option.splits) (metis snd_conv)+

lemma salvage_view: "tx_run t (strace s) = TOpen b (Some w) \<Longrightarrow>
    durable t (strace (salvage env t s)) \<in> {[], b} \<and> sreq (salvage env t s) = sreq s"
proof -
  assume o: "tx_run t (strace s) = TOpen b (Some w)"
  obtain a s1 where a: "send env t JournalCtx SRollbackTo s = (a, s1)" by force
  obtain e s2 where c: "commit_tx env t JournalCtx s1 = (e, s2)" by force
  from sendD [OF a] commitD [OF c] o show ?thesis
    by (cases "exec_err a") (auto simp: salvage_def a c durable_def)
qed

lemma daemon_handler_touches [touch]: "handler_ok fn \<Longrightarrow> touches {0, t} s (snd (daemon_handler env r fn t s))"
  unfolding daemon_handler_def Let_def by (intro touch touches_handler [where fn = fn]; simp)

lemma daemon_handler_kept:
  assumes "daemon_handler env r fn t s = (Inr v, s')" "handler_ok fn" "tx_run t (strace s) = TOpen b None"
  shows "\<exists>s1 s2 i. fn \<lparr>htx = t, hdaemon_tx = True, hroad_key = True\<rparr> s1 = (Inr v, s2) \<and> sreq s1 = sreq s
     \<and> durable t (strace s') = b @ new_work s1 s2 @ [(SDaemonEnd (request_status (sreq s2)) None, AEnd i)]
     \<and> (\<forall>k. i = Some k \<longrightarrow> log_is k s') \<and> same_status s2 s'"
proof -
  from assms(1) obtain a s1 s2 s3 where sp: "send env t ReqCtx SSavepoint s = (a, s1)" "exec_err a = None"
    and f: "fn \<lparr>htx = t, hdaemon_tx = True, hroad_key = True\<rparr> s1 = (Inr v, s2)"
    and e: "end_request env t ReqCtx (request_status (sreq s2)) None s2 = (None, s3)"
    and c: "commit_tx env t ReqCtx s3 = (None, s')"
    by (auto simp: daemon_handler_def Let_def split: prod.splits sum.splits option.splits if_splits)
  from sendD [OF sp(1)] sp(2) assms(3) have "tx_run t (strace s1) = TOpen b (Some [])" "sreq s1 = sreq s" by auto
  with handler_view(2) [OF assms(2) f, of b] have t2: "tx_run t (strace s2) = TOpen b (Some (new_work s1 s2))" by simp
  from end_requestD [OF e] obtain i where
    "strace s3 = strace s2 @ [Ev t ReqCtx (SDaemonEnd (request_status (sreq s2)) None) (AEnd i)]"
    "\<And>k. i = Some k \<Longrightarrow> sreq s3 = map_option (\<lambda>q. q\<lparr>qlog_id := k\<rparr>) (sreq s2)" "i = None \<Longrightarrow> sreq s3 = sreq s2" by auto
  moreover from this have "same_status s2 s3" by (cases i) (auto simp: same_status_def option.map_comp comp_def)
  ultimately have "durable t (strace s') = b @ new_work s1 s2 @ [(SDaemonEnd (request_status (sreq s2)) None, AEnd i)]"
    "\<forall>k. i = Some k \<longrightarrow> log_is k s'" "same_status s2 s'" using t2 commitD [OF c]
    by (auto simp: durable_def same_status_def intro: log_is_map)
  with f \<open>sreq s1 = sreq s\<close> show ?thesis by blast
qed

text \<open>What a request refused on the daemon road leaves: nothing, the line \<open>daemon.begin\<close> wrote, or that line completed
  with the status of the problem.\<close>

definition daemon_left :: "nat \<Rightarrow> work \<Rightarrow> goerr \<Rightarrow> pst \<Rightarrow> bool" where
  "daemon_left t b p s \<longleftrightarrow> durable t (strace s) \<in> {[], b} \<and> log_is 0 s
     \<or> (\<exists>text i. durable t (strace s) = b @ [(SDaemonEnd (fst (refusal_line p)) text, AEnd i)]
          \<and> log_is (case i of None \<Rightarrow> 0 | Some k \<Rightarrow> k) s)"

lemma refusal_of_status: "fst (refusal_of p cause) = fst (refusal_line p)"
  by (auto simp: refusal_of_def refusal_line_def split: option.splits)

lemma daemon_refusal_left:
  assumes "tx_run t (strace s) = TOpen b (Some [])" "log_is 0 s" "fst x = fst (refusal_line p)"
  shows "daemon_left t b p (snd (case end_request env t JournalCtx (fst x) (snd x) s of
            (Some _, s5) \<Rightarrow> (Inl p, salvage env t (set_log_id 0 s5))
          | (None, s5) \<Rightarrow> (let (e6, s6) = commit_tx env t JournalCtx s5 in
               (Inl p, case e6 of None \<Rightarrow> s6 | Some _ \<Rightarrow> set_log_id 0 s6))))"
proof -
  obtain e s5 where en: "end_request env t JournalCtx (fst x) (snd x) s = (e, s5)" by force
  from end_requestD [OF en] obtain a where a: "strace s5 = strace s @ [Ev t JournalCtx (SDaemonEnd (fst x) (snd x)) a]"
    and l: "case e of Some _ \<Rightarrow> sreq s5 = sreq s
       | None \<Rightarrow> (\<exists>i. a = AEnd i \<and> sreq s5 = (case i of None \<Rightarrow> sreq s | Some k \<Rightarrow> map_option (\<lambda>q. q\<lparr>qlog_id := k\<rparr>) (sreq s)))" by blast
  have o5: "tx_run t (strace s5) = TOpen b (Some [(SDaemonEnd (fst x) (snd x), a)])" using a assms(1) by simp
  show ?thesis
  proof (cases e)
    case (Some y)
    have "log_is 0 (salvage env t (set_log_id 0 s5))"
      using salvage_view [of t "set_log_id 0 s5"] o5 by (auto intro: log_is_map)
    with salvage_view [of t "set_log_id 0 s5" b] o5 Some en show ?thesis by (simp add: daemon_left_def)
  next
    case None
    with l obtain i where i: "a = AEnd i"
      "sreq s5 = (case i of None \<Rightarrow> sreq s | Some k \<Rightarrow> map_option (\<lambda>q. q\<lparr>qlog_id := k\<rparr>) (sreq s))" by auto
    obtain e6 s6 where c: "commit_tx env t JournalCtx s5 = (e6, s6)" by force
    have "log_is (case i of None \<Rightarrow> 0 | Some k \<Rightarrow> k) s6"
      using i(2) commitD [OF c] assms(2) by (cases i) (auto intro: log_is_map log_is_eq)
    with commitD [OF c] o5 None en c i assms(3) show ?thesis
      by (cases e6) (auto simp: daemon_left_def durable_def)
  qed
qed

lemma daemon_handler_error:
  assumes "daemon_handler env r fn t s = (Inl p, s')" "handler_ok fn" "tx_run t (strace s) = TOpen b None" "t \<noteq> 0" "log_is 0 s"
  shows "as_problem p \<noteq> None \<and> daemon_left t b p s'"
proof -
  obtain a s1 where sp: "send env t ReqCtx SSavepoint s = (a, s1)" by force
  note S = sendD [OF sp]
  show ?thesis
  proof (cases "exec_err a")
    case (Some x)
    then show ?thesis using assms S sp by (auto simp: daemon_handler_def daemon_left_def log_is_def)
  next
    case None
    then have o1: "tx_run t (strace s1) = TOpen b (Some [])" using S assms(3) by auto
    obtain x s2 where f: "fn \<lparr>htx = t, hdaemon_tx = True, hroad_key = True\<rparr> s1 = (x, s2)" by force
    note hv = handler_view [OF assms(2) f]
    have o2: "tx_run t (strace s2) = TOpen b (Some (new_work s1 s2))" using hv(2) [of b "[]"] o1 by simp
    have l2: "log_is 0 s2" using hv(5) S assms(5) by (auto intro: log_is_same log_is_eq)
    show ?thesis
    proof (cases x)
      case (Inl err)
      obtain p' s3 where ex: "explain env r err s2 = (p', s3)" by force
      obtain a2 s4 where rb: "send env t JournalCtx SRollbackTo s3 = (a2, s4)" by force
      note E = explainD [OF ex] and R = sendD [OF rb]
      have o4: "tx_run t (strace s4) = TOpen b (Some (if exec_err a2 = None then [] else new_work s1 s2))"
        using E R o2 assms(4) by (cases "exec_err a2") auto
      have l4: "log_is 0 s4" using E R l2 by (simp add: log_is_def)
      show ?thesis
      proof (cases "exec_err a2")
        case none2: None
        define X where "X = (case end_request env t JournalCtx (fst (refusal_of p' err)) (snd (refusal_of p' err)) s4 of
            (Some _, s5) \<Rightarrow> (Inl p' :: goerr + 'a, salvage env t (set_log_id 0 s5))
          | (None, s5) \<Rightarrow> (let (e6, s6) = commit_tx env t JournalCtx s5 in
               (Inl p', case e6 of None \<Rightarrow> s6 | Some _ \<Rightarrow> set_log_id 0 s6)))"
        have "daemon_left t b p' (snd X)" unfolding X_def
          by (rule daemon_refusal_left) (use o4 l4 none2 in \<open>simp_all add: refusal_of_status\<close>)
        moreover have "X = (Inl p, s')" using assms(1) None none2 sp f Inl ex rb by (simp add: daemon_handler_def X_def)
        moreover have "fst X = Inl p'" by (simp add: X_def split: prod.splits option.splits)
        ultimately show ?thesis using E by auto
      qed (use assms(1) None sp f Inl ex rb o4 l4 E in \<open>auto simp: daemon_handler_def daemon_left_def\<close>)
    next
      case (Inr v)
      obtain e3 s3 where en: "end_request env t ReqCtx (request_status (sreq s2)) None s2 = (e3, s3)" by force
      from end_requestD [OF en] o2 obtain w where o3: "tx_run t (strace s3) = TOpen b (Some w)" by auto
      show ?thesis
      proof (cases e3)
        case (Some y)
        with assms(1) None sp f Inr en have "p = internal ''end''" "s' = salvage env t (set_log_id 0 s3)"
          by (auto simp: daemon_handler_def Let_def)
        with salvage_view [of t "set_log_id 0 s3" b w env] o3 show ?thesis
          by (auto simp: daemon_left_def intro: log_is_map)
      next
        case none3: None
        obtain e4 s4 where cm: "commit_tx env t ReqCtx s3 = (e4, s4)" by force
        with assms(1) none3 sp f Inr en None obtain err where e4: "e4 = Some err" "explain env r err (set_log_id 0 s4) = (p, s')"
          by (auto simp: daemon_handler_def Let_def split: prod.splits option.splits)
        from explainD [OF e4(2)] commitD [OF cm] o3 assms(4) e4(1) show ?thesis
          by (auto simp: daemon_left_def durable_def intro: log_is_map)
      qed
    qed
  qed
qed

end
