(* ===== verification/Request_Road.thy ===== *)
theory Request_Road
  imports Road
begin

text \<open>
  The contract of the request road: the locale \<open>request_road\<close> states what \<open>Do\<close> promises the handlers of the
  packages, is interpreted on the direct road, on the daemon road and on \<open>run_do\<close> (the choice between
  them), and gives in return that the durable calls of a sequence of requests are the calls of the
  successful ones, in order.
\<close>

section \<open>The daemon road as a whole\<close>

lemma touches_tuple: "(\<And>a b c d. x = (a, b, c, d) \<Longrightarrow> touches T s (snd (k a b c d))) \<Longrightarrow>
    touches T s (snd (case x of (a, b, c, d) \<Rightarrow> k a b c d))"
  by (cases x) simp

lemma daemon_body_touches:
  "handler_ok fn \<Longrightarrow> touches {0, t} s (snd (daemon_body env r sess q fn t s))"
  unfolding daemon_body_def Let_def by (intro touch touches_tuple; simp)

lemma do_daemon_cases:
  assumes "do_daemon env r sess fn s = (res, s')" "fresh s"
  obtains (nil) "sreq s = None" "res = Inl (internal ''begin'')" "s' = s"
  | (failed) q e where "sreq s = Some q" "res = Inl (internal ''begin'')" "pool_begin env BeginCtx (set_log_id 0 s) = (Inl e, s')"
  | (body) q s1 s2 where "sreq s = Some q" "pool_begin env BeginCtx (set_log_id 0 s) = (Inr (Suc (snext s)), s1)"
      "daemon_body env r sess q fn (Suc (snext s)) s1 = (res, s2)" "s' = rollback_tx env (Suc (snext s)) DetachedCtx s2"
      "tx_run (Suc (snext s)) (strace s1) = TOpen [] None" "snext s1 = Suc (snext s)" "fresh s1" "log_is 0 s1"
      "\<And>u. snext s < u \<Longrightarrow> durable u (strace s1) = []"
proof -
  obtain b s1 where b: "pool_begin env BeginCtx (set_log_id 0 s) = (b, s1)" by force
  show thesis
  proof (cases "sreq s")
    case None
    then show thesis using nil assms(1) by (simp add: do_daemon_def)
  next
    case (Some q)
    show thesis
    proof (cases b)
      case (Inl e)
      then show thesis using failed [OF Some] assms(1) Some b by (simp add: do_daemon_def)
    next
      case (Inr t)
      note o = pool_begin_open [OF b [unfolded Inr], simplified, OF assms(2)]
      have "durable u (strace s1) = []" if "snext s < u" for u
        using durable_begin [OF b] fresh_durable [OF assms(2) that] assms(2) by simp
      moreover have "log_is 0 s1" using o by (auto intro: log_is_map)
      moreover obtain x s2 where "daemon_body env r sess q fn t s1 = (x, s2)" by force
      ultimately show thesis using body [OF Some, of s1 s2] o b Inr Some assms(1) by (auto simp: do_daemon_def)
    qed
  qed
qed

lemma do_daemon_kept:
  assumes "do_daemon env r sess fn s = (Inr v, s')" "handler_ok fn" "fresh s"
  shows "\<exists>q st c m s1 s2 i. sreq s = Some q \<and> fn \<lparr>htx = Suc (snext s), hdaemon_tx = True, hroad_key = True\<rparr> s1 = (Inr v, s2) \<and>
     sreq s1 = map_option (\<lambda>q. q\<lparr>qlog_id := 0\<rparr>) (sreq s) \<and> same_status s2 s' \<and>
     durable (Suc (snext s)) (strace s') = (daemon_begin_stmt sess q, ABegun True st c m) #
         new_work s1 s2 @ [(SDaemonEnd (request_status (sreq s2)) None, AEnd i)] \<and> (\<forall>k. i = Some k \<longrightarrow> log_is k s')"
  using assms(1,3)
proof (cases rule: do_daemon_cases)
  case (body q s1 s2)
  let ?t = "Suc (snext s)"
  from body(3) obtain a s3 st c m where a: "send env ?t ReqCtx (daemon_begin_stmt sess q) s1 = (a, s3)"
    "scan_begun a = Inr (True, st, c, m)" and h: "daemon_handler env r fn ?t s3 = (Inr v, s2)"
    by (auto simp: daemon_body_def Let_def split: prod.splits sum.splits if_splits)
  from a(2) have "a = ABegun True st c m" by (auto simp: scan_begun_def split: answer.splits)
  with sendD [OF a(1)] body(5) have "tx_run ?t (strace s3) = TOpen [(daemon_begin_stmt sess q, ABegun True st c m)] None" by auto
  moreover have "sreq s3 = map_option (\<lambda>q. q\<lparr>qlog_id := 0\<rparr>) (sreq s)" using sendD [OF a(1)] pool_beginD [OF body(2)] by auto
  moreover have "same_status s5 (rollback_tx env ?t DetachedCtx s6)" if "same_status s5 s6" for s5 s6
    using that by (simp add: same_status_def)
  ultimately show ?thesis using daemon_handler_kept [OF h assms(2)] body(1,4) by fastforce
qed auto

lemma do_daemon_error:
  assumes "do_daemon env r sess fn s = (Inl p, s')" "handler_ok fn" "fresh s" "sreq s = Some q"
  shows "as_problem p \<noteq> None
    \<and> (\<exists>a. daemon_left (Suc (snext s)) [(daemon_begin_stmt sess q, a)] p s')
    \<and> (\<forall>u. snext s < u \<longrightarrow> u \<noteq> Suc (snext s) \<longrightarrow> durable u (strace s') = [])"
  using assms(1,3)
proof (cases rule: do_daemon_cases)
  case nil
  with assms(4) show ?thesis by simp
next
  case (failed q e)
  have "log_is 0 s'" using pool_beginD [OF failed(3)] by (auto intro: log_is_map [of s' 0 "sreq s"])
  then show ?thesis using failed(2) durable_begin [OF failed(3)] fresh_durable [OF assms(3)] assms(3)
    by (simp add: daemon_left_def)
next
  case (body q' s1 s2)
  let ?t = "Suc (snext s)"
  have q: "q' = q" using body(1) assms(4) by simp
  obtain a s3 where a: "send env ?t ReqCtx (daemon_begin_stmt sess q) s1 = (a, s3)" by force
  note D = sendD [OF a]
  have o3: "tx_run ?t (strace s3) = TOpen [(daemon_begin_stmt sess q, a)] None" using D body(5) by auto
  have l3: "log_is 0 s3" using D body(8) by (simp add: log_is_def)
  have "touches {0, ?t} s1 s2" using daemon_body_touches [OF assms(2), of ?t s1 env r sess q] body(3) q by simp
  then have other: "durable u (strace s') = []" if "snext s < u" "u \<noteq> ?t" for u
    using touches_durable [of "{0, ?t}" s1 s2 u] body(4) body(9) [OF that(1)] that by simp
  have "as_problem p \<noteq> None \<and> daemon_left ?t [(daemon_begin_stmt sess q, a)] p s2"
  proof (cases "scan_begun a")
    case (Inl e)
    then show ?thesis using a body(3) [unfolded q] o3 l3 by (auto simp: daemon_body_def daemon_left_def)
  next
    case (Inr x)
    obtain ok st c m where x: "x = (ok, st, c, m)" by (cases x)
    show ?thesis
    proof (cases ok)
      case True
      then show ?thesis using daemon_handler_error [OF _ assms(2) o3 _ l3, of env r p s2] a Inr x body(3) [unfolded q]
        by (simp add: daemon_body_def)
    next
      case False
      obtain e s4 where cm: "commit_tx env ?t JournalCtx s3 = (e, s4)" by force
      have ref: "refusal env r st c m s4 = (p, s2)"
        using False a Inr x body(3) [unfolded q] cm by (auto simp: daemon_body_def Let_def split: prod.splits)
      have "tx_run ?t (strace s2) = tx_run ?t (strace s4)"
        using touches_tx [OF touches_refusal, of "{0}" ?t env r st c m s4] ref by simp
      moreover have "tx_run ?t (strace s4) \<in> {TDone [], TDone [(daemon_begin_stmt sess q, a)]}"
        using commitD [OF cm] o3 by (auto split: if_splits)
      moreover have "log_is 0 s2" using refusal_frame(1) [of env r st c m s4] ref commitD [OF cm] l3 by (auto simp: log_is_def)
      moreover have "as_problem p \<noteq> None" using refusal_frame(2) [of env r st c m s4] ref by simp
      ultimately show ?thesis by (auto simp: daemon_left_def durable_def)
    qed
  qed
  then show ?thesis using other body(4) by (auto simp: daemon_left_def)
qed

lemma do_daemon_since:
  assumes "handler_ok fn" "fresh s"
  shows "since (snext s) s (snd (do_daemon env r sess fn s))"
proof -
  obtain res s' where d: "do_daemon env r sess fn s = (res, s')" by force
  from d assms(2) show ?thesis
  proof (cases rule: do_daemon_cases)
    case nil
    then show ?thesis using d by (simp add: since_def)
  next
    case (failed q e)
    then show ?thesis using since_begin [OF failed(3), of "snext s"] d by simp
  next
    case (body q s1 s2)
    let ?t = "Suc (snext s)"
    have "touches {0, ?t} s1 s2" using daemon_body_touches [OF assms(1), of ?t s1 env r sess q] body(3) by simp
    moreover have "touches {0, ?t} s2 s'" unfolding body(4) by (rule touches_rollback) simp
    ultimately have "since (snext s) s1 s'" using body(6) touches_trans by (intro since_touches [where T = "{0, ?t}"]) auto
    then show ?thesis using since_begin [OF body(2), of "snext s"] since_trans d by simp
  qed
qed

section \<open>The contract\<close>

definition no_calls :: "work \<Rightarrow> bool" where
  "no_calls w \<longleftrightarrow> list_all (\<lambda>x. \<not> is_call (fst x)) w"

abbreviation calls_in :: "work \<Rightarrow> work" where
  "calls_in w \<equiv> filter (\<lambda>x. is_call (fst x)) w"

lemma no_calls_in: "no_calls w \<Longrightarrow> calls_in w = []"
  by (auto simp: no_calls_def list_all_iff filter_empty_conv)

text \<open>The durable calls of the transactions after number \<open>n\<close>.\<close>

definition calls_since :: "nat \<Rightarrow> pst \<Rightarrow> work" where
  "calls_since n s = concat (map (\<lambda>u. calls_in (durable u (strace s))) [Suc n..<Suc (snext s)])"

text \<open>One call of \<open>Do\<close>: the caller's session, the request it journals (its own, \<open>None\<close> is nil) and the handler.\<close>

record 'a asked =
  a_sess :: session
  a_req :: "preq option"
  a_fn :: "'a handler"

definition do_asked :: "env \<Rightarrow> runner \<Rightarrow> 'a asked \<Rightarrow> pst \<Rightarrow> (goerr + 'a) \<times> pst" where
  "do_asked env r a s = run_do env r (a_sess a) (a_fn a) (s\<lparr>sreq := a_req a\<rparr>)"

text \<open>Requests one after the other on one runner, each with the session and the request of its own: their results
  and the last state.\<close>

fun serve_all :: "env \<Rightarrow> runner \<Rightarrow> 'a asked list \<Rightarrow> pst \<Rightarrow> (goerr + 'a) list \<times> pst" where
  "serve_all env r [] s = ([], s)"
| "serve_all env r (a # as) s = (let (x, s1) = do_asked env r a s; (xs, s2) = serve_all env r as s1 in (x # xs, s2))"

lemma fresh_sreq [simp]: "fresh (s\<lparr>sreq := q\<rparr>) = fresh s" "since n (s\<lparr>sreq := q\<rparr>) s' = since n s s'"
  by (simp_all add: fresh_def since_def)

lemma calls_since_sreq [simp]: "calls_since n (s\<lparr>sreq := q\<rparr>) = calls_since n s"
  by (simp add: calls_since_def)

text \<open>The calls a request contributes: none when it failed, those of its handler when it succeeded.\<close>

definition contributes :: "'a handler \<Rightarrow> goerr + 'a \<Rightarrow> work \<Rightarrow> bool" where
  "contributes fn res w = (case res of Inl _ \<Rightarrow> w = [] | Inr v \<Rightarrow> (\<exists>h s1 s2. fn h s1 = (Inr v, s2) \<and> w = new_work s1 s2))"

locale request_road =
  fixes run :: "'a handler \<Rightarrow> pst \<Rightarrow> (goerr + 'a) \<times> pst"
  assumes error_problem: "handler_ok fn \<Longrightarrow> fresh s \<Longrightarrow> run fn s = (Inl p, s') \<Longrightarrow> as_problem p \<noteq> None"
    and error_clean: "handler_ok fn \<Longrightarrow> fresh s \<Longrightarrow> run fn s = (Inl p, s') \<Longrightarrow> snext s < u \<Longrightarrow> no_calls (durable u (strace s'))"
    and success_kept: "handler_ok fn \<Longrightarrow> fresh s \<Longrightarrow> run fn s = (Inr v, s') \<Longrightarrow>
      snext s' = Suc (snext s) \<and> (\<exists>h s1 s2. fn h s1 = (Inr v, s2) \<and> calls_in (durable (Suc (snext s)) (strace s')) = new_work s1 s2)"
    and own_transactions: "handler_ok fn \<Longrightarrow> fresh s \<Longrightarrow> since (snext s) s (snd (run fn s))"
begin

lemma run_fresh: "handler_ok fn \<Longrightarrow> fresh s \<Longrightarrow> run fn s = (x, s') \<Longrightarrow> fresh s' \<and> snext s \<le> snext s'"
  using own_transactions [of fn s] since_fresh [of "snext s" s s'] by (auto simp: since_def)

lemma run_contributes:
  assumes "handler_ok fn" "fresh s" "run fn s = (x, s')" "n \<le> snext s"
  shows "\<exists>w. calls_since n s' = calls_since n s @ w \<and> contributes fn x w"
proof -
  have le: "snext s \<le> snext s'" using run_fresh assms by blast
  have up: "[Suc n..<Suc (snext s')] = [Suc n..<Suc (snext s)] @ [Suc (snext s)..<Suc (snext s')]"
    using le assms(4) by (metis Suc_le_mono le_add_diff_inverse upt_add_eq_append)
  have "durable u (strace s') = durable u (strace s)" if "u \<in> set [Suc n..<Suc (snext s)]" for u
    using since_durable [of "snext s" s s' u] own_transactions [OF assms(1,2)] assms(3) that by auto
  then have old: "map (\<lambda>u. calls_in (durable u (strace s'))) [Suc n..<Suc (snext s)]
      = map (\<lambda>u. calls_in (durable u (strace s))) [Suc n..<Suc (snext s)]" by (intro map_cong) simp_all
  have split: "calls_since n s' = calls_since n s @ concat (map (\<lambda>u. calls_in (durable u (strace s'))) [Suc (snext s)..<Suc (snext s')])"
    unfolding calls_since_def up map_append concat_append old ..
  show ?thesis
  proof (cases x)
    case (Inl p)
    then have "calls_in (durable u (strace s')) = []" if "snext s < u" for u
      using error_clean [OF assms(1,2)] assms(3) that no_calls_in by blast
    then have "concat (map (\<lambda>u. calls_in (durable u (strace s'))) [Suc (snext s)..<Suc (snext s')]) = []" by auto
    with split Inl show ?thesis by (auto simp: contributes_def)
  next
    case (Inr v)
    with success_kept [OF assms(1,2)] assms(3) obtain h s1 s2 where "snext s' = Suc (snext s)" "fn h s1 = (Inr v, s2)"
      "calls_in (durable (Suc (snext s)) (strace s')) = new_work s1 s2" by blast
    with split Inr show ?thesis by (auto simp: contributes_def simp del: upt_Suc simp: upt_rec)
  qed
qed

end

section \<open>Both roads keep it\<close>

lemma calls_in_new: "handler_ok fn \<Longrightarrow> fn h s1 = (x, s2) \<Longrightarrow> calls_in (new_work s1 s2) = new_work s1 s2"
  using handler_view(6) by (fastforce simp: list_all_iff intro: filter_True)

lemma not_call_road [simp]: "\<not> is_call (log_stmt r q st code)" "\<not> is_call (SAuthorize x1 x2 x3 x4)" "\<not> is_call (SDaemonEnd x5 x6)"
    "\<not> is_call (daemon_begin_stmt sess q)"
  by (auto simp: log_stmt_def Let_def is_call_def daemon_begin_stmt_def split: if_splits)

lemma refusal_kept_no_calls:
  "refusal_kept (\<lambda>q. refusal_stmt r q p) ALog jq s s' \<Longrightarrow> snext s < u \<Longrightarrow> no_calls (durable u (strace s'))"
proof -
  assume "refusal_kept (\<lambda>q. refusal_stmt r q p) ALog jq s s'" "snext s < u"
  then consider "durable u (strace s') = []" | q i pre where "durable u (strace s') = pre @ [(refusal_stmt r q p, ALog i)]"
      "list_all (\<lambda>w. is_opening (fst w)) pre"
    unfolding refusal_kept_def by metis
  then show "no_calls (durable u (strace s'))" by cases (auto simp: no_calls_def list_all_iff dest: is_opening_not_call)
qed

lemma daemon_left_no_calls:
  "daemon_left t [(daemon_begin_stmt sess q, a)] p s \<Longrightarrow> no_calls (durable t (strace s))"
  unfolding daemon_left_def no_calls_def by auto

lemma do_handler_snext: "handler_ok fn \<Longrightarrow> do_handler env r fn t jq s = (Inr v, s') \<Longrightarrow> snext s' = snext s"
  unfolding do_handler_def Let_def
  by (auto dest!: sendD log_requestD commitD handler_view(4) split: prod.splits sum.splits option.splits)

lemma do_direct_snext:
  assumes "do_direct env r sess fn s = (Inr v, s')" "handler_ok fn"
  shows "snext s' = Suc (snext s)"
  using assms(1) unfolding do_direct_def do_body_def Let_def
  by (auto dest!: pool_beginD sendD do_handler_snext [OF assms(2)] split: prod.splits sum.splits option.splits if_splits)

lemma do_daemon_snext:
  assumes "do_daemon env r sess fn s = (Inr v, s')" "handler_ok fn"
  shows "snext s' = Suc (snext s)"
  using assms(1) unfolding do_daemon_def daemon_body_def daemon_handler_def Let_def
  by (auto dest!: pool_beginD sendD end_requestD commitD handler_view(4) [OF assms(2)] split: prod.splits sum.splits option.splits if_splits)

interpretation direct: request_road "do_direct env r sess"
proof
  fix fn :: "'a handler" and s p s' u v
  assume h: "handler_ok fn" and f: "fresh s"
  show "as_problem p \<noteq> None" "snext s < u \<Longrightarrow> no_calls (durable u (strace s'))" if "do_direct env r sess fn s = (Inl p, s')"
    using do_direct_error [OF that h f] refusal_kept_no_calls by blast+
  show "snext s' = Suc (snext s) \<and> (\<exists>h s1 s2. fn h s1 = (Inr v, s2) \<and> calls_in (durable (Suc (snext s)) (strace s')) = new_work s1 s2)"
    if "do_direct env r sess fn s = (Inr v, s')"
    using do_direct_kept [OF that h f] do_direct_snext [OF that h] calls_in_new [OF h]
    by (fastforce simp: Let_def split: option.splits)
  show "since (snext s) s (snd (do_direct env r sess fn s))" by (rule do_direct_since [OF h f])
qed

interpretation daemon: request_road "do_daemon env r sess"
proof
  fix fn :: "'a handler" and s p s' u v
  assume h: "handler_ok fn" and f: "fresh s"
  show "as_problem p \<noteq> None" "snext s < u \<Longrightarrow> no_calls (durable u (strace s'))" if d: "do_daemon env r sess fn s = (Inl p, s')"
  proof -
    show "as_problem p \<noteq> None" using do_daemon_error [OF d h f] d by (cases "sreq s") (auto simp: do_daemon_def)
    show "snext s < u \<Longrightarrow> no_calls (durable u (strace s'))"
      using do_daemon_error [OF d h f] d daemon_left_no_calls fresh_durable [OF f]
      by (cases "sreq s"; cases "u = Suc (snext s)") (auto simp: do_daemon_def no_calls_def)
  qed
  show "snext s' = Suc (snext s) \<and> (\<exists>h s1 s2. fn h s1 = (Inr v, s2) \<and> calls_in (durable (Suc (snext s)) (strace s')) = new_work s1 s2)"
    if "do_daemon env r sess fn s = (Inr v, s')"
    using do_daemon_kept [OF that h f] do_daemon_snext [OF that h] calls_in_new [OF h] by fastforce
  show "since (snext s) s (snd (do_daemon env r sess fn s))" by (rule do_daemon_since [OF h f])
qed

interpretation road: request_road "run_do env r sess"
  using direct.request_road_axioms daemon.request_road_axioms unfolding run_do_def
  by (cases "f_daemon (r_features r)") simp_all

section \<open>The properties of the road\<close>

text \<open>The database accepts the session: the transaction starts and the answer that opens the request says so.\<close>

definition accepted :: "env \<Rightarrow> runner \<Rightarrow> session \<Rightarrow> pst \<Rightarrow> bool" where
  "accepted env r sess s =
     (case pool_begin env BeginCtx (set_log_id 0 s) of
        (Inl _, _) \<Rightarrow> False
      | (Inr t, s1) \<Rightarrow>
        (if f_daemon (r_features r) then
           (case sreq s of None \<Rightarrow> False
            | Some q \<Rightarrow> (case scan_begun (fst (send env t ReqCtx (daemon_begin_stmt sess q) s1)) of Inl _ \<Rightarrow> False | Inr (b, _) \<Rightarrow> b))
         else (case scan_auth (fst (send env t ReqCtx (SAuthorize (authorize_sql r) (s_code sess) (nil_if_empty (s_agent sess)) (sess_host sess)) s1)) of
             Inl _ \<Rightarrow> False | Inr (b, _) \<Rightarrow> b)))"

text \<open>A database that answers every statement the usual way: the sessions are accepted, a call answers \<open>rows\<close>.\<close>

definition sample_env :: "answer \<Rightarrow> env" where
  "sample_env rows tr t c q = (case q of SAuthorize _ _ _ _ \<Rightarrow> AAuth True None | SDaemonBegin _ _ _ _ _ _ _ \<Rightarrow> ABegun True None None None
     | SLogRequest _ _ _ _ _ _ _ \<Rightarrow> ALog 7 | SDaemonEnd _ _ \<Rightarrow> AEnd (Some 7) | SApi _ _ \<Rightarrow> rows | SDaemonCall _ _ \<Rightarrow> rows
     | SGetError _ \<Rightarrow> AMsg None | SDaemonError _ \<Rightarrow> AMsg None | _ \<Rightarrow> AOk)"

definition sample_runner :: "bool \<Rightarrow> runner" where
  "sample_runner d = \<lparr>r_pool = True, r_features = \<lparr>f_authorize_local = True, f_log_request = True, f_log_request_err = True,
     f_parse_message = False, f_daemon = d\<rparr>, r_begin_timeout = 0, r_titles = []\<rparr>"

definition sample_session :: session where
  "sample_session = \<lparr>s_code = ''code'', s_token = ''token'', s_agent = [], s_host = ''10.0.0.1''\<rparr>"

definition sample_state :: pst where
  "sample_state = \<lparr>strace = [], snext = 0, slooked = [],
     sreq = Some \<lparr>qmethod = ''DELETE'', qpath = ''/api/v2/things'', qpayload = [], qrequest_id = [], qstatus = 0, qlog_id = 0\<rparr>\<rparr>"

definition sample_handler :: "env \<Rightarrow> bytes option handler" where
  "sample_handler env h = hbind (call_row env h ''delete_thing'' [(''id'', VInt 1)]) (\<lambda>row. hbind (set_status 204) (\<lambda>_. hret row))"

definition sample_refusal :: answer where
  "sample_refusal = AErr (EPg ''P0001'' ''ERR-403-002: not yours'')"

definition sample_rows :: answer where
  "sample_rows = ARows [Some ''1''] None"

lemma sample_handler_ok: "handler_ok (sample_handler env)"
  unfolding handler_ok_def sample_handler_def by (intro allI go_intros)

lemma sample_fresh: "fresh sample_state"
  by (simp add: fresh_def sample_state_def)

lemmas sample_defs = sample_env_def sample_runner_def sample_session_def sample_state_def sample_handler_def
  sample_refusal_def sample_rows_def

text \<open>C2: all or nothing. When a request ends in an error, the error is a problem and no call of its handler is durable
  in any transaction the request began, on either road and whatever the database answers.\<close>

theorem do_error_nothing:
  assumes "handler_ok fn" "fresh s" "run_do env r sess fn s = (Inl p, s')"
  shows "as_problem p \<noteq> None \<and> (\<forall>u. snext s < u \<longrightarrow> no_calls (durable u (strace s')))"
  using road.error_problem [OF assms] road.error_clean [OF assms] by blast

theorem do_error_nothing_witness:
  "isl (fst (run_do (sample_env sample_refusal) (sample_runner False) sample_session (sample_handler (sample_env sample_refusal)) sample_state))
   \<and> no_calls (durable 1 (strace (snd (run_do (sample_env sample_refusal) (sample_runner False) sample_session
        (sample_handler (sample_env sample_refusal)) sample_state))))"
proof -
  let ?r = "run_do (sample_env sample_refusal) (sample_runner False) sample_session (sample_handler (sample_env sample_refusal)) sample_state"
  have l: "isl (fst ?r)" by code_simp
  then obtain p s' where r: "?r = (Inl p, s')" by (cases ?r) (auto simp: isl_def)
  have "snext sample_state < 1" by (simp add: sample_state_def)
  with l r do_error_nothing [OF sample_handler_ok sample_fresh r] show ?thesis by simp
qed

text \<open>C3: a request that succeeds keeps exactly the calls its handler made, in the one transaction it began.\<close>

theorem do_success_everything:
  assumes "handler_ok fn" "fresh s" "run_do env r sess fn s = (Inr v, s')"
  shows "\<exists>h s1 s2. fn h s1 = (Inr v, s2) \<and> calls_in (durable (Suc (snext s)) (strace s')) = new_work s1 s2 \<and> snext s' = Suc (snext s)"
  using road.success_kept [OF assms] by blast

theorem do_success_everything_witness:
  "fst (run_do (sample_env sample_rows) (sample_runner True) sample_session (sample_handler (sample_env sample_rows)) sample_state) = Inr (Some ''1'')
   \<and> snext (snd (run_do (sample_env sample_rows) (sample_runner True) sample_session (sample_handler (sample_env sample_rows)) sample_state)) = 1
   \<and> durable 1 (strace (snd (run_do (sample_env sample_rows) (sample_runner True) sample_session (sample_handler (sample_env sample_rows)) sample_state)))
      = [(SDaemonBegin ''token'' None (Some ''10.0.0.1'') ''DELETE'' ''/api/v2/things'' None None, ABegun True None None None),
         (SDaemonCall ''delete_thing'' (CHR 0x7B # CHR 0x22 # ''id'' @ CHR 0x22 # '':1'' @ [CHR 0x7D]), ARows [Some ''1''] None),
         (SDaemonEnd 204 None, AEnd (Some 7))]"
proof -
  let ?r = "run_do (sample_env sample_rows) (sample_runner True) sample_session (sample_handler (sample_env sample_rows)) sample_state"
  have l: "fst ?r = Inr (Some ''1'')" by code_simp
  then obtain s' where r: "?r = (Inr (Some ''1''), s')" by (cases ?r) auto
  have "durable 1 (strace (snd ?r))
      = [(SDaemonBegin ''token'' None (Some ''10.0.0.1'') ''DELETE'' ''/api/v2/things'' None None, ABegun True None None None),
         (SDaemonCall ''delete_thing'' (CHR 0x7B # CHR 0x22 # ''id'' @ CHR 0x22 # '':1'' @ [CHR 0x7D]), ARows [Some ''1''] None),
         (SDaemonEnd 204 None, AEnd (Some 7))]" by code_simp
  moreover have "snext s' = Suc (snext sample_state)"
    using do_success_everything [OF sample_handler_ok sample_fresh r] by blast
  then have "snext (snd ?r) = 1" using r by (simp add: sample_state_def)
  ultimately show ?thesis using l by blast
qed

text \<open>C5: a refusal on the direct road is journalled alone: what is durable is nothing, or the journal line of this very
  refusal (its status and catalogue code) after the statement that opened the session, in one transaction;
  \<open>Request.LogID\<close> is the number of that line and 0 when no line is confirmed.\<close>

theorem direct_refusal_journalled:
  assumes "handler_ok fn" "fresh s" "do_direct env r sess fn s = (Inl p, s')"
  shows "refusal_kept (\<lambda>q. log_stmt r q (fst (refusal_line p)) (snd (refusal_line p))) ALog (journal_req r s) s s'"
  using do_direct_error [OF assms(3,1,2)] by blast

theorem direct_refusal_journalled_witness:
  "fst (do_direct (sample_env sample_refusal) (sample_runner False) sample_session (sample_handler (sample_env sample_refusal)) sample_state)
     = Inl (EProblem (from_code ''ERR-403-002'' ''not yours'' ''not yours''))
   \<and> durable 1 (strace (snd (do_direct (sample_env sample_refusal) (sample_runner False) sample_session (sample_handler (sample_env sample_refusal)) sample_state)))
     = [(SAuthorize (authorize_sql (sample_runner False)) ''code'' None (Some ''10.0.0.1''), AAuth True None),
        (SLogRequest True ''DELETE'' ''/api/v2/things'' None 403 None (Some ''ERR-403-002''), ALog 7)]
   \<and> durable 2 (strace (snd (do_direct (sample_env sample_refusal) (sample_runner False) sample_session
         (sample_handler (sample_env sample_refusal)) sample_state))) = []"
proof -
  let ?r = "do_direct (sample_env sample_refusal) (sample_runner False) sample_session (sample_handler (sample_env sample_refusal)) sample_state"
  have l: "fst ?r = Inl (EProblem (from_code ''ERR-403-002'' ''not yours'' ''not yours''))" by code_simp
  have d: "durable 1 (strace (snd ?r)) = [(SAuthorize (authorize_sql (sample_runner False)) ''code'' None (Some ''10.0.0.1''), AAuth True None),
        (SLogRequest True ''DELETE'' ''/api/v2/things'' None 403 None (Some ''ERR-403-002''), ALog 7)]" by code_simp
  from l obtain p s' where r: "?r = (Inl p, s')" by (cases ?r) auto
  have "snext sample_state = 0" "durable 1 (strace s') \<noteq> []" using d r by (simp_all add: sample_state_def)
  with direct_refusal_journalled [OF sample_handler_ok sample_fresh r]
  have "\<forall>u. 1 < u \<longrightarrow> durable u (strace s') = []"
    unfolding refusal_kept_def by (metis zero_less_one less_irrefl less_trans)
  with l d r show ?thesis by simp
qed

text \<open>C6: a request that succeeds on the direct road leaves in its transaction, in this order, the statement that opened
  the session, the calls of the handler and, when the database journals, one line with the status the handler set;
  \<open>Request.LogID\<close> is the number of that line.\<close>

theorem direct_success_journalled:
  assumes "handler_ok fn" "fresh s" "do_direct env r sess fn s = (Inr v, s')"
  shows "\<exists>m s1 s2. fn \<lparr>htx = Suc (snext s), hdaemon_tx = False, hroad_key = False\<rparr> s1 = (Inr v, s2) \<and>
     (let auth = (SAuthorize (authorize_sql r) (s_code sess) (nil_if_empty (s_agent sess)) (parse_ip_string (s_host sess)), AAuth True m) in
      case journal_req r s of None \<Rightarrow> durable (Suc (snext s)) (strace s') = auth # new_work s1 s2
      | Some q \<Rightarrow> \<exists>i. durable (Suc (snext s)) (strace s')
             = auth # new_work s1 s2 @ [(log_stmt r q (request_status (sreq s2)) [], ALog i)] \<and> log_is i s')"
  using do_direct_kept [OF assms(3,1,2)] by blast

theorem direct_success_journalled_witness:
  "fst (do_direct (sample_env sample_rows) (sample_runner False) sample_session (sample_handler (sample_env sample_rows)) sample_state) = Inr (Some ''1'')
   \<and> (\<exists>i. log_is i (snd (do_direct (sample_env sample_rows) (sample_runner False) sample_session (sample_handler (sample_env sample_rows)) sample_state)))"
proof -
  let ?r = "do_direct (sample_env sample_rows) (sample_runner False) sample_session (sample_handler (sample_env sample_rows)) sample_state"
  have l: "fst ?r = Inr (Some ''1'')" by code_simp
  then obtain s' where r: "?r = (Inr (Some ''1''), s')" by (cases ?r) auto
  have "journal_req (sample_runner False) sample_state = sreq sample_state" "sreq sample_state \<noteq> None"
    by (simp_all add: journal_req_def sample_runner_def sample_state_def)
  with direct_success_journalled [OF sample_handler_ok sample_fresh r] l r show ?thesis by (auto simp: Let_def)
qed

text \<open>C7: on the daemon road a refused request leaves nothing, the line \<open>daemon.begin\<close> wrote, or that line completed by
  \<open>daemon.end\<close> with the status of the very problem the client gets, never a call; no other transaction of the request
  keeps anything.\<close>

theorem daemon_refusal_journalled:
  assumes "handler_ok fn" "fresh s" "sreq s = Some q" "do_daemon env r sess fn s = (Inl p, s')"
  shows "(\<exists>a. daemon_left (Suc (snext s)) [(daemon_begin_stmt sess q, a)] p s')
    \<and> (\<forall>u. snext s < u \<longrightarrow> u \<noteq> Suc (snext s) \<longrightarrow> durable u (strace s') = [])"
  using do_daemon_error [OF assms(4,1,2,3)] by blast

theorem daemon_refusal_journalled_witness:
  "fst (do_daemon (sample_env sample_refusal) (sample_runner True) sample_session (sample_handler (sample_env sample_refusal)) sample_state)
     = Inl (EProblem (from_code ''ERR-403-002'' ''not yours'' ''not yours''))
   \<and> map fst (durable 1 (strace (snd (do_daemon (sample_env sample_refusal) (sample_runner True) sample_session (sample_handler (sample_env sample_refusal)) sample_state))))
     = [SDaemonBegin ''token'' None (Some ''10.0.0.1'') ''DELETE'' ''/api/v2/things'' None None, SDaemonEnd 403 (Some ''ERR-403-002: not yours'')]
   \<and> durable 2 (strace (snd (do_daemon (sample_env sample_refusal) (sample_runner True) sample_session (sample_handler (sample_env sample_refusal)) sample_state))) = []"
proof -
  let ?r = "do_daemon (sample_env sample_refusal) (sample_runner True) sample_session (sample_handler (sample_env sample_refusal)) sample_state"
  have l: "fst ?r = Inl (EProblem (from_code ''ERR-403-002'' ''not yours'' ''not yours''))" by code_simp
  have d: "map fst (durable 1 (strace (snd ?r))) = [SDaemonBegin ''token'' None (Some ''10.0.0.1'') ''DELETE'' ''/api/v2/things'' None None,
     SDaemonEnd 403 (Some ''ERR-403-002: not yours'')]" by code_simp
  from l obtain p s' where r: "?r = (Inl p, s')" by (cases ?r) auto
  have "snext sample_state < 2 \<and> 2 \<noteq> Suc (snext sample_state)" by (simp add: sample_state_def)
  moreover obtain q where "sreq sample_state = Some q" by (simp add: sample_state_def)
  ultimately have "durable 2 (strace s') = []"
    using daemon_refusal_journalled [OF sample_handler_ok sample_fresh _ r] by blast
  with l d r show ?thesis by simp
qed

text \<open>C8: the handler runs only for a session the database accepted: when it did not, the whole outcome (the answer, the
  statements sent, the journal) is the same for every handler, and it is an error.\<close>

theorem refused_before_handler:
  assumes "\<not> accepted env r sess s"
  shows "run_do env r sess fn s = run_do env r sess fn' s \<and> isl (fst (run_do env r sess fn s))"
  using assms
  by (auto simp: accepted_def run_do_def do_direct_def do_daemon_def do_body_def daemon_body_def Let_def
      split: prod.splits sum.splits option.splits if_splits)

theorem refused_before_handler_witness:
  "run_do (\<lambda>_ _ _ _. AAuth False (Some ''unknown'')) (sample_runner False) sample_session (\<lambda>h. hret ()) sample_state
     = run_do (\<lambda>_ _ _ _. AAuth False (Some ''unknown'')) (sample_runner False) sample_session (\<lambda>h. hfail ENoRow) sample_state
   \<and> fst (run_do (\<lambda>_ _ _ _. AAuth False (Some ''unknown'')) (sample_runner False) sample_session (\<lambda>h. hret ()) sample_state)
     = Inl (EProblem (unauthorized None code_login_failed ''unknown''))"
proof -
  have "\<not> accepted (\<lambda>_ _ _ _. AAuth False (Some ''unknown'')) (sample_runner False) sample_session sample_state" by code_simp
  from refused_before_handler [OF this]
  have "run_do (\<lambda>_ _ _ _. AAuth False (Some ''unknown'')) (sample_runner False) sample_session (\<lambda>h. hret ()) sample_state
     = run_do (\<lambda>_ _ _ _. AAuth False (Some ''unknown'')) (sample_runner False) sample_session (\<lambda>h. hfail ENoRow) sample_state" by blast
  moreover have "fst (run_do (\<lambda>_ _ _ _. AAuth False (Some ''unknown'')) (sample_runner False) sample_session (\<lambda>h. hret ()) sample_state)
     = Inl (EProblem (unauthorized None code_login_failed ''unknown''))" by code_simp
  ultimately show ?thesis by blast
qed

lemma serve_all_history:
  assumes "list_all (\<lambda>a. handler_ok (a_fn a)) as" "fresh s" "serve_all env r as s = (xs, s')" "n \<le> snext s"
  shows "\<exists>ws. list_all2 (\<lambda>(a, x) w. contributes (a_fn a) x w) (zip as xs) ws \<and> length xs = length as
     \<and> calls_since n s' = calls_since n s @ concat ws"
  using assms
proof (induction as arbitrary: s xs)
  case (Cons a as)
  obtain x s1 where r: "run_do env r (a_sess a) (a_fn a) (s\<lparr>sreq := a_req a\<rparr>) = (x, s1)" by force
  obtain xs' where xs: "xs = x # xs'" and rest: "serve_all env r as s1 = (xs', s')"
    using Cons.prems(3) r by (auto simp: do_asked_def split: prod.splits)
  have h: "handler_ok (a_fn a)" "fresh (s\<lparr>sreq := a_req a\<rparr>)" "n \<le> snext (s\<lparr>sreq := a_req a\<rparr>)" using Cons.prems by simp_all
  have f: "fresh s1" "n \<le> snext s1" using road.run_fresh [OF h(1,2) r] h(3) by auto
  obtain w where w: "calls_since n s1 = calls_since n s @ w" "contributes (a_fn a) x w"
    using road.run_contributes [OF h(1,2) r h(3)] by auto
  from Cons.IH [OF _ f(1) rest f(2)] Cons.prems(1) obtain ws where
    "list_all2 (\<lambda>(a, x) w. contributes (a_fn a) x w) (zip as xs') ws" "length xs' = length as"
    "calls_since n s' = calls_since n s1 @ concat ws" by auto
  with w xs show ?case by (intro exI [of _ "w # ws"]) simp
qed simp

text \<open>C4: serial history. Whatever the database answers, the durable calls of a sequence of requests, each with a session,
  a request and a handler of its own, are the calls of the successful ones in the order they were served; a
  failed request contributes none.\<close>

theorem do_history:
  assumes "list_all (\<lambda>a. handler_ok (a_fn a)) as" "fresh s" "serve_all env r as s = (xs, s')"
  shows "\<exists>ws. list_all2 (\<lambda>(a, x) w. contributes (a_fn a) x w) (zip as xs) ws \<and> length xs = length as
     \<and> calls_since (snext s) s' = concat ws"
  using serve_all_history [OF assms order_refl] by (simp add: calls_since_def)

definition sample_asked :: "bytes option asked list" where
  "sample_asked = [\<lparr>a_sess = sample_session, a_req = sreq sample_state, a_fn = sample_handler (sample_env sample_rows)\<rparr>,
     \<lparr>a_sess = sample_session\<lparr>s_code := ''other''\<rparr>, a_req = None, a_fn = (\<lambda>h. hfail ENoRow)\<rparr>,
     \<lparr>a_sess = sample_session\<lparr>s_code := ''third''\<rparr>, a_req = map_option (qpath_update (\<lambda>_. ''/api/v2/other'')) (sreq sample_state),
       a_fn = sample_handler (sample_env sample_rows)\<rparr>]"

theorem do_history_witness:
  "fst (serve_all (sample_env sample_rows) (sample_runner False) sample_asked sample_state)
     = [Inr (Some ''1''), Inl (internal ''request''), Inr (Some ''1'')]
   \<and> (\<exists>w1 w3. calls_since 0 (snd (serve_all (sample_env sample_rows) (sample_runner False) sample_asked sample_state)) = w1 @ w3
       \<and> contributes (sample_handler (sample_env sample_rows)) (Inr (Some ''1'')) w1
       \<and> contributes (sample_handler (sample_env sample_rows)) (Inr (Some ''1'')) w3)"
proof -
  let ?r = "serve_all (sample_env sample_rows) (sample_runner False) sample_asked sample_state"
  have l: "fst ?r = [Inr (Some ''1''), Inl (internal ''request''), Inr (Some ''1'')]" by code_simp
  have "handler_ok (\<lambda>h. hfail ENoRow :: bytes option step)" unfolding handler_ok_def by (intro allI go_intros)
  then have ok: "list_all (\<lambda>a. handler_ok (a_fn a)) sample_asked" using sample_handler_ok by (simp add: sample_asked_def)
  obtain xs s' where r: "?r = (xs, s')" by force
  have n: "snext sample_state = 0" by (simp add: sample_state_def)
  have xs: "xs = [Inr (Some ''1''), Inl (internal ''request''), Inr (Some ''1'')]" using l r by simp
  from do_history [OF ok sample_fresh r] obtain w1 w2 w3 where "contributes (sample_handler (sample_env sample_rows)) (Inr (Some ''1'')) w1"
    "contributes (\<lambda>h. hfail ENoRow :: bytes option step) (Inl (internal ''request'')) w2"
    "contributes (sample_handler (sample_env sample_rows)) (Inr (Some ''1'')) w3" "calls_since 0 s' = w1 @ w2 @ w3"
    unfolding xs n by (auto simp: sample_asked_def list_all2_Cons1)
  with l r show ?thesis by (auto simp: contributes_def [of _ "Inl _"])
qed

end
