(* ===== verification/Journal.thy ===== *)
theory Journal
  imports Request_Road
begin

text \<open>
  What the journal says of a request: the status in every durable journal line a request leaves, on either
  road, is the status of its outcome, and the payload in it is the one the request was given. The REST handlers
  use it to show that the journal and the answer on the wire agree and that secrets stay out of the journal.
\<close>

text \<open>The status a journal statement writes.\<close>

definition line_status :: "stmt \<Rightarrow> nat option" where
  "line_status q = (case q of SLogRequest _ _ _ _ st _ _ \<Rightarrow> Some st | SDaemonEnd st _ \<Rightarrow> Some st | _ \<Rightarrow> None)"

definition says :: "nat \<Rightarrow> stmt \<times> answer \<Rightarrow> bool" where
  "says st w \<longleftrightarrow> (case line_status (fst w) of None \<Rightarrow> True | Some k \<Rightarrow> k = st)"

text \<open>Every durable journal line after number \<open>n\<close> has status \<open>st\<close>.\<close>

definition lines_say :: "nat \<Rightarrow> nat \<Rightarrow> pst \<Rightarrow> bool" where
  "lines_say n st s \<longleftrightarrow> (\<forall>u > n. list_all (says st) (durable u (strace s)))"

lemma line_status_simps [simp]: "line_status (log_stmt r q st code) = Some st" "line_status (SDaemonEnd st text) = Some st"
    "line_status (SAuthorize x1 x2 x3 x4) = None" "line_status (daemon_begin_stmt sess q) = None"
    "is_call q' \<Longrightarrow> line_status q' = None"
  by (auto simp: line_status_def log_stmt_def Let_def daemon_begin_stmt_def is_call_def split: stmt.splits)

lemma says_simps [simp]: "says st (log_stmt r q k code, a) \<longleftrightarrow> k = st" "says st (SDaemonEnd k text, a) \<longleftrightarrow> k = st"
    "says st (SAuthorize x1 x2 x3 x4, a)" "says st (daemon_begin_stmt sess q, a)"
  by (simp_all add: says_def)

lemma calls_say: "list_all (\<lambda>p. is_call (fst p)) w \<Longrightarrow> list_all (says st) w"
  by (auto simp: list_all_iff says_def)

lemma lines_say_one:
  assumes "\<And>u. n < u \<Longrightarrow> u \<noteq> t \<Longrightarrow> durable u (strace s) = []"
    and "list_all (says st) (durable t (strace s))"
  shows "lines_say n st s"
proof -
  have "list_all (says st) (durable u (strace s))" if "n < u" for u
    using assms that by (cases "u = t") auto
  then show ?thesis by (simp add: lines_say_def)
qed

lemma openings_say: "list_all (\<lambda>w. is_opening (fst w)) w \<Longrightarrow> list_all (says st) w"
  by (auto simp: list_all_iff says_def is_opening_def line_status_def split: stmt.splits)

lemma after_last: "fresh s \<Longrightarrow> since (snext s) s s' \<Longrightarrow> snext s' = Suc (snext s) \<Longrightarrow> snext s < u \<Longrightarrow> u \<noteq> Suc (snext s) \<Longrightarrow>
    durable u (strace s') = []"
  using since_fresh [of "snext s" s s'] fresh_durable [of s' u] by simp

lemma direct_error_lines:
  assumes "handler_ok fn" "fresh s" "do_direct env r sess fn s = (Inl p, s')"
  shows "lines_say (snext s) (fst (refusal_line p)) s'"
proof -
  from do_direct_error [OF assms(3,1,2)] have "refusal_kept (\<lambda>q. refusal_stmt r q p) ALog (journal_req r s) s s'" by blast
  then consider "\<And>u. snext s < u \<Longrightarrow> durable u (strace s') = []"
    | t q i pre where "durable t (strace s') = pre @ [(refusal_stmt r q p, ALog i)]" "list_all (\<lambda>w. is_opening (fst w)) pre"
      "\<And>u. snext s < u \<Longrightarrow> u \<noteq> t \<Longrightarrow> durable u (strace s') = []" unfolding refusal_kept_def by blast
  then show ?thesis
  proof cases
    case 1
    then show ?thesis by (simp add: lines_say_def)
  next
    case 2
    then have "list_all (says (fst (refusal_line p))) (durable t (strace s'))" using openings_say [OF 2(2)] by simp
    then show ?thesis using lines_say_one [of "snext s" t] 2(3) by blast
  qed
qed

lemma daemon_error_lines:
  assumes "handler_ok fn" "fresh s" "do_daemon env r sess fn s = (Inl p, s')"
  shows "lines_say (snext s) (fst (refusal_line p)) s'"
proof (cases "sreq s")
  case None
  then have "s' = s" using assms(3) by (simp add: do_daemon_def)
  then show ?thesis using fresh_durable [OF assms(2)] by (simp add: lines_say_def)
next
  case (Some q)
  from do_daemon_error [OF assms(3,1,2) Some] obtain a where
    d: "daemon_left (Suc (snext s)) [(daemon_begin_stmt sess q, a)] p s'" and
    o: "\<And>u. snext s < u \<Longrightarrow> u \<noteq> Suc (snext s) \<Longrightarrow> durable u (strace s') = []" by blast
  show ?thesis by (rule lines_say_one [OF o]) (use d in \<open>auto simp: daemon_left_def\<close>)
qed

lemma run_do_error_lines:
  "handler_ok fn \<Longrightarrow> fresh s \<Longrightarrow> run_do env r sess fn s = (Inl p, s') \<Longrightarrow> lines_say (snext s) (fst (refusal_line p)) s'"
  using direct_error_lines daemon_error_lines by (metis run_do_def)

lemma direct_success_lines:
  assumes "handler_ok fn" "fresh s" "do_direct env r sess fn s = (Inr v, s')"
  shows "\<exists>h s1 s2. fn h s1 = (Inr v, s2) \<and> sreq s1 = map_option (\<lambda>q. q\<lparr>qlog_id := 0\<rparr>) (sreq s) \<and> same_status s2 s'
     \<and> lines_say (snext s) (request_status (sreq s2)) s'"
proof -
  have o: "durable u (strace s') = []" if "snext s < u" "u \<noteq> Suc (snext s)" for u
    using after_last [OF assms(2) _ do_direct_snext [OF assms(3,1)] that] do_direct_since [OF assms(1,2), of env r sess] assms(3) by simp
  from do_direct_kept [OF assms(3,1,2)] obtain m s1 s2 where
    f: "fn \<lparr>htx = Suc (snext s), hdaemon_tx = False, hroad_key = False\<rparr> s1 = (Inr v, s2)"
      "sreq s1 = map_option (\<lambda>q. q\<lparr>qlog_id := 0\<rparr>) (sreq s)" "same_status s2 s'" and
    d: "let auth = (SAuthorize (authorize_sql r) (s_code sess) (nil_if_empty (s_agent sess)) (parse_ip_string (s_host sess)), AAuth True m) in
      case journal_req r s of None \<Rightarrow> durable (Suc (snext s)) (strace s') = auth # new_work s1 s2
      | Some q \<Rightarrow> \<exists>i. durable (Suc (snext s)) (strace s')
             = auth # new_work s1 s2 @ [(log_stmt r q (request_status (sreq s2)) [], ALog i)] \<and> log_is i s'" by blast
  have "lines_say (snext s) (request_status (sreq s2)) s'"
    by (rule lines_say_one [OF o])
       (use d calls_say [OF handler_view(6) [OF assms(1) f(1)]] in \<open>auto simp: Let_def split: option.splits\<close>)
  with f show ?thesis by blast
qed

lemma daemon_success_lines:
  assumes "handler_ok fn" "fresh s" "do_daemon env r sess fn s = (Inr v, s')"
  shows "\<exists>h s1 s2. fn h s1 = (Inr v, s2) \<and> sreq s1 = map_option (\<lambda>q. q\<lparr>qlog_id := 0\<rparr>) (sreq s) \<and> same_status s2 s'
     \<and> lines_say (snext s) (request_status (sreq s2)) s'"
proof -
  have o: "durable u (strace s') = []" if "snext s < u" "u \<noteq> Suc (snext s)" for u
    using after_last [OF assms(2) _ do_daemon_snext [OF assms(3,1)] that] do_daemon_since [OF assms(1,2), of env r sess] assms(3) by simp
  from do_daemon_kept [OF assms(3,1,2)] obtain q st c m s1 s2 i where
    f: "fn \<lparr>htx = Suc (snext s), hdaemon_tx = True, hroad_key = True\<rparr> s1 = (Inr v, s2)"
      "sreq s1 = map_option (\<lambda>q. q\<lparr>qlog_id := 0\<rparr>) (sreq s)" "same_status s2 s'" and
    d: "durable (Suc (snext s)) (strace s') = (daemon_begin_stmt sess q, ABegun True st c m) #
         new_work s1 s2 @ [(SDaemonEnd (request_status (sreq s2)) None, AEnd i)]" by blast
  have "list_all (says (request_status (sreq s2))) (durable (Suc (snext s)) (strace s'))"
    using d calls_say [OF handler_view(6) [OF assms(1) f(1)]] by simp
  then have "lines_say (snext s) (request_status (sreq s2)) s'" using lines_say_one [of "snext s" "Suc (snext s)"] o by blast
  with f show ?thesis by blast
qed

lemma run_do_success_lines:
  "handler_ok fn \<Longrightarrow> fresh s \<Longrightarrow> run_do env r sess fn s = (Inr v, s') \<Longrightarrow>
    \<exists>h s1 s2. fn h s1 = (Inr v, s2) \<and> sreq s1 = map_option (\<lambda>q. q\<lparr>qlog_id := 0\<rparr>) (sreq s) \<and> same_status s2 s'
     \<and> lines_say (snext s) (request_status (sreq s2)) s'"
  using direct_success_lines daemon_success_lines by (metis run_do_def)

section \<open>The payload\<close>

text \<open>The payload a statement gives the journal: \<open>api.log_request\<close> on the direct road, \<open>daemon.begin\<close> on the other.\<close>

definition line_payload :: "stmt \<Rightarrow> bytes option" where
  "line_payload q = (case q of SLogRequest _ _ _ pl _ _ _ \<Rightarrow> pl | SDaemonBegin _ _ _ _ _ pl _ \<Rightarrow> pl | _ \<Rightarrow> None)"

definition tells :: "bytes option \<Rightarrow> stmt \<times> answer \<Rightarrow> bool" where
  "tells pl w \<longleftrightarrow> line_payload (fst w) \<in> {None, pl}"

text \<open>Every payload in the durable statements after number \<open>n\<close> is \<open>pl\<close>.\<close>

definition lines_tell :: "nat \<Rightarrow> bytes option \<Rightarrow> pst \<Rightarrow> bool" where
  "lines_tell n pl s \<longleftrightarrow> (\<forall>u > n. list_all (tells pl) (durable u (strace s)))"

lemma tells_simps [simp]: "tells (payload_of q) (log_stmt r q st code, a)" "tells pl (SDaemonEnd k text, a)"
    "tells pl (SAuthorize x1 x2 x3 x4, a)" "tells (payload_of q) (daemon_begin_stmt sess q, a)"
  by (simp_all add: tells_def line_payload_def log_stmt_def daemon_begin_stmt_def Let_def)

lemma calls_tell: "list_all (\<lambda>p. is_call (fst p)) w \<Longrightarrow> list_all (tells pl) w"
  by (auto simp: list_all_iff tells_def line_payload_def is_call_def split: stmt.splits)

lemma openings_tell: "list_all (\<lambda>w. is_opening (fst w)) w \<Longrightarrow> list_all (tells pl) w"
  by (auto simp: list_all_iff tells_def is_opening_def line_payload_def split: stmt.splits)

lemma lines_tell_one:
  assumes "\<And>u. n < u \<Longrightarrow> u \<noteq> t \<Longrightarrow> durable u (strace s) = []" "list_all (tells pl) (durable t (strace s))"
  shows "lines_tell n pl s"
  unfolding lines_tell_def by (metis assms list.pred_inject(1))

lemma journal_req_some: "journal_req r s = Some q' \<Longrightarrow> sreq s = Some q \<Longrightarrow> q' = q"
  by (simp add: journal_req_def split: if_splits)

lemma direct_payload:
  assumes "handler_ok fn" "fresh s" "do_direct env r sess fn s = (x, s')" "sreq s = Some q"
  shows "lines_tell (snext s) (payload_of q) s'"
proof (cases x)
  case (Inl p)
  with do_direct_error [of env r sess fn s p s'] assms have "refusal_kept (\<lambda>q. refusal_stmt r q p) ALog (journal_req r s) s s'" by blast
  then consider "\<And>u. snext s < u \<Longrightarrow> durable u (strace s') = []"
    | t i pre where "durable t (strace s') = pre @ [(refusal_stmt r q p, ALog i)]" "list_all (\<lambda>w. is_opening (fst w)) pre"
      "\<And>u. snext s < u \<Longrightarrow> u \<noteq> t \<Longrightarrow> durable u (strace s') = []"
    unfolding refusal_kept_def using journal_req_some [OF _ assms(4)] by metis
  then show ?thesis
  proof cases
    case 2
    then show ?thesis using openings_tell [OF 2(2)] by (intro lines_tell_one [of _ t]) auto
  qed (simp add: lines_tell_def)
next
  case (Inr v)
  note d = assms(3) [unfolded Inr]
  have o: "durable u (strace s') = []" if "snext s < u" "u \<noteq> Suc (snext s)" for u
    using after_last [OF assms(2) _ do_direct_snext [OF d assms(1)] that] do_direct_since [OF assms(1,2), of env r sess] d by simp
  from do_direct_kept [OF d assms(1,2)] obtain m s1 s2 where
    f: "fn \<lparr>htx = Suc (snext s), hdaemon_tx = False, hroad_key = False\<rparr> s1 = (Inr v, s2)" and
    k: "let auth = (SAuthorize (authorize_sql r) (s_code sess) (nil_if_empty (s_agent sess)) (parse_ip_string (s_host sess)), AAuth True m) in
      case journal_req r s of None \<Rightarrow> durable (Suc (snext s)) (strace s') = auth # new_work s1 s2
      | Some q \<Rightarrow> \<exists>i. durable (Suc (snext s)) (strace s')
             = auth # new_work s1 s2 @ [(log_stmt r q (request_status (sreq s2)) [], ALog i)] \<and> log_is i s'" by blast
  show ?thesis
    by (rule lines_tell_one [OF o])
       (use k calls_tell [OF handler_view(6) [OF assms(1) f]] journal_req_some [OF _ assms(4)] in \<open>auto simp: Let_def split: option.splits\<close>)
qed

lemma daemon_payload:
  assumes "handler_ok fn" "fresh s" "do_daemon env r sess fn s = (x, s')" "sreq s = Some q"
  shows "lines_tell (snext s) (payload_of q) s'"
proof (cases x)
  case (Inl p)
  from do_daemon_error [OF assms(3) [unfolded Inl] assms(1,2,4)] obtain a where
    d: "daemon_left (Suc (snext s)) [(daemon_begin_stmt sess q, a)] p s'" and
    o: "\<And>u. snext s < u \<Longrightarrow> u \<noteq> Suc (snext s) \<Longrightarrow> durable u (strace s') = []" by blast
  show ?thesis by (rule lines_tell_one [OF o]) (use d in \<open>auto simp: daemon_left_def\<close>)
next
  case (Inr v)
  note d = assms(3) [unfolded Inr]
  have o: "durable u (strace s') = []" if "snext s < u" "u \<noteq> Suc (snext s)" for u
    using after_last [OF assms(2) _ do_daemon_snext [OF d assms(1)] that] do_daemon_since [OF assms(1,2), of env r sess] d by simp
  from do_daemon_kept [OF d assms(1,2)] obtain st c m s1 s2 i where
    f: "fn \<lparr>htx = Suc (snext s), hdaemon_tx = True, hroad_key = True\<rparr> s1 = (Inr v, s2)" and
    k: "durable (Suc (snext s)) (strace s') = (daemon_begin_stmt sess q, ABegun True st c m) #
         new_work s1 s2 @ [(SDaemonEnd (request_status (sreq s2)) None, AEnd i)]" using assms(4) by auto
  show ?thesis by (rule lines_tell_one [OF o]) (use k calls_tell [OF handler_view(6) [OF assms(1) f]] in auto)
qed

lemma run_do_payload:
  "handler_ok fn \<Longrightarrow> fresh s \<Longrightarrow> run_do env r sess fn s = (x, s') \<Longrightarrow> sreq s = Some q \<Longrightarrow> lines_tell (snext s) (payload_of q) s'"
  using direct_payload daemon_payload by (metis run_do_def)

end
