(* ===== verification/Query.thy ===== *)
theory Query
  imports Args
begin

text \<open>
  \<open>lib/query/query.go\<close>: the translation of the list parameters of a URL into the search, order and field
  arguments of the database. The values of a URL are a list of distinct names, in the order a range
  loop happens to visit the map; an error is HTTP 400 for the caller. An empty list of values for a
  name, which \<open>url.ParseQuery\<close> never makes, is the panic of the index expression.
\<close>

definition default_limit :: int where "default_limit = 500"
definition max_limit :: int where "max_limit = 1000"

record cond =
  cd_field :: string
  cd_compare :: string
  cd_value :: string
  cd_valarr :: "string list"

record params =
  pr_search :: "cond list"
  pr_order :: "string list"
  pr_fields :: "string list"
  pr_limit :: int
  pr_offset :: int

definition operators :: "(string \<times> string) list" where
  "operators = [(''eq'', ''EQL''), (''ne'', ''NEQ''), (''lt'', ''LSS''), (''lte'', ''LEQ''), (''gt'', ''GTR''), (''gte'', ''GEQ''),
     (''like'', ''LKE''), (''ilike'', ''IKE''), (''in'', []), (''null'', [])]"

text \<open>The pattern \<open>key\<close>: \<open>^(filter|page)\[([^\]]+)\](?:\[([^\]]+)\])?$\<close>, after the family and its bracket.\<close>

definition bracket :: "string \<Rightarrow> (string \<times> string) option" where
  "bracket s = (let n = takeWhile (\<lambda>c. c \<noteq> CHR 0x5D) s in
     if n = [] \<or> length n = length s then None else Some (n, drop (Suc (length n)) s))"

definition key_match :: "string \<Rightarrow> (string \<times> string) option" where
  "key_match s = (case bracket s of None \<Rightarrow> None
     | Some (a, r) \<Rightarrow>
       (case r of [] \<Rightarrow> Some (a, [])
        | c # r1 \<Rightarrow> if c \<noteq> CHR 0x5B then None
            else (case bracket r1 of None \<Rightarrow> None | Some (b, t) \<Rightarrow> if t = [] then Some (a, b) else None)))"

definition reserved :: "string \<Rightarrow> bool" where
  "reserved s \<longleftrightarrow> s \<noteq> [] \<and> list_all is_lower s"

definition condition :: "string \<Rightarrow> string \<Rightarrow> string \<Rightarrow> goerr + cond" where
  "condition field op0 val =
     (if \<not> is_ident field then Inl (EText (''filter: bad field '' @ quoted field))
      else (let op = (if op0 = [] then ''eq'' else op0) in
        case map_of operators op of
          None \<Rightarrow> Inl (EText (''filter['' @ field @ '']: unknown operator '' @ quoted op))
        | Some cmp \<Rightarrow>
          (if op = ''in'' then Inr \<lparr>cd_field = field, cd_compare = [], cd_value = [], cd_valarr = split_on CHR '','' val\<rparr>
           else if op = ''null'' then
             (if val = ''true'' then Inr \<lparr>cd_field = field, cd_compare = ''ISN'', cd_value = [], cd_valarr = []\<rparr>
              else Inr \<lparr>cd_field = field, cd_compare = ''INN'', cd_value = [], cd_valarr = []\<rparr>)
           else Inr \<lparr>cd_field = field, cd_compare = cmp, cd_value = val, cd_valarr = []\<rparr>)))"

definition page :: "params \<Rightarrow> string \<Rightarrow> string \<Rightarrow> goerr + params" where
  "page p k val =
     (let n = parse_int val in
      if k = ''limit'' then
        (case n of None \<Rightarrow> Inl (EText ''page[limit]: 1..1000'')
         | Some i \<Rightarrow> if i < 1 \<or> max_limit < i then Inl (EText ''page[limit]: 1..1000'') else Inr (p\<lparr>pr_limit := i\<rparr>))
      else if k = ''offset'' then
        (case n of None \<Rightarrow> Inl (EText ''page[offset]: at least 0'')
         | Some i \<Rightarrow> if i < 0 then Inl (EText ''page[offset]: at least 0'') else Inr (p\<lparr>pr_offset := i\<rparr>))
      else Inl (EText (''page['' @ k @ '']: not supported (use page[limit], page[offset])'')))"

fun sort_fields :: "string list \<Rightarrow> params \<Rightarrow> goerr + params" where
  "sort_fields [] p = Inr p"
| "sort_fields (f # fs) p =
     (let desc = has_prefix f ''-''; g = (if desc then tl f else f) in
      if \<not> is_ident g then Inl (EText (''sort: bad field '' @ quoted g))
      else sort_fields fs (p\<lparr>pr_order := pr_order p @ [g @ '' '' @ (if desc then ''DESC'' else ''ASC'')]\<rparr>))"

fun list_fields :: "string list \<Rightarrow> params \<Rightarrow> goerr + params" where
  "list_fields [] p = Inr p"
| "list_fields (f # fs) p = (if \<not> is_ident f then Inl (EText (''fields: bad field '' @ quoted f))
     else list_fields fs (p\<lparr>pr_fields := pr_fields p @ [f]\<rparr>))"

text \<open>One name of the query.\<close>

definition query_key :: "string \<Rightarrow> string \<Rightarrow> params \<Rightarrow> goerr + params" where
  "query_key k val p =
     (if k = ''sort'' then sort_fields (split_on CHR '','' val) p
      else if k = ''fields'' then list_fields (split_on CHR '','' val) p
      else if k = ''filter'' \<or> k = ''page'' then Inl (EText (k @ '' needs a key''))
      else if has_prefix k ''filter['' \<or> has_prefix k ''page['' then
        (case key_match (if has_prefix k ''page['' then drop 5 k else drop 7 k) of
           None \<Rightarrow> Inl (EText (''bad parameter '' @ quoted k))
         | Some (a, b) \<Rightarrow>
           (if has_prefix k ''page['' then page p a val
            else (case condition a b val of Inl e \<Rightarrow> Inl e | Inr c \<Rightarrow> Inr (p\<lparr>pr_search := pr_search p @ [c]\<rparr>))))
      else if reserved (cut_before CHR ''['' k) then
        Inl (EText (''unknown parameter '' @ quoted k @ '' (list parameters: filter, sort, fields, page[limit], page[offset])''))
      else Inr p)"

fun query_loop :: "url_values \<Rightarrow> params \<Rightarrow> goerr + params" where
  "query_loop [] p = Inr p"
| "query_loop ((k, vals) # r) p =
     (if vals = [] then Inl (EText ''panic: index out of range [-1]'')
      else (case query_key k (last vals) p of Inl e \<Rightarrow> Inl e | Inr p1 \<Rightarrow> query_loop r p1))"

definition query_parse :: "url_values \<Rightarrow> goerr + params" where
  "query_parse v = query_loop (sort_key fst v)
     \<lparr>pr_search = [], pr_order = [], pr_fields = [], pr_limit = default_limit, pr_offset = 0\<rparr>"

section \<open>JSON arguments\<close>

definition condition_json :: "cond \<Rightarrow> json" where
  "condition_json c = JObj ([(''field'', jstr (cd_field c))] @ omitempty ''compare'' (cd_compare c) @ omitempty ''value'' (cd_value c)
     @ (if cd_valarr c = [] then [] else [(''valarr'', JArr (map jstr (cd_valarr c)))]))"

definition json_args :: "params \<Rightarrow> bytes \<times> bytes \<times> bytes" where
  "json_args p =
     (if pr_search p = [] then [] else json_print (JArr (map condition_json (pr_search p))),
      if pr_order p = [] then [] else json_print (JArr (map jstr (pr_order p))),
      if pr_fields p = [] then [] else json_print (JArr (map jstr (pr_fields p))))"

section \<open>What a translated query is\<close>

definition compare_ok :: "cond \<Rightarrow> bool" where
  "compare_ok c \<longleftrightarrow> is_ident (cd_field c) \<and> cd_compare c \<in> set ([[], ''ISN'', ''INN''] @ map snd operators) \<and> (cd_compare c = [] \<longrightarrow> cd_valarr c \<noteq> [])"

definition order_ok :: "string \<Rightarrow> bool" where
  "order_ok s \<longleftrightarrow> (\<exists>f. is_ident f \<and> (s = f @ '' ASC'' \<or> s = f @ '' DESC''))"

definition params_ok :: "params \<Rightarrow> bool" where
  "params_ok p \<longleftrightarrow> 1 \<le> pr_limit p \<and> pr_limit p \<le> max_limit \<and> 0 \<le> pr_offset p \<and> pr_offset p < 2 ^ 63
     \<and> list_all is_ident (pr_fields p) \<and> list_all order_ok (pr_order p) \<and> list_all compare_ok (pr_search p)"

lemma condition_ok: "condition f op v = Inr c \<Longrightarrow> compare_ok c"
  by (auto simp: condition_def compare_ok_def operators_def Let_def split: if_splits option.splits)

lemma parse_int_less: "parse_int s = Some i \<Longrightarrow> i < 2 ^ 63"
  by (auto simp: parse_int_def Let_def int64_ok_def split: option.splits if_splits prod.splits)

lemma page_ok: "page p k v = Inr p' \<Longrightarrow> params_ok p \<Longrightarrow> params_ok p'"
  by (auto simp: page_def Let_def params_ok_def dest: parse_int_less split: if_splits option.splits)

lemma sort_fields_ok: "sort_fields fs p = Inr p' \<Longrightarrow> params_ok p \<Longrightarrow> params_ok p'"
proof (induction fs arbitrary: p)
  case (Cons f fs)
  define g where "g = (if has_prefix f ''-'' then tl f else f)"
  from Cons.prems(1) have g: "is_ident g"
    and r: "sort_fields fs (p\<lparr>pr_order := pr_order p @ [g @ '' '' @ (if has_prefix f ''-'' then ''DESC'' else ''ASC'')]\<rparr>) = Inr p'"
    by (auto simp: Let_def g_def split: if_splits)
  from g have "order_ok (g @ '' '' @ (if has_prefix f ''-'' then ''DESC'' else ''ASC''))" by (auto simp: order_ok_def)
  with Cons.IH [OF r] Cons.prems(2) show ?case by (simp add: params_ok_def)
qed simp

lemma list_fields_ok: "list_fields fs p = Inr p' \<Longrightarrow> params_ok p \<Longrightarrow> params_ok p'"
  by (induction fs arbitrary: p) (fastforce simp: params_ok_def split: if_splits)+

lemma search_ok: "params_ok p \<Longrightarrow> compare_ok c \<Longrightarrow> params_ok (p\<lparr>pr_search := pr_search p @ [c]\<rparr>)"
  by (simp add: params_ok_def)

lemma query_key_ok: "query_key k v p = Inr p' \<Longrightarrow> params_ok p \<Longrightarrow> params_ok p'"
  unfolding query_key_def
  by (auto split: if_splits option.splits sum.splits prod.splits
      intro: sort_fields_ok list_fields_ok page_ok search_ok condition_ok)

lemma query_loop_ok: "query_loop r p = Inr p' \<Longrightarrow> params_ok p \<Longrightarrow> params_ok p'"
proof (induction r arbitrary: p)
  case (Cons x r)
  then obtain k vals p1 where "x = (k, vals)" "query_key k (last vals) p = Inr p1" "query_loop r p1 = Inr p'"
    by (cases x) (auto split: if_splits sum.splits)
  with Cons query_key_ok show ?case by blast
qed simp

text \<open>C17: a query that is accepted asks for a page of 1 to 1000 rows at an offset that is not negative, and every name
  that will reach the database as text (a field, a sort key, a filtered column) is an identifier, every comparison one
  of the known operators.\<close>

theorem query_parse_ok:
  assumes "query_parse v = Inr p"
  shows "params_ok p"
  using query_loop_ok [OF assms [unfolded query_parse_def]]
  by (simp add: params_ok_def default_limit_def max_limit_def)

definition sample_query :: url_values where
  "sample_query = [(''sort'', [''-created,name'']), (''filter[state][in]'', [''a,b'']), (''page[limit]'', [''50'']), (''utm_source'', [''x''])]"

theorem query_parse_ok_witness:
  "query_parse sample_query = Inr \<lparr>pr_search = [\<lparr>cd_field = ''state'', cd_compare = [], cd_value = [], cd_valarr = [''a'', ''b'']\<rparr>],
     pr_order = [''created DESC'', ''name ASC''], pr_fields = [], pr_limit = 50, pr_offset = 0\<rparr>
   \<and> params_ok \<lparr>pr_search = [\<lparr>cd_field = ''state'', cd_compare = [], cd_value = [], cd_valarr = [''a'', ''b'']\<rparr>],
     pr_order = [''created DESC'', ''name ASC''], pr_fields = [], pr_limit = 50, pr_offset = 0\<rparr>"
proof -
  have q: "query_parse sample_query = Inr \<lparr>pr_search = [\<lparr>cd_field = ''state'', cd_compare = [], cd_value = [], cd_valarr = [''a'', ''b'']\<rparr>],
     pr_order = [''created DESC'', ''name ASC''], pr_fields = [], pr_limit = 50, pr_offset = 0\<rparr>" by code_simp
  with query_parse_ok [OF q] show ?thesis by blast
qed

section \<open>Nothing is ignored, and the order does not matter\<close>

text \<open>The translation is a function of the query: the order in which the map of values is visited does not change it.\<close>

lemma query_parse_order:
  assumes "mset v = mset w" "distinct (map fst v)"
  shows "query_parse w = query_parse v"
  unfolding query_parse_def sort_key_unique [OF assms] ..

lemma query_loop_refuses:
  "(k, vals) \<in> set r \<Longrightarrow> (\<And>p. isl (query_key k (last vals) p)) \<Longrightarrow> isl (query_loop r p)"
proof (induction r arbitrary: p)
  case (Cons x r)
  obtain k' vals' where x: "x = (k', vals')" by force
  show ?case
  proof (cases "query_key k' (last vals') p")
    case (Inr p1)
    then have "(k', vals') \<noteq> (k, vals)" using Cons.prems(2) [of p] by (auto simp: isl_def)
    with Cons x Inr show ?thesis by auto
  qed (simp add: x)
qed simp

text \<open>A typo is refused, never ignored: any name whose family (the part before the first bracket) consists of the
  letters a to z and is none of sort, fields, filter and page makes the whole query an error.\<close>

lemma query_unknown_refused:
  assumes "(k, vals) \<in> set v" "reserved (cut_before CHR ''['' k)" "cut_before CHR ''['' k \<notin> {''sort'', ''fields'', ''filter'', ''page''}"
  shows "isl (query_parse v)"
proof -
  have n: "k \<noteq> ''sort''" "k \<noteq> ''fields''" "k \<noteq> ''filter''" "k \<noteq> ''page''" "\<not> has_prefix k ''filter[''" "\<not> has_prefix k ''page[''"
    using assms(3) by (auto simp: cut_before_def has_prefix_def prefix_def)
  have "isl (query_key k (last vals) p)" for p using n assms(2) by (simp add: query_key_def)
  with query_loop_refuses [of k vals "sort_key fst v"] assms(1) show ?thesis by (simp add: query_parse_def)
qed

text \<open>The one exception: a second bracket after \<open>page[limit]\<close> or \<open>page[offset]\<close> is matched and dropped, whatever it
  says, so \<open>page[limit][x]\<close> is accepted as \<open>page[limit]\<close>.\<close>

lemma page_extra_bracket:
  assumes "CHR 0x5D \<notin> set x" "x \<noteq> []"
  shows "query_key (''page[limit]['' @ x @ '']'') val p = page p ''limit'' val"
proof -
  have t: "takeWhile (\<lambda>c. c \<noteq> CHR 0x5D) (x @ '']'') = x" using assms(1) by (induction x) auto
  have "key_match (''limit]['' @ x @ '']'') = Some (''limit'', x)"
    using assms t by (simp add: key_match_def bracket_def Let_def)
  then show ?thesis by (simp add: query_key_def has_prefix_def)
qed

end
