(* ===== verification/Rest.thy ===== *)
theory Rest
  imports Journal Query
begin

text \<open>
  \<open>lib/rest/rest.go\<close>: what every package repeats over the database functions: the description of the request
  for the journal, errors as problem documents, identifiers from the path, ETag, the reading of a
  body with unknown keys refused, projection, a list with total and paging, one row with ETag and
  304, the precondition of a PATCH. A handler of the mux is a function from the request and the
  response writer to the response; its \<open>Doer\<close> is the runner, its session the one the host put in the
  context. SHA-256 in hexadecimal is the parameter \<open>x_hash\<close>. A row is \<open>None\<close> for a nil
  \<open>json.RawMessage\<close> (SQL NULL).
\<close>

record rctx =
  x_env :: env
  x_runner :: runner
  x_sess :: session
  x_hash :: "bytes \<Rightarrow> string"

type_synonym row = "bytes option"

record resource =
  res_prefix :: string
  res_get :: string
  res_list :: string
  res_count :: string
  res_int_id :: bool

definition req_of :: "request \<Rightarrow> nat \<Rightarrow> bytes \<Rightarrow> preq" where
  "req_of r status payload = \<lparr>qmethod = rmethod r, qpath = rescaped r, qpayload = payload,
     qrequest_id = hdr_get (rheader r) ''X-Request-Id'', qstatus = status, qlog_id = 0\<rparr>"

text \<open>\<open>d.Do(r.Context(), SessionOf(r), ReqOf(r, status, payload), fn)\<close>.\<close>

definition do_req :: "rctx \<Rightarrow> request \<Rightarrow> nat \<Rightarrow> bytes \<Rightarrow> 'a handler \<Rightarrow> pst \<Rightarrow> (goerr + 'a) \<times> pst" where
  "do_req x r status payload fn s =
     run_do (x_env x) (x_runner x) (x_sess x) fn (s\<lparr>sreq := Some (req_of r status payload)\<rparr>)"

definition fail :: "request \<Rightarrow> goerr \<Rightarrow> response \<Rightarrow> response" where
  "fail r err w = (case as_problem err of
       None \<Rightarrow> problem_write (problem_new 500 ''internal'' ''Internal error'' []) w (Some r)
     | Some p \<Rightarrow> problem_write p w (Some r))"

text \<open>The shapes every handler is made of: an error is written and ends the handler; \<open>err != nil\<close> after a check;
  \<open>Do\<close> with its error written or its result answered.\<close>

type_synonym answerer = "response \<Rightarrow> pst \<Rightarrow> response \<times> pst"

definition refuse :: "request \<Rightarrow> goerr \<Rightarrow> answerer" where
  "refuse r e w s = (fail r e w, s)"

definition checked :: "request \<Rightarrow> goerr + 'a \<Rightarrow> ('a \<Rightarrow> answerer) \<Rightarrow> answerer" where
  "checked r c k = (case c of Inl e \<Rightarrow> refuse r e | Inr a \<Rightarrow> k a)"

definition do_answer :: "rctx \<Rightarrow> request \<Rightarrow> nat \<Rightarrow> bytes \<Rightarrow> 'a handler \<Rightarrow> ('a \<Rightarrow> pst \<Rightarrow> response \<Rightarrow> response) \<Rightarrow> answerer" where
  "do_answer x r status payload fn ok w s =
     (case do_req x r status payload fn s of
        (Inl e, s1) \<Rightarrow> (fail r e w, s1)
      | (Inr v, s1) \<Rightarrow> (ok v s1 w, s1))"

lemma snd_do_answer: "snd (do_answer x r st pl fn ok w s) = snd (do_req x r st pl fn s)"
  by (simp add: do_answer_def split: prod.splits sum.splits)

text \<open>A check that only has an error; checks one after the other, the first error ends them.\<close>

definition err_or :: "goerr option \<Rightarrow> 'a \<Rightarrow> goerr + 'a" where
  "err_or e v = (case e of None \<Rightarrow> Inr v | Some x \<Rightarrow> Inl x)"

definition ebind :: "goerr + 'a \<Rightarrow> ('a \<Rightarrow> goerr + 'b) \<Rightarrow> goerr + 'b" where
  "ebind c k = (case c of Inl e \<Rightarrow> Inl e | Inr a \<Rightarrow> k a)"

section \<open>Identifiers, JSON, ETag\<close>

definition id_of :: "request \<Rightarrow> goerr + string" where
  "id_of r = (let i = path_value r ''id'' in if \<not> uuid_shape i then Inl (bad_request ''id must be a UUID'') else Inr i)"

definition int_id_of :: "request \<Rightarrow> goerr + int" where
  "int_id_of r = (case parse_int (path_value r ''id'') of None \<Rightarrow> Inl (bad_request ''id must be a positive integer'')
     | Some i \<Rightarrow> if i < 1 then Inl (bad_request ''id must be a positive integer'') else Inr i)"

definition res_id :: "resource \<Rightarrow> request \<Rightarrow> goerr + aval" where
  "res_id res r = (if res_int_id res then (case int_id_of r of Inl e \<Rightarrow> Inl e | Inr i \<Rightarrow> Inr (VInt i))
     else (case id_of r of Inl e \<Rightarrow> Inl e | Inr i \<Rightarrow> Inr (VStr i)))"

definition row_bytes :: "row \<Rightarrow> bytes" where
  "row_bytes row = (case row of None \<Rightarrow> [] | Some b \<Rightarrow> b)"

definition write_json :: "nat \<Rightarrow> bytes \<Rightarrow> response \<Rightarrow> response" where
  "write_json status body w = write_body body (write_header status (set_header ''Content-Type'' ''application/json'' w))"

definition etag_of :: "(bytes \<Rightarrow> string) \<Rightarrow> row \<Rightarrow> string" where
  "etag_of hash row =
     (let b = row_bytes row in
      if b = [] \<or> \<not> json_valid b then []
      else (let u = fst (json_unmarshal [(''lastupdate'', KString), (''udate'', KString)] b);
                l = (if gstr u ''lastupdate'' = [] then gstr u ''udate'' else gstr u ''lastupdate'')
            in if l \<noteq> [] then ''W/'' @ quoted l else ''W/'' @ quoted (take 32 (hash b))))"

definition set_etag :: "rctx \<Rightarrow> row \<Rightarrow> response \<Rightarrow> response" where
  "set_etag x row w = (let tag = etag_of (x_hash x) row in if tag \<noteq> [] then set_header ''Etag'' tag w else w)"

text \<open>\<open>ReadBody\<close>: the fields of the body and its raw text; the reader stops at one MiB. An empty text is no error.
  Only the first JSON value of the text is decoded.\<close>

fun take_bytes :: "int \<Rightarrow> bytes \<Rightarrow> bytes" where
  "take_bytes n [] = []"
| "take_bytes n (c # cs) = (if n \<le> 0 then [] else c # take_bytes (n - 1) cs)"

lemma take_bytes_take: "take_bytes n b = take (nat n) b"
  by (induction n b rule: take_bytes.induct) (auto simp: nat_diff_distrib take_Cons split: nat.splits)

definition limit_body :: "bytes \<Rightarrow> bytes" where
  "limit_body b = take_bytes 1048576 b"

definition read_body :: "(string \<times> jkind) list \<Rightarrow> request \<Rightarrow> goerr + (gstruct \<times> bytes)" where
  "read_body fs r =
     (case rbody r of None \<Rightarrow> Inl (bad_request ''cannot read body'')
      | Some b \<Rightarrow>
        (let raw = limit_body b in
         if raw = [] then Inr (Map.empty, raw)
         else (let (g, err) = (case json_first raw of None \<Rightarrow> (Map.empty, Some JSyntax) | Some (j, _) \<Rightarrow> decode_struct True fs j) in
           case err of None \<Rightarrow> Inr (g, raw)
           | Some e \<Rightarrow>
             (let bad = problem_new 400 ''validation'' ''Bad request'' (jerr_text e) in
              Inl (EProblem (if has_prefix (jerr_text e) ''json: unknown field '' then with_code bad code_json_key else bad))))))"

definition project :: "row \<Rightarrow> string list \<Rightarrow> row" where
  "project row flds =
     (if flds = [] then row
      else (case json_object (row_bytes row) of None \<Rightarrow> row
        | Some m \<Rightarrow> Some (json_print (json_map
            (List.map_filter (\<lambda>f. case map_of m f of None \<Rightarrow> None | Some v \<Rightarrow> Some (f, v)) (remdups flds))))))"

text \<open>\<open>json.Marshal\<close> of rows; a row that is no JSON text is its error and leaves no body.\<close>

definition row_json :: "row \<Rightarrow> json option" where
  "row_json row = (case row of None \<Rightarrow> Some JNull | Some b \<Rightarrow> json_parse b)"

fun rows_json :: "row list \<Rightarrow> json list option" where
  "rows_json [] = Some []"
| "rows_json (r # rs) = (case row_json r of None \<Rightarrow> None | Some j \<Rightarrow> map_option (\<lambda>t. j # t) (rows_json rs))"

definition marshal_rows :: "row list \<Rightarrow> bytes" where
  "marshal_rows rows = (case rows_json rows of None \<Rightarrow> [] | Some js \<Rightarrow> json_print (JArr js))"

section \<open>Reading handlers\<close>

text \<open>\<open>CallRowsOf\<close>: the rows of one function as a JSON array.\<close>

definition call_rows_of :: "rctx \<Rightarrow> string \<Rightarrow> (request \<Rightarrow> goerr + args) \<Rightarrow> request \<Rightarrow> answerer" where
  "call_rows_of x fn args r =
     checked r (args r) (\<lambda>a. do_answer x r 200 [] (\<lambda>h. call (x_env x) h fn a) (\<lambda>rows _. write_json 200 (marshal_rows rows)))"

definition call_rows_handler :: "rctx \<Rightarrow> string \<Rightarrow> args \<Rightarrow> request \<Rightarrow> answerer" where
  "call_rows_handler x fn a = call_rows_of x fn (\<lambda>_. Inr a)"

text \<open>The deprecated forms that take a text of SQL: the text is sent as it is, on either road.\<close>

definition rows_sql :: "env \<Rightarrow> string \<Rightarrow> aval list \<Rightarrow> row list handler" where
  "rows_sql env sql vals h s = (let (r, s1) = send env (htx h) ReqCtx (SApi sql vals) s in (scan_rows r, s1))"

definition rows_of :: "rctx \<Rightarrow> string \<Rightarrow> (request \<Rightarrow> goerr + aval list) \<Rightarrow> request \<Rightarrow> answerer" where
  "rows_of x sql args r =
     checked r (args r) (\<lambda>a. do_answer x r 200 [] (rows_sql (x_env x) sql a) (\<lambda>rows _. write_json 200 (marshal_rows rows)))"

definition rows_handler :: "rctx \<Rightarrow> string \<Rightarrow> aval list \<Rightarrow> request \<Rightarrow> answerer" where
  "rows_handler x sql a = rows_of x sql (\<lambda>_. Inr a)"

text \<open>What the transaction of a one-row answer does: no row is 404, an unchanged row is journalled as 304.\<close>

definition row_fn :: "rctx \<Rightarrow> request \<Rightarrow> row handler \<Rightarrow> row handler" where
  "row_fn x r read h =
     htry (read h) (\<lambda>res. case res of
         Inl e \<Rightarrow> hfail (if is_no_row e then not_found else e)
       | Inr row \<Rightarrow>
         (let tag = etag_of (x_hash x) row in
          hbind (if tag \<noteq> [] \<and> hdr_get (rheader r) ''If-None-Match'' = tag then set_status 304 else hret ())
            (\<lambda>_. hret row)))"

definition status_of :: "pst \<Rightarrow> nat" where
  "status_of s = (case sreq s of None \<Rightarrow> 0 | Some q \<Rightarrow> qstatus q)"

text \<open>The answer of a one-row handler: the ETag, then 304 without a body or the (projected) row.\<close>

definition row_answer :: "rctx \<Rightarrow> string list \<Rightarrow> row \<Rightarrow> pst \<Rightarrow> response \<Rightarrow> response" where
  "row_answer x only row s w = (let w1 = set_etag x row w in
     if status_of s = 304 then write_header 304 w1 else write_json 200 (row_bytes (project row only)) w1)"

definition row_handler :: "rctx \<Rightarrow> (request \<Rightarrow> goerr + 'a) \<Rightarrow> ('a \<Rightarrow> row handler) \<Rightarrow> (request \<Rightarrow> goerr + string list) option
    \<Rightarrow> request \<Rightarrow> answerer" where
  "row_handler x args read flds r =
     checked r (args r) (\<lambda>a.
     checked r (case flds of None \<Rightarrow> Inr [] | Some f \<Rightarrow> f r) (\<lambda>only.
       do_answer x r 200 [] (row_fn x r (read a)) (row_answer x only)))"

definition call_row_handler :: "rctx \<Rightarrow> string \<Rightarrow> (request \<Rightarrow> goerr + args) \<Rightarrow> request \<Rightarrow> answerer" where
  "call_row_handler x fn args = row_handler x args (\<lambda>a h. call_row (x_env x) h fn a) None"

definition row_sql :: "env \<Rightarrow> string \<Rightarrow> aval list \<Rightarrow> row handler" where
  "row_sql env sql vals h = hbind (rows_sql env sql vals h) (\<lambda>rows. case rows of [] \<Rightarrow> hfail ENoRow | row # _ \<Rightarrow> hret row)"

definition sql_row_handler :: "rctx \<Rightarrow> string \<Rightarrow> (request \<Rightarrow> goerr + aval list) \<Rightarrow> request \<Rightarrow> answerer" where
  "sql_row_handler x sql args = row_handler x args (row_sql (x_env x) sql) None"

text \<open>\<open>RowFunc\<close> and \<open>RowFieldsFunc\<close>: the row is read by a function over the arguments; the second takes a projection.\<close>

definition row_func :: "rctx \<Rightarrow> (request \<Rightarrow> goerr + args) \<Rightarrow> (args \<Rightarrow> row handler) \<Rightarrow> request \<Rightarrow> answerer" where
  "row_func x args read = row_handler x args read None"

definition row_fields_func :: "rctx \<Rightarrow> (request \<Rightarrow> goerr + args) \<Rightarrow> (args \<Rightarrow> row handler) \<Rightarrow> (request \<Rightarrow> goerr + string list)
    \<Rightarrow> request \<Rightarrow> answerer" where
  "row_fields_func x args read flds = row_handler x args read (Some flds)"

definition get_row :: "env \<Rightarrow> resource \<Rightarrow> aval \<Rightarrow> row handler" where
  "get_row env res i h =
     htry (call_row env h (res_get res) [(''id'', i)]) (\<lambda>x. case x of
         Inl e \<Rightarrow> hfail (if is_no_row e then not_found else e)
       | Inr row \<Rightarrow> hret row)"

definition dec_int :: "json \<Rightarrow> int option" where
  "dec_int j = (case j of JNum t \<Rightarrow> parse_int t | JNull \<Rightarrow> Some 0 | _ \<Rightarrow> None)"

definition list_fn :: "env \<Rightarrow> resource \<Rightarrow> params \<Rightarrow> (row list \<times> int) handler" where
  "list_fn env res p h =
     (case json_args p of (search, orderby, _) \<Rightarrow>
      hbind (call_scalar env h (res_count res) [(''search'', json_arg search)] dec_int) (\<lambda>cnt.
      hbind (call env h (res_list res) [(''search'', json_arg search), (''limit'', VInt (pr_limit p)), (''offset'', VInt (pr_offset p)),
               (''orderby'', json_arg orderby)]) (\<lambda>rows.
      hret (map (\<lambda>row. project row (pr_fields p)) rows, case cnt of None \<Rightarrow> 0 | Some n \<Rightarrow> n))))"

definition list_body :: "row list \<Rightarrow> int \<Rightarrow> params \<Rightarrow> bytes" where
  "list_body items cnt p = (case rows_json items of None \<Rightarrow> []
     | Some js \<Rightarrow> json_print (json_map [(''items'', JArr js), (''total'', jint cnt), (''limit'', jint (pr_limit p)), (''offset'', jint (pr_offset p))]))"

definition query_payload :: "request \<Rightarrow> bytes" where
  "query_payload r = json_print (json_map [(''query'', jstr (rrawquery r))])"

definition query_error :: "goerr \<Rightarrow> string" where
  "query_error e = (case e of EText t \<Rightarrow> t | _ \<Rightarrow> [])"

definition list_handler :: "rctx \<Rightarrow> resource \<Rightarrow> request \<Rightarrow> answerer" where
  "list_handler x res r =
     checked r (case query_parse (rquery r) of Inl e \<Rightarrow> Inl (bad_request (query_error e)) | Inr p \<Rightarrow> Inr p) (\<lambda>p.
       do_answer x r 200 (query_payload r) (list_fn (x_env x) res p) (\<lambda>(items, cnt) _. write_json 200 (list_body items cnt p)))"

definition get_handler :: "rctx \<Rightarrow> resource \<Rightarrow> request \<Rightarrow> answerer" where
  "get_handler x res r =
     checked r (res_id res r) (\<lambda>i. do_answer x r 200 [] (row_fn x r (get_row (x_env x) res i)) (row_answer x []))"

section \<open>Preconditions\<close>

definition precondition :: "request \<Rightarrow> goerr option" where
  "precondition r = (if hdr_get (rheader r) ''If-Match'' = []
     then Some (EProblem (problem_new 428 ''precondition-required'' ''Precondition required''
            ''PATCH needs If-Match with the ETag of the current revision'')) else None)"

definition if_match :: "(bytes \<Rightarrow> string) \<Rightarrow> request \<Rightarrow> row \<Rightarrow> goerr option" where
  "if_match hash r current =
     (case precondition r of Some e \<Rightarrow> Some e
      | None \<Rightarrow>
        (let tag = hdr_get (rheader r) ''If-Match'' in
         if tag \<noteq> ''*'' \<and> etag_of hash current \<noteq> tag
         then Some (EProblem (problem_new 412 ''precondition-failed'' ''Precondition failed'' ''the object changed since it was read''))
         else None))"

section \<open>The wire and the journal\<close>

lemma fail_status [simp]: "wstatus (fail r e w) = Some (case wstatus w of Some n \<Rightarrow> n
    | None \<Rightarrow> (case as_problem e of None \<Rightarrow> 500 | Some p \<Rightarrow> pstatus p))"
  by (simp add: fail_def split: option.splits)

lemma write_json_status [simp]: "wstatus (write_json n b w) = Some (case wstatus w of Some m \<Rightarrow> m | None \<Rightarrow> n)"
  by (simp add: write_json_def split: option.splits)

lemma set_etag_status [simp]: "wstatus (set_etag x row w) = wstatus w"
  by (simp add: set_etag_def Let_def)

text \<open>The outcome of a handler of the mux: it answers, the journal lines it leaves say the status of the answer, it uses only
  transactions it began, and after an answer of 400 or more no call of it is durable.\<close>

definition wire_ok :: "pst \<Rightarrow> response \<Rightarrow> pst \<Rightarrow> bool" where
  "wire_ok s w' s' \<longleftrightarrow> since (snext s) s s' \<and> (\<exists>n. wstatus w' = Some n \<and> lines_say (snext s) n s'
     \<and> (400 \<le> n \<longrightarrow> (\<forall>u > snext s. no_calls (durable u (strace s')))))"

lemma wire_local: "fresh s \<Longrightarrow> wstatus w' \<noteq> None \<Longrightarrow> wire_ok s w' s"
  by (auto simp: wire_ok_def since_def lines_say_def fresh_durable no_calls_def)

lemma refusal_line_status: "as_problem e = Some p \<Longrightarrow> fst (refusal_line e) = pstatus p"
  by (simp add: refusal_line_def)

lemma wire_error:
  assumes "handler_ok fn" "fresh s" "wstatus w = None" "do_req x r st pl fn s = (Inl e, s1)"
  shows "wire_ok s (fail r e w) s1"
proof -
  let ?s = "s\<lparr>sreq := Some (req_of r st pl)\<rparr>"
  have d: "run_do (x_env x) (x_runner x) (x_sess x) fn ?s = (Inl e, s1)" and f: "fresh ?s"
    using assms(2,4) by (simp_all add: do_req_def)
  obtain p where p: "as_problem e = Some p" using road.error_problem [OF assms(1) f d] by blast
  have "lines_say (snext s) (pstatus p) s1" using run_do_error_lines [OF assms(1) f d] by (simp add: refusal_line_status [OF p])
  moreover have "no_calls (durable u (strace s1))" if "snext s < u" for u using road.error_clean [OF assms(1) f d] that by simp
  moreover have "since (snext s) s s1" using road.own_transactions [OF assms(1) f, of "x_env x" "x_runner x" "x_sess x"] d by simp
  ultimately show ?thesis using assms(3) p by (auto simp: wire_ok_def)
qed

lemma wire_success:
  assumes "handler_ok fn" "fresh s" "do_req x r st pl fn s = (Inr v, s1)" "wstatus w' = Some n" "n < 400"
    and n: "\<And>h s0 s2. fn h s0 = (Inr v, s2) \<Longrightarrow> sreq s0 = Some (req_of r st pl) \<Longrightarrow> same_status s2 s1 \<Longrightarrow> n = request_status (sreq s2)"
  shows "wire_ok s w' s1"
proof -
  let ?s = "s\<lparr>sreq := Some (req_of r st pl)\<rparr>"
  have d: "run_do (x_env x) (x_runner x) (x_sess x) fn ?s = (Inr v, s1)" and f: "fresh ?s"
    using assms(2,3) by (simp_all add: do_req_def)
  from run_do_success_lines [OF assms(1) f d] obtain h s0 s2 where "fn h s0 = (Inr v, s2)"
    "sreq s0 = Some (req_of r st pl)" "same_status s2 s1" "lines_say (snext s) (request_status (sreq s2)) s1"
    by (auto simp: req_of_def)
  moreover have "since (snext s) s s1" using road.own_transactions [OF assms(1) f, of "x_env x" "x_runner x" "x_sess x"] d by simp
  ultimately show ?thesis using n assms(4,5) by (fastforce simp: wire_ok_def)
qed

text \<open>The usual step of a transaction: it keeps the contract of the road and leaves the request alone.\<close>

definition quiet :: "'a step \<Rightarrow> bool" where
  "quiet m \<longleftrightarrow> (\<forall>s. sreq (snd (m s)) = sreq s)"

definition plain_step :: "hctx \<Rightarrow> 'a step \<Rightarrow> bool" where
  "plain_step h m \<longleftrightarrow> step_ok h m \<and> quiet m"

named_theorems plains

lemma plain_basic [plains]: "plain_step h (hret v)" "plain_step h (hfail e)"
  by (simp_all add: plain_step_def go_intros) (simp_all add: quiet_def hret_def hfail_def)

lemma plain_try [plains]: "plain_step h m \<Longrightarrow> (\<And>v. plain_step h (k v)) \<Longrightarrow> plain_step h (htry m k)"
proof -
  assume *: "plain_step h m" "\<And>v. plain_step h (k v)"
  then have "quiet (htry m k)" unfolding plain_step_def quiet_def htry_def by (auto split: prod.splits) (metis snd_conv)
  with * show ?thesis by (auto simp: plain_step_def intro: step_ok_try)
qed

lemma plain_bind [plains]: "plain_step h m \<Longrightarrow> (\<And>v. plain_step h (k v)) \<Longrightarrow> plain_step h (hbind m k)"
  unfolding hbind_try by (rule plain_try) (auto intro: plain_basic split: sum.splits)

lemma plain_if [plains]: "plain_step h m \<Longrightarrow> plain_step h m' \<Longrightarrow> plain_step h (if b then m else m')"
  by simp

lemma plain_sum [plains]: "(\<And>e. plain_step h (f e)) \<Longrightarrow> (\<And>v. plain_step h (g v)) \<Longrightarrow> plain_step h (case x of Inl e \<Rightarrow> f e | Inr v \<Rightarrow> g v)"
  by (cases x) simp_all

lemma plain_option [plains]: "plain_step h m \<Longrightarrow> (\<And>v. plain_step h (g v)) \<Longrightarrow> plain_step h (case x of None \<Rightarrow> m | Some v \<Rightarrow> g v)"
  by (cases x) simp_all

lemma quiet_call: "quiet (call env h fn a)"
  unfolding quiet_def call_def call_daemon_def Let_def
  by (auto dest!: sendD split: option.splits sum.splits prod.splits)

lemma plain_call [plains]: "plain_step h (call env h fn a)"
  by (simp add: plain_step_def quiet_call call_ok)

lemma plain_rows_sql [plains]: "plain_step h (rows_sql env sql vals h)"
proof -
  have "is_call (SApi sql vals)" by (simp add: is_call_def)
  then show ?thesis using step_ok_send [of "SApi sql vals" h scan_rows env]
    unfolding plain_step_def quiet_def rows_sql_def Let_def by (simp add: step_ok_def prod.case_eq_if)
qed

lemma plain_call_row [plains]: "plain_step h (call_row env h fn a)"
  using quiet_call [of env h fn a] call_row_ok [of h env fn a]
  unfolding plain_step_def quiet_def call_row_def Let_def by (simp add: prod.case_eq_if)

lemma plain_call_scalar [plains]: "plain_step h (call_scalar env h fn a dec)"
  using plain_call_row [of h env fn a] call_scalar_ok [of h env fn a dec]
  unfolding plain_step_def quiet_def call_scalar_def Let_def by (simp add: prod.case_eq_if)

lemma plain_get_row [plains]: "plain_step h (get_row env res i h)"
  unfolding get_row_def by (intro plains)

lemma plain_list_fn [plains]: "plain_step h (list_fn env res p h)"
  unfolding list_fn_def by (cases "json_args p") (auto intro!: plains)

lemma plain_list [plains]: "plain_step h m \<Longrightarrow> (\<And>a l. plain_step h (g a l)) \<Longrightarrow> plain_step h (case xs of [] \<Rightarrow> m | a # l \<Rightarrow> g a l)"
  by (cases xs) simp_all

lemma plain_row_sql [plains]: "plain_step h (row_sql env sql vals h)"
  unfolding row_sql_def by (intro plains)

definition plain_handler :: "'a handler \<Rightarrow> bool" where
  "plain_handler fn \<longleftrightarrow> (\<forall>h. plain_step h (fn h))"

lemma plain_handlerI [plains]: "(\<And>h. plain_step h (fn h)) \<Longrightarrow> plain_handler fn"
  by (simp add: plain_handler_def)

lemma plain_handler_ok: "plain_handler fn \<Longrightarrow> handler_ok fn"
  by (simp add: plain_handler_def plain_step_def handler_ok_def)

lemma plain_request: "plain_handler fn \<Longrightarrow> fn h s = (v, s') \<Longrightarrow> sreq s' = sreq s"
  unfolding plain_handler_def plain_step_def quiet_def by (metis snd_conv)

lemma row_fn_ok: "plain_handler read \<Longrightarrow> handler_ok (row_fn x r read)"
  using plain_handler_ok [of read] unfolding handler_ok_def row_fn_def Let_def
  by (auto intro!: step_ok_try step_ok_bind step_ok_ret step_ok_fail step_ok_status split: sum.splits)

lemma row_fn_status:
  assumes "row_fn x r read h s0 = (Inr row, s2)" "plain_handler read" "sreq s0 = Some q"
  shows "sreq s2 = Some (q\<lparr>qstatus := (if etag_of (x_hash x) row \<noteq> [] \<and> hdr_get (rheader r) ''If-None-Match'' = etag_of (x_hash x) row
     then 304 else qstatus q)\<rparr>)"
proof -
  obtain y s1 where y: "read h s0 = (y, s1)" by force
  then have "sreq s1 = Some q" using assms(2,3) plain_request by metis
  then show ?thesis using assms(1) y
    by (auto simp: row_fn_def htry_def hbind_def hret_def hfail_def set_status_def Let_def split: sum.splits if_splits)
qed

text \<open>What is durable after \<open>Do\<close> is the work of the handler, which returned; a refused request leaves no call.\<close>

lemma do_answer_durable:
  assumes "do_answer x r st pl fn ok w s = (w', s')" "handler_ok fn" "fresh s" "calls_in (durable u (strace s')) \<noteq> []" "snext s < u"
  obtains v h s0 s2 where "fn h s0 = (Inr v, s2)" "w' = ok v s' w" "u = Suc (snext s)" "calls_in (durable u (strace s')) = new_work s0 s2"
proof -
  let ?s = "s\<lparr>sreq := Some (req_of r st pl)\<rparr>"
  have f: "fresh ?s" using assms(3) by simp
  obtain y s1 where d: "run_do (x_env x) (x_runner x) (x_sess x) fn ?s = (y, s1)" by force
  have s1: "s' = s1" using assms(1) d by (auto simp: do_answer_def do_req_def split: sum.splits)
  show thesis
  proof (cases y)
    case (Inl e)
    then have "no_calls (durable u (strace s'))" using road.error_clean [OF assms(2) f] d s1 assms(5) by simp
    then show thesis using assms(4) no_calls_in by blast
  next
    case (Inr v)
    from road.success_kept [OF assms(2) f d [unfolded Inr]] obtain h s0 s2 where
      "snext s1 = Suc (snext s)" "fn h s0 = (Inr v, s2)" "calls_in (durable (Suc (snext s)) (strace s1)) = new_work s0 s2" by auto
    moreover have "fresh s1" using road.run_fresh [OF assms(2) f d] by simp
    then have "u \<le> snext s1" using fresh_durable [of s1 u] assms(4) s1 by (cases "snext s1 < u") auto
    moreover have "u = Suc (snext s)" using calculation assms(5) by simp
    ultimately show thesis using that [of h s0 v s2] assms(1,5) d s1 Inr by (simp add: do_answer_def do_req_def)
  qed
qed

text \<open>Answerers that keep the promise, and the rules that build them.\<close>

definition wired :: "answerer \<Rightarrow> bool" where
  "wired m \<longleftrightarrow> (\<forall>w s w' s'. fresh s \<longrightarrow> wstatus w = None \<longrightarrow> m w s = (w', s') \<longrightarrow> wire_ok s w' s')"

named_theorems wires

lemma wired_refuse [wires]: "wired (refuse r e)"
  by (auto simp: wired_def refuse_def intro: wire_local)

lemma wired_checked [wires]: "(\<And>a. wired (k a)) \<Longrightarrow> wired (checked r c k)"
  by (simp add: checked_def wired_refuse split: sum.splits)

lemma wired_if [wires]: "wired m \<Longrightarrow> wired m' \<Longrightarrow> wired (if b then m else m')"
  by simp

text \<open>What a handler may write on success: the status the journal was told.\<close>

definition says_status :: "nat \<Rightarrow> (response \<Rightarrow> response) \<Rightarrow> bool" where
  "says_status n f \<longleftrightarrow> (\<forall>w. wstatus w = None \<longrightarrow> wstatus (f w) = Some n)"

lemma says_status_simps [simp]: "says_status n (write_json n b)" "says_status n (write_header n)"
    "(\<And>w. wstatus (g w) = wstatus w) \<Longrightarrow> says_status n f \<Longrightarrow> says_status n (\<lambda>w. f (g w))"
  by (simp_all add: says_status_def)

lemma wired_do [wires]:
  assumes "plain_handler fn" "\<And>v s. says_status st (ok v s)" "0 < st" "st < 400"
  shows "wired (do_answer x r st pl fn ok)"
proof -
  note ok = plain_handler_ok [OF assms(1)]
  have "wire_ok s w' s1" if f: "fresh s" "wstatus w = None" and d: "do_req x r st pl fn s = (Inr v, s1)" and w: "w' = ok v s1 w"
    for s w w' s1 v
  proof (rule wire_success [OF ok f(1) d])
    show "wstatus w' = Some st" using assms(2) f(2) w by (simp add: says_status_def)
    show "st < 400" by fact
    fix h s0 s2 assume "fn h s0 = (Inr v, s2)" "sreq s0 = Some (req_of r st pl)"
    then show "st = request_status (sreq s2)" using plain_request [OF assms(1)] assms(3) by (simp add: request_status_def req_of_def)
  qed
  then show ?thesis using wire_error [OF ok] unfolding wired_def do_answer_def by (auto split: prod.splits sum.splits)
qed

text \<open>A handler that chooses its status inside the transaction: the statuses of \<open>S\<close>.\<close>

lemma wired_status:
  assumes "handler_ok fn"
    and "\<And>h s0 v s2. fn h s0 = (Inr v, s2) \<Longrightarrow> sreq s0 = Some (req_of r st pl) \<Longrightarrow> status_of s2 \<in> S"
    and "\<And>n. n \<in> S \<Longrightarrow> 0 < n \<and> n < 400"
    and "\<And>v s w. wstatus w = None \<Longrightarrow> status_of s \<in> S \<Longrightarrow> wstatus (ok v s w) = Some (status_of s)"
  shows "wired (do_answer x r st pl fn ok)"
proof -
  have "wire_ok s w' s1" if f: "fresh s" "wstatus w = None" and d: "do_req x r st pl fn s = (Inr v, s1)" and w: "w' = ok v s1 w"
    for s w w' s1 v
  proof -
    from run_do_success_lines [OF assms(1) _ d [unfolded do_req_def]] f(1) obtain h s0 s2 where
      a: "fn h s0 = (Inr v, s2)" "sreq s0 = Some (req_of r st pl)" "same_status s2 s1" by (auto simp: req_of_def)
    have same: "status_of s1 = status_of t" if "same_status t s1" for t
      using that by (cases "sreq s1"; cases "sreq t") (auto simp: same_status_def status_of_def)
    have n: "status_of s1 \<in> S" using assms(2) [OF a(1,2)] same [OF a(3)] by simp
    show ?thesis
    proof (rule wire_success [OF assms(1) f(1) d])
      show "wstatus w' = Some (status_of s1)" using assms(4) [OF f(2) n] w by simp
      show "status_of s1 < 400" using assms(3) [OF n] by simp
      fix h' t0 t2 assume "fn h' t0 = (Inr v, t2)" "sreq t0 = Some (req_of r st pl)" "same_status t2 s1"
      then show "status_of s1 = request_status (sreq t2)"
        using same [of t2] assms(3) [OF n] by (cases "sreq t2") (auto simp: status_of_def request_status_def)
    qed
  qed
  then show ?thesis using wire_error [OF assms(1)] unfolding wired_def do_answer_def by (auto split: prod.splits sum.splits)
qed

lemma wired_row [wires]:
  assumes "plain_handler read"
  shows "wired (do_answer x r 200 [] (row_fn x r read) (row_answer x only))"
proof (rule wired_status [where S = "{200, 304}", OF row_fn_ok [OF assms]])
  fix h s0 v s2 assume "row_fn x r read h s0 = (Inr v, s2)" "sreq s0 = Some (req_of r 200 [])"
  from row_fn_status [OF this(1) assms this(2)] show "status_of s2 \<in> {200, 304}" by (auto simp: status_of_def req_of_def)
qed (auto simp: row_answer_def Let_def)

text \<open>The promise of a handler of the mux, on a response nothing was written to yet.\<close>

locale wire_handler =
  fixes H :: "request \<Rightarrow> response \<Rightarrow> pst \<Rightarrow> response \<times> pst"
  assumes wire: "fresh s \<Longrightarrow> wstatus w = None \<Longrightarrow> H r w s = (w', s') \<Longrightarrow> wire_ok s w' s'"
begin

lemma answers: "fresh s \<Longrightarrow> wstatus w = None \<Longrightarrow> wstatus (fst (H r w s)) \<noteq> None"
  using wire [of s w r] by (cases "H r w s") (auto simp: wire_ok_def)

lemma keeps_fresh: "fresh s \<Longrightarrow> wstatus w = None \<Longrightarrow> fresh (snd (H r w s))"
  using wire [of s w r] since_fresh by (cases "H r w s") (fastforce simp: wire_ok_def)

lemma refused_nothing:
  assumes "fresh s" "wstatus w = None" "H r w s = (w', s')" "wstatus w' = Some n" "400 \<le> n" "snext s < u"
  shows "no_calls (durable u (strace s'))"
  using wire [OF assms(1-3)] assms(4-6) by (auto simp: wire_ok_def)

lemma journal_agrees:
  assumes "fresh s" "wstatus w = None" "H r w s = (w', s')" "wstatus w' = Some n"
  shows "lines_say (snext s) n s'"
  using wire [OF assms(1-3)] assms(4) by (auto simp: wire_ok_def)

end

lemma wired_handler: "(\<And>r. wired (H r)) \<Longrightarrow> wire_handler H"
  by unfold_locales (simp add: wired_def)

lemma wired_row_handler [wires]: "(\<And>a. plain_handler (read a)) \<Longrightarrow> wired (row_handler x args read flds r)"
  unfolding row_handler_def by (intro wires)

lemma wired_rows [wires]: "wired (call_rows_of x fn a r)" "wired (rows_of x sql vals r)"
  unfolding call_rows_of_def rows_of_def by (auto intro!: wires plains)

lemma wired_reads [wires]: "wired (call_rows_handler x fn a' r)" "wired (rows_handler x sql vals' r)" "wired (call_row_handler x fn a r)"
    "wired (get_handler x res r)" "wired (list_handler x res r)"
  unfolding call_rows_handler_def rows_handler_def call_row_handler_def get_handler_def
  by (auto simp: list_handler_def intro!: wires plains split: prod.splits)

lemma wired_sql_row [wires]: "wired (sql_row_handler x sql vals r)"
  unfolding sql_row_handler_def by (intro wires plains)

lemma wired_row_func [wires]:
  "(\<And>a. plain_handler (read a)) \<Longrightarrow> wired (row_func x args read r)"
  "(\<And>a. plain_handler (read a)) \<Longrightarrow> wired (row_fields_func x args read only r)"
  unfolding row_func_def row_fields_func_def by (rule wired_row_handler; assumption)+

interpretation rows_wire: wire_handler "call_rows_of x fn args"
  by (rule wired_handler) (auto simp: call_rows_of_def intro!: wires plains)

interpretation sql_wire: wire_handler "rows_of x sql args"
  by (rule wired_handler) (auto simp: rows_of_def intro!: wires plains)

interpretation row_wire: wire_handler "call_row_handler x fn args"
  by (rule wired_handler) (auto simp: call_row_handler_def row_handler_def intro!: wires plains)

interpretation get_wire: wire_handler "get_handler x res"
  by (rule wired_handler) (auto simp: get_handler_def intro!: wires plains)

interpretation list_wire: wire_handler "list_handler x res"
  by (rule wired_handler) (auto simp: list_handler_def split: prod.splits intro!: wires plains)

section \<open>ETag, projection\<close>

text \<open>A context, requests and rows for the examples; the hash of a body is the body.\<close>

definition sample_ctx :: "answer \<Rightarrow> rctx" where
  "sample_ctx a = \<lparr>x_env = sample_env a, x_runner = sample_runner False, x_sess = sample_session, x_hash = (\<lambda>b. b)\<rparr>"

definition sample_id :: string where
  "sample_id = ''00000000-0000-4000-8000-000000000000''"

definition sample_request :: "string \<Rightarrow> header \<Rightarrow> bytes \<Rightarrow> request" where
  "sample_request m hdr b = \<lparr>rmethod = m, rpath = ''/api/v2/things'', rescaped = ''/api/v2/things'', rrawquery = [], rquery = [], rqueryerr = None,
     rheader = hdr, rremote = ''10.0.0.1:1'', rpathvalue = [(''id'', sample_id)], rbody = Some b\<rparr>"

definition sample_resource :: resource where
  "sample_resource = \<lparr>res_prefix = ''/api/v2/things'', res_get = ''api.get_thing'', res_list = ''api.list_thing'', res_count = ''api.count_thing'', res_int_id = False\<rparr>"

definition sample_row :: bytes where
  "sample_row = json_print (JObj [(''udate'', JStr ''n'')])"

definition sample_one :: answer where
  "sample_one = ARows [Some sample_row] None"

definition sample_tag :: string where
  "sample_tag = ''W/'' @ quoted ''n''"

text \<open>A GET of a row answers 304 exactly when the client already holds the row: with \<open>If-None-Match\<close> equal to the tag
  of the row that was read, and the tag of that row is on every successful answer.\<close>

lemma get_conditional:
  assumes "get_handler x res r w s = (w', s')" "wstatus w = None" "fresh s" "res_id res r = Inr i"
    and "do_req x r 200 [] (row_fn x r (get_row (x_env x) res i)) s = (Inr row, s1)"
  shows "wstatus w' = Some (if etag_of (x_hash x) row \<noteq> [] \<and> hdr_get (rheader r) ''If-None-Match'' = etag_of (x_hash x) row then 304 else 200)
     \<and> (etag_of (x_hash x) row \<noteq> [] \<longrightarrow> hdr_get (whdr w') ''Etag'' = etag_of (x_hash x) row)"
proof -
  have p: "plain_handler (get_row (x_env x) res i)" by (intro plains)
  have f: "fresh (s\<lparr>sreq := Some (req_of r 200 [])\<rparr>)" using assms(3) by simp
  from run_do_success_lines [OF row_fn_ok [OF p] f assms(5) [unfolded do_req_def]] obtain h s0 s2 where
    rf: "row_fn x r (get_row (x_env x) res i) h s0 = (Inr row, s2)" "sreq s0 = Some (req_of r 200 [])" "same_status s2 s1"
    by (auto simp: req_of_def)
  from row_fn_status [OF rf(1) p rf(2)] rf(3) have
    "status_of s1 = (if etag_of (x_hash x) row \<noteq> [] \<and> hdr_get (rheader r) ''If-None-Match'' = etag_of (x_hash x) row then 304 else 200)"
    by (cases "sreq s1") (auto simp: same_status_def status_of_def req_of_def)
  then show ?thesis using assms(1,2,4,5)
    by (auto simp: get_handler_def checked_def do_answer_def row_answer_def Let_def set_etag_def write_json_def split: if_splits)
qed

lemma project_keys:
  assumes "project (Some b) flds = Some b'" "flds \<noteq> []" "json_object b = Some m"
  shows "\<exists>ms. b' = json_print (json_map ms) \<and> set (map fst ms) = set flds \<inter> dom (map_of m) \<and> distinct (map fst ms)
     \<and> (\<forall>(k, v) \<in> set ms. map_of m k = Some v)"
proof -
  let ?g = "\<lambda>f. case map_of m f of None \<Rightarrow> None | Some v \<Rightarrow> Some (f, v)"
  let ?ms = "List.map_filter ?g (remdups flds)"
  have fst: "map fst (List.map_filter ?g l) = filter (\<lambda>f. map_of m f \<noteq> None) l" for l
    by (induction l) (auto simp: List.map_filter_simps split: option.splits)
  have "b' = json_print (json_map ?ms)" using assms by (simp add: project_def row_bytes_def)
  moreover have "set (map fst ?ms) = set flds \<inter> dom (map_of m)" unfolding fst by auto
  moreover have "distinct (map fst ?ms)" unfolding fst by simp
  moreover have "\<forall>(k, v) \<in> set ?ms. map_of m k = Some v"
    by (auto simp: List.map_filter_def split: option.splits)
  ultimately show ?thesis by blast
qed

text \<open>With \<open>fields\<close> in the query a row is cut to the requested fields it has: no other field of the row is sent, none of
  the requested ones is lost, and every value is the row's own.\<close>

lemma project_only_requested:
  assumes "flds \<noteq> []" "json_object b = Some m"
  shows "\<exists>ms. project (Some b) flds = Some (json_print (json_map ms)) \<and> set (map fst ms) = set flds \<inter> dom (map_of m)
     \<and> distinct (map fst ms) \<and> list_all (\<lambda>(k, v). map_of m k = Some v) ms"
proof -
  obtain b' where "project (Some b) flds = Some b'" using assms by (simp add: project_def row_bytes_def)
  with project_keys [OF this assms] show ?thesis by (fastforce simp: list_all_iff)
qed

end
