(* ===== verification/Access.thy ===== *)
theory Access
  imports Rest
begin

text \<open>
  \<open>lib/rest/access.go\<close>: the access form of a resource (who holds what, one grant, the decoded bits of one
  user), the same for a class, a method and an object. The grant itself (\<open>api.chmodc\<close>, \<open>api.chmodm\<close>,
  \<open>api.chmodo\<close>) is the function the resource brings, as it is a field of the struct in the code.
\<close>

definition access_fields :: "(string \<times> jkind) list" where
  "access_fields = [(''userid'', KString), (''mask'', KPInt), (''recursive'', KPBool), (''objectset'', KPBool)]"

definition access_validate :: "gstruct \<Rightarrow> goerr option" where
  "access_validate b =
     (if \<not> uuid_shape (gstr b ''userid'') then Some (bad_request ''userid is required'')
      else (case gpint b ''mask'' of None \<Rightarrow> Some (bad_request ''mask is required'')
        | Some m \<Rightarrow> if m < 0 then Some (bad_request ''mask is required'') else None))"

definition mask_bits6 :: int where "mask_bits6 = 63"
definition mask_bits10 :: int where "mask_bits10 = 1023"

definition access_bound :: "gstruct \<Rightarrow> int \<Rightarrow> bool \<Rightarrow> goerr option" where
  "access_bound b most class_options =
     (case gpint b ''mask'' of None \<Rightarrow> None
      | Some m \<Rightarrow>
        if m > most then Some (bad_request (''mask must be at most '' @ show_int most))
        else if \<not> class_options \<and> (b ''recursive'' \<noteq> None \<or> b ''objectset'' \<noteq> None)
        then Some (bad_request ''recursive and objectset apply to a class only'') else None)"

record access =
  ac_resource :: resource
  ac_list :: string
  ac_decode :: string
  ac_max :: int
  ac_class :: bool
  ac_set :: "string \<Rightarrow> gstruct \<Rightarrow> unit handler"

text \<open>The visible row first, then the rows of \<open>ListFn\<close>.\<close>

definition access_list_fn :: "env \<Rightarrow> access \<Rightarrow> string \<Rightarrow> row list handler" where
  "access_list_fn env a i h =
     hbind (get_row env (ac_resource a) (VStr i) h) (\<lambda>_. call env h (ac_list a) [(''id'', VStr i)])"

definition access_get :: "rctx \<Rightarrow> access \<Rightarrow> request \<Rightarrow> answerer" where
  "access_get x a r = checked r (id_of r) (\<lambda>i.
     do_answer x r 200 [] (access_list_fn (x_env x) a i) (\<lambda>rows _. write_json 200 (marshal_rows rows)))"

definition access_body :: "access \<Rightarrow> request \<Rightarrow> goerr + gstruct \<times> bytes" where
  "access_body a r = ebind (read_body access_fields r) (\<lambda>(b, raw).
     ebind (err_or (access_validate b) ()) (\<lambda>_. err_or (access_bound b (ac_max a) (ac_class a)) (b, raw)))"

definition access_put_fn :: "env \<Rightarrow> access \<Rightarrow> string \<Rightarrow> gstruct \<Rightarrow> row list handler" where
  "access_put_fn env a i b h =
     hbind (get_row env (ac_resource a) (VStr i) h) (\<lambda>_.
     hbind (ac_set a i b h) (\<lambda>_. call env h (ac_list a) [(''id'', VStr i)]))"

definition access_put :: "rctx \<Rightarrow> access \<Rightarrow> request \<Rightarrow> answerer" where
  "access_put x a r = checked r (id_of r) (\<lambda>i. checked r (access_body a r) (\<lambda>(b, raw).
     do_answer x r 200 raw (access_put_fn (x_env x) a i b) (\<lambda>rows _. write_json 200 (marshal_rows rows))))"

text \<open>No userid: the key is left out, and the database takes its default.\<close>

definition url_get :: "url_values \<Rightarrow> string \<Rightarrow> string" where
  "url_get v k = (case map_of v k of None \<Rightarrow> [] | Some [] \<Rightarrow> [] | Some (x # _) \<Rightarrow> x)"

definition access_user :: "request \<Rightarrow> goerr + string option" where
  "access_user r = (let u = url_get (rquery r) ''userid'' in
     if u = [] then Inr None else if \<not> uuid_shape u then Inl (bad_request ''userid must be a UUID'') else Inr (Some u))"

definition access_decode_fn :: "env \<Rightarrow> access \<Rightarrow> string \<Rightarrow> string option \<Rightarrow> row handler" where
  "access_decode_fn env a i user h =
     hbind (get_row env (ac_resource a) (VStr i) h) (\<lambda>_.
       call_row env h (ac_decode a) ([(''id'', VStr i)] @ (case user of None \<Rightarrow> [] | Some u \<Rightarrow> [(''userid'', VStr u)])))"

definition access_decode :: "rctx \<Rightarrow> access \<Rightarrow> request \<Rightarrow> answerer" where
  "access_decode x a r = checked r (id_of r) (\<lambda>i. checked r (access_user r) (\<lambda>user.
     do_answer x r 200 [] (access_decode_fn (x_env x) a i user) (\<lambda>row _. write_json 200 (row_bytes row))))"

text \<open>A table of routes: method, pattern, handler.\<close>

type_synonym route = "string \<times> string \<times> (request \<Rightarrow> answerer)"

definition access_routes :: "rctx \<Rightarrow> access \<Rightarrow> route list" where
  "access_routes x a = (let p = res_prefix (ac_resource a) in
     [(''GET'', p @ ''/{id}/access'', access_get x a),
      (''PUT'', p @ ''/{id}/access'', access_put x a),
      (''GET'', p @ ''/{id}/access/decode'', access_decode x a)])"

section \<open>Contract\<close>

text \<open>The grant a resource brings keeps the contract of a transaction's step.\<close>

definition grant_ok :: "access \<Rightarrow> bool" where
  "grant_ok a \<longleftrightarrow> (\<forall>i b. plain_handler (ac_set a i b))"

lemma grant_plain [plains]: "grant_ok a \<Longrightarrow> plain_step h (ac_set a i b h)"
  by (simp add: grant_ok_def plain_handler_def)

definition routes_wired :: "route list \<Rightarrow> bool" where
  "routes_wired rs \<longleftrightarrow> list_all (\<lambda>(m, p, f). \<forall>r. wired (f r)) rs"

lemma routes_wired_simps [simp]: "routes_wired []" "routes_wired ((m, p, f) # rs) \<longleftrightarrow> (\<forall>r. wired (f r)) \<and> routes_wired rs"
    "routes_wired (rs @ rs') \<longleftrightarrow> routes_wired rs \<and> routes_wired rs'"
  by (simp_all add: routes_wired_def)

lemma access_routes_wired: "grant_ok a \<Longrightarrow> routes_wired (access_routes x a)"
  by (auto simp: access_routes_def Let_def access_get_def access_put_def access_decode_def access_list_fn_def access_put_fn_def
      access_decode_fn_def intro!: wires plains split: prod.splits)

lemma access_body_sound:
  assumes "access_body a r = Inr (b, raw)"
  shows "\<exists>m. read_body access_fields r = Inr (b, raw) \<and> uuid_shape (gstr b ''userid'') \<and> gpint b ''mask'' = Some m \<and> 0 \<le> m \<and> m \<le> ac_max a
     \<and> (ac_class a \<or> b ''recursive'' = None \<and> b ''objectset'' = None)"
  using assms by (auto simp: access_body_def ebind_def err_or_def access_validate_def access_bound_def
      split: sum.splits option.splits if_splits prod.splits)

lemma read_body_400: "read_body fs r = Inl e \<Longrightarrow> (case as_problem e of None \<Rightarrow> 500 | Some p \<Rightarrow> pstatus p) = 400"
  by (auto simp: read_body_def Let_def with_code_def problem_new_def split: option.splits if_splits prod.splits)

text \<open>C23: a grant reaches the database only with a uuid for the object and the user and a mask the column can hold (the database
  would wrap a wider one, and so turn a grant into a revoke), and with the class options only for a class; every
  other PUT is answered 400 and asks nothing of the database.\<close>

theorem access_mask_bounded:
  assumes "access_put x a r w s = (w', s')" "wstatus w = None"
  shows "(\<exists>i b raw m. id_of r = Inr i \<and> uuid_shape i \<and> read_body access_fields r = Inr (b, raw) \<and> uuid_shape (gstr b ''userid'')
       \<and> gpint b ''mask'' = Some m \<and> 0 \<le> m \<and> m \<le> ac_max a \<and> (ac_class a \<or> b ''recursive'' = None \<and> b ''objectset'' = None)
       \<and> (w', s') = do_answer x r 200 raw (access_put_fn (x_env x) a i b) (\<lambda>rows _. write_json 200 (marshal_rows rows)) w s)
     \<or> (s' = s \<and> wstatus w' = Some 400)"
proof (cases "id_of r")
  case (Inl e)
  then show ?thesis using assms by (auto simp: access_put_def checked_def refuse_def id_of_def Let_def problem_new_def split: if_splits)
next
  case i: (Inr i)
  then have u: "uuid_shape i" by (auto simp: id_of_def Let_def split: if_splits)
  show ?thesis
  proof (cases "access_body a r")
    case (Inl e)
    then have "(case as_problem e of None \<Rightarrow> 500 | Some p \<Rightarrow> pstatus p) = 400"
      by (auto simp: access_body_def ebind_def err_or_def access_validate_def access_bound_def problem_new_def
          dest: read_body_400 split: sum.splits option.splits if_splits prod.splits)
    then show ?thesis using assms i Inl by (auto simp: access_put_def checked_def refuse_def)
  next
    case (Inr p)
    obtain b raw where p: "p = (b, raw)" by force
    from access_body_sound [OF Inr [unfolded p]] show ?thesis using assms(1) i u Inr p
      by (auto simp: access_put_def checked_def)
  qed
qed

definition sample_access :: access where
  "sample_access = \<lparr>ac_resource = sample_resource, ac_list = ''api.object_access'', ac_decode = ''api.decode_object_access'',
     ac_max = mask_bits6, ac_class = False, ac_set = (\<lambda>i b h. hret ())\<rparr>"

theorem access_mask_bounded_witness:
  "snd (access_put (sample_ctx sample_one) sample_access (sample_request ''PUT'' [] []) fresh_response sample_state) = sample_state
   \<and> wstatus (fst (access_put (sample_ctx sample_one) sample_access (sample_request ''PUT'' [] []) fresh_response sample_state)) = Some 400"
proof -
  obtain w' s' where o: "access_put (sample_ctx sample_one) sample_access (sample_request ''PUT'' [] []) fresh_response sample_state = (w', s')" by force
  have "read_body access_fields (sample_request ''PUT'' [] []) = Inr (Map.empty, [])"
    by (simp add: read_body_def sample_request_def limit_body_def)
  moreover have "wstatus fresh_response = None" by (simp add: fresh_response_def)
  ultimately show ?thesis using access_mask_bounded [OF o] o by (auto simp: gstr_def uuid_shape_def)
qed

end
