(* ===== verification/Idem.thy ===== *)
theory Idem
  imports Rest "HOL-Library.AList"
begin

text \<open>
  The idempotency of POST (\<open>Idempotency\<close> of \<open>lib/rest/rest.go\<close>): answers kept per user, path and key
  for a time, replayed for the same body, a conflict for another one. The clock is an argument of the
  operations that read it (\<open>time.Now\<close>, \<open>time.Since\<close>), in nanoseconds. \<open>Capture\<close> is read off the response:
  the handlers write the header once, so the status it recorded is the status of the response, and
  its body is what they wrote.
\<close>

record stored =
  st_hash :: string
  st_status :: nat
  st_header :: header
  st_body :: bytes
  st_at :: int

record idempotency =
  id_ttl :: int
  id_m :: "(string \<times> stored) list"

definition new_idempotency :: "int \<Rightarrow> idempotency" where
  "new_idempotency ttl = \<lparr>id_ttl = ttl, id_m = []\<rparr>"

definition idem_scope :: "request \<Rightarrow> string \<Rightarrow> string" where
  "idem_scope r user = user @ CHR 0x00 # rpath r"

definition idem_key :: "string \<Rightarrow> string \<Rightarrow> string" where
  "idem_key scope key = scope @ CHR 0x00 # key"

text \<open>\<open>Lookup\<close>: the stored answer and whether the key was used with another body.\<close>

definition idem_lookup :: "(bytes \<Rightarrow> string) \<Rightarrow> int \<Rightarrow> idempotency \<Rightarrow> string \<Rightarrow> string \<Rightarrow> bytes \<Rightarrow> stored option \<times> bool" where
  "idem_lookup hash now i scope key body =
     (case map_of (id_m i) (idem_key scope key) of
        None \<Rightarrow> (None, False)
      | Some s \<Rightarrow> if now - st_at s > id_ttl i then (None, False)
                  else if st_hash s \<noteq> hash body then (None, True) else (Some s, False))"

text \<open>What \<open>Capture\<close> holds once the handler is done.\<close>

record capture =
  cap_status :: nat
  cap_header :: header
  cap_body :: bytes

definition captured :: "response \<Rightarrow> response \<Rightarrow> capture" where
  "captured w w' = \<lparr>cap_status = (case wstatus w' of None \<Rightarrow> 0 | Some n \<Rightarrow> n), cap_header = whdr w',
     cap_body = drop (length (wbody w)) (wbody w')\<rparr>"

definition idem_bound :: nat where
  "idem_bound = 10000"

definition idem_store :: "(bytes \<Rightarrow> string) \<Rightarrow> int \<Rightarrow> idempotency \<Rightarrow> string \<Rightarrow> string \<Rightarrow> bytes \<Rightarrow> capture \<Rightarrow> idempotency" where
  "idem_store hash now i scope key body c =
     (let m = (if length (id_m i) > idem_bound then filter (\<lambda>(k, v). \<not> now - st_at v > id_ttl i) (id_m i) else id_m i);
          s = \<lparr>st_hash = hash body, st_status = cap_status c, st_header = cap_header c, st_body = cap_body c, st_at = now\<rparr>
      in i\<lparr>id_m := AList.update (idem_key scope key) s m\<rparr>)"

fun put_headers :: "header \<Rightarrow> response \<Rightarrow> response" where
  "put_headers [] w = w"
| "put_headers ((k, v) # h) w = put_headers h (w\<lparr>whdr := hdr_put (whdr w) k v\<rparr>)"

definition replay :: "stored \<Rightarrow> response \<Rightarrow> response" where
  "replay s w = write_body (st_body s) (write_header (st_status s)
     (set_header ''Idempotency-Replayed'' ''true'' (put_headers (st_header s) w)))"

text \<open>\<open>Once\<close>: the clock at the lookup and at the store. The store is a value that is returned. This is a request alone; requests
  that run between the lookup and the store of another with the same key are in \<open>Idem_Race\<close>.\<close>

definition once :: "(bytes \<Rightarrow> string) \<Rightarrow> int \<Rightarrow> int \<Rightarrow> request \<Rightarrow> idempotency option \<Rightarrow> string \<Rightarrow> bytes \<Rightarrow> answerer
    \<Rightarrow> response \<Rightarrow> pst \<Rightarrow> response \<times> pst \<times> idempotency option" where
  "once hash t1 t2 r idem user raw run w s =
     (let key = hdr_get (rheader r) ''Idempotency-Key'' in
      case idem of
        None \<Rightarrow> (case run w s of (w', s') \<Rightarrow> (w', s', idem))
      | Some i \<Rightarrow>
        if key = [] then (case run w s of (w', s') \<Rightarrow> (w', s', idem))
        else (let scope = idem_scope r user in
          case idem_lookup hash t1 i scope key raw of
            (_, True) \<Rightarrow> (fail r (EProblem (problem_new 409 ''conflict'' ''Conflict'' ''Idempotency-Key reused with a different body'')) w, s, idem)
          | (Some rec, False) \<Rightarrow> (replay rec w, s, idem)
          | (None, False) \<Rightarrow>
            (case run w s of (w', s') \<Rightarrow>
               (w', s', if cap_status (captured w w') < 500 then Some (idem_store hash t2 i scope key raw (captured w w')) else idem))))"

section \<open>The store\<close>

lemma idem_lookup_store [simp]:
  "idem_lookup hash now (idem_store hash t i scope key body c) scope key body' =
     (if now - t > id_ttl i then (None, False)
      else if hash body \<noteq> hash body' then (None, True)
      else (Some \<lparr>st_hash = hash body, st_status = cap_status c, st_header = cap_header c, st_body = cap_body c, st_at = t\<rparr>, False))"
  by (simp add: idem_lookup_def idem_store_def Let_def update_conv')

definition no_nul :: "string \<Rightarrow> bool" where
  "no_nul s \<longleftrightarrow> CHR 0x00 \<notin> set s"

lemma nul_split_first: "no_nul a \<Longrightarrow> no_nul b \<Longrightarrow> a @ CHR 0x00 # x = b @ CHR 0x00 # y \<Longrightarrow> a = b \<and> x = y"
proof (induction a arbitrary: b)
  case Nil
  then show ?case by (cases b) (auto simp: no_nul_def)
next
  case (Cons c a)
  then show ?case by (cases b) (auto simp: no_nul_def)
qed

lemma nul_split_last: "no_nul x \<Longrightarrow> no_nul y \<Longrightarrow> a @ CHR 0x00 # x = b @ CHR 0x00 # y \<Longrightarrow> a = b \<and> x = y"
proof (induction a arbitrary: b)
  case Nil
  then show ?case by (cases b) (auto simp: no_nul_def)
next
  case (Cons c a)
  then show ?case by (cases b) (auto simp: no_nul_def)
qed

text \<open>Two requests share a slot of the idempotency store only when user, path and key are the same: the separator is a
  NUL, which neither a user name nor a header value can hold (a decoded path can, and may).\<close>

lemma idem_slot_injective:
  assumes "idem_key (idem_scope r user) key = idem_key (idem_scope r' user') key'"
    and "no_nul user" "no_nul user'" "no_nul key" "no_nul key'"
  shows "user = user' \<and> rpath r = rpath r' \<and> key = key'"
proof -
  have "idem_scope r user = idem_scope r' user' \<and> key = key'"
    using nul_split_last [OF assms(4,5)] assms(1) by (simp add: idem_key_def)
  then show ?thesis using nul_split_first [OF assms(2,3), of "rpath r" "rpath r'"] by (simp add: idem_scope_def)
qed

text \<open>A POST under a key and what it runs, for the examples.\<close>

definition sample_post :: "request" where
  "sample_post = sample_request ''POST'' [(''Idempotency-Key'', [''k''])] ''b''"

definition sample_run :: "nat \<Rightarrow> answerer" where
  "sample_run n w s = (write_json n ''1'' w, s)"

definition sample_once :: "nat \<Rightarrow> response \<times> pst \<times> idempotency option" where
  "sample_once n = once (\<lambda>b. b) 0 1 sample_post (Some (new_idempotency 10)) ''u'' ''b'' (sample_run n) fresh_response sample_state"

section \<open>Once\<close>

lemma put_headers_status [simp]: "wstatus (put_headers h w) = wstatus w" "wbody (put_headers h w) = wbody w"
  by (induction h w rule: put_headers.induct) simp_all

lemma hdr_values_put [simp]: "hdr_values (hdr_put h k vs) k' = (if k' = k then vs else hdr_values h k')"
proof (cases "k' = k")
  case False
  then have "map_of (filter (\<lambda>p. fst p \<noteq> k) h) k' = map_of h k'" by (induction h) auto
  with False show ?thesis by (simp add: hdr_values_def hdr_put_def)
qed (simp add: hdr_values_def hdr_put_def)

lemma put_headers_values: "distinct (map fst h) \<Longrightarrow>
    hdr_values (whdr (put_headers h w)) k = (case map_of h k of None \<Rightarrow> hdr_values (whdr w) k | Some vs \<Rightarrow> vs)"
proof (induction h w rule: put_headers.induct)
  case (2 k' v h w)
  then show ?case by (auto simp: map_of_eq_None_iff [THEN iffD2] split: option.splits)
qed simp

lemma replay_status [simp]: "wstatus w = None \<Longrightarrow> wstatus (replay s w) = Some (st_status s)"
  by (simp add: replay_def)

lemma replay_body [simp]: "wstatus w = None \<Longrightarrow> wbody (replay s w) = wbody w @ st_body s"
  by (simp add: replay_def write_body_def write_header_def set_header_def Let_def)

text \<open>The answerer of a POST under its key.\<close>

definition once_answer :: "(bytes \<Rightarrow> string) \<Rightarrow> int \<Rightarrow> int \<Rightarrow> request \<Rightarrow> idempotency option \<Rightarrow> string \<Rightarrow> bytes \<Rightarrow> answerer \<Rightarrow> answerer" where
  "once_answer hash t1 t2 r idem user raw run w s = (case once hash t1 t2 r idem user raw run w s of (w', s', _) \<Rightarrow> (w', s'))"

lemma wired_once [wires]: "wired run \<Longrightarrow> wired (once_answer hash t1 t2 r idem user raw run)"
  unfolding wired_def once_answer_def once_def Let_def
  by (auto split: prod.splits option.splits bool.splits if_splits intro: wire_local)

text \<open>C18: the retry of a POST that was answered below 500, with the same key and body while the answer is kept, runs nothing:
  the database is not asked, and status, body and header fields of the first answer are sent again, marked as
  replayed.\<close>

theorem once_replays:
  assumes "once hash t1 t2 r (Some i) user raw run w s = (w', s', Some i')"
    and "hdr_get (rheader r) ''Idempotency-Key'' = key" "key \<noteq> []" "idem_lookup hash t1 i (idem_scope r user) key raw = (None, False)"
    and "wstatus w' = Some n" "n < 500" "wbody w = []" "distinct (map fst (whdr w'))"
    and "t3 - t2 \<le> id_ttl i" "rpath r2 = rpath r" "hdr_get (rheader r2) ''Idempotency-Key'' = key"
    and "once hash t3 t4 r2 (Some i') user raw run2 w2 s2 = (w3, s3, i3)" "wstatus w2 = None" "wbody w2 = []"
  shows "s3 = s2 \<and> i3 = Some i' \<and> wstatus w3 = wstatus w' \<and> wbody w3 = wbody w' \<and>
     (\<forall>k. k \<noteq> ''Idempotency-Replayed'' \<longrightarrow> map_of (whdr w') k \<noteq> None \<longrightarrow> hdr_values (whdr w3) k = hdr_values (whdr w') k) \<and>
     hdr_get (whdr w3) ''Idempotency-Replayed'' = ''true''"
proof -
  let ?rec = "\<lparr>st_hash = hash raw, st_status = n, st_header = whdr w', st_body = wbody w', st_at = t2\<rparr>"
  have i': "i' = idem_store hash t2 i (idem_scope r user) key raw (captured w w')"
    using assms(1-6) by (auto simp: once_def Let_def captured_def split: prod.splits)
  have sc: "idem_scope r2 user = idem_scope r user" using assms(10) by (simp add: idem_scope_def)
  have look: "idem_lookup hash t3 i' (idem_scope r2 user) key raw = (Some ?rec, False)"
    unfolding i' sc idem_lookup_store using assms(5,7,9) by (simp add: captured_def)
  have out: "w3 = replay ?rec w2" "s3 = s2" "i3 = Some i'"
    using assms(3,11,12) look by (auto simp: once_def Let_def)
  have "hdr_values (whdr w3) k = hdr_values (whdr w') k"
    if "k \<noteq> ''Idempotency-Replayed''" "map_of (whdr w') k \<noteq> None" for k
    using that put_headers_values [OF assms(8), of w2 k] unfolding out replay_def
    by (auto simp: set_header_def hdr_set_def write_body_def write_header_def Let_def hdr_values_def [of "whdr w'"] split: option.splits)
  moreover have "hdr_get (whdr w3) ''Idempotency-Replayed'' = ''true''"
    unfolding out replay_def by (simp add: hdr_get_def set_header_def hdr_set_def write_body_def write_header_def Let_def split: option.splits)
  ultimately show ?thesis using out assms(5,13,14) by simp
qed

lemma sample_key: "hdr_get (rheader sample_post) ''Idempotency-Key'' = ''k''"
  by (simp add: sample_post_def sample_request_def hdr_get_def hdr_values_def)

lemma sample_once_out: "sample_once n = (write_json n ''1'' fresh_response, sample_state,
    if n < 500 then Some (idem_store (\<lambda>b. b) 1 (new_idempotency 10) (idem_scope sample_post ''u'') ''k'' ''b'' (captured fresh_response (write_json n ''1'' fresh_response)))
    else Some (new_idempotency 10))"
  by (simp add: sample_once_def once_def idem_lookup_def new_idempotency_def sample_key Let_def sample_run_def captured_def fresh_response_def)

theorem once_replays_witness:
  "\<exists>i w3. snd (snd (sample_once 201)) = Some i \<and>
     once (\<lambda>b. b) 5 6 sample_post (Some i) ''u'' ''b'' (sample_run 500) fresh_response sample_state = (w3, sample_state, Some i) \<and>
     wstatus w3 = Some 201 \<and> wbody w3 = ''1'' \<and> hdr_get (whdr w3) ''Idempotency-Replayed'' = ''true''"
proof -
  obtain i where i: "sample_once 201 = (write_json 201 ''1'' fresh_response, sample_state, Some i)" by (simp add: sample_once_out)
  obtain w3 s3 i3 where o: "once (\<lambda>b. b) 5 6 sample_post (Some i) ''u'' ''b'' (sample_run 500) fresh_response sample_state = (w3, s3, i3)"
    by (rule prod_cases3)
  have w: "wstatus fresh_response = None" "wbody fresh_response = []" by (simp_all add: fresh_response_def)
  have w': "wstatus (write_json 201 ''1'' fresh_response) = Some 201" "wbody (write_json 201 ''1'' fresh_response) = ''1''"
    "distinct (map fst (whdr (write_json 201 ''1'' fresh_response)))"
    by (simp_all add: write_json_def write_body_def write_header_def set_header_def fresh_response_def hdr_set_def hdr_put_def)
  have l: "idem_lookup (\<lambda>b. b) 0 (new_idempotency 10) (idem_scope sample_post ''u'') ''k'' ''b'' = (None, False)"
    by (simp add: idem_lookup_def new_idempotency_def)
  have t: "(5 :: int) - 1 \<le> id_ttl (new_idempotency 10)" by (simp add: new_idempotency_def)
  show ?thesis
    using once_replays [OF i [unfolded sample_once_def] sample_key _ l w'(1) _ w(2) w'(3) t refl sample_key o w] i o w' by simp
qed

text \<open>The same key with a body of another hash is refused with 409 while the first answer is kept, and nothing runs.\<close>

lemma once_conflict:
  assumes "idem_lookup hash t2 i (idem_scope r user) (hdr_get (rheader r) ''Idempotency-Key'') raw = (Some rec, False)"
    and "hdr_get (rheader r) ''Idempotency-Key'' \<noteq> []" "hash raw' \<noteq> hash raw" "wstatus w = None"
  shows "\<exists>w'. once hash t2 t3 r (Some i) user raw' run w s = (w', s, Some i) \<and> wstatus w' = Some 409"
proof -
  have "idem_lookup hash t2 i (idem_scope r user) (hdr_get (rheader r) ''Idempotency-Key'') raw' = (None, True)"
    using assms(1,3) by (auto simp: idem_lookup_def split: option.splits if_splits)
  then show ?thesis using assms(2,4) by (simp add: once_def Let_def problem_new_def)
qed

text \<open>An answer of 500 and above is not stored: the store is as it was, and the retry runs again.\<close>

lemma once_server_fault:
  assumes "once hash t1 t2 r (Some i) user raw run w s = (w', s', i')"
    and "wstatus w' = Some n" "500 \<le> n"
  shows "i' = Some i"
  using assms by (auto simp: once_def Let_def captured_def split: prod.splits option.splits bool.splits if_splits)

end
