(* ===== verification/Writable.thy ===== *)
theory Writable
  imports Access Idem
begin

text \<open>
  \<open>lib/rest/writable.go\<close>: a resource with \<open>api.set_x\<close> and \<open>api.delete_x\<close>, the shape the database gives every
  entity, reference and admin collection. A \<open>Body\<close> is the fields it decodes, its \<open>Validate\<close> and its \<open>Args\<close>.
\<close>

record body =
  bd_fields :: "(string \<times> jkind) list"
  bd_validate :: "bool \<Rightarrow> gstruct \<Rightarrow> goerr option"
  bd_args :: "gstruct \<Rightarrow> aval \<Rightarrow> args"

definition required :: "string \<Rightarrow> string option \<Rightarrow> bool \<Rightarrow> goerr option" where
  "required name v create = (if (v = None \<and> create) \<or> v = Some [] then Some (bad_request (name @ '' is required'')) else None)"

fun required_all :: "bool \<Rightarrow> (string \<times> string option) list \<Rightarrow> goerr option" where
  "required_all create [] = None"
| "required_all create ((name, v) # fs) = (case required name v create of Some e \<Rightarrow> Some e | None \<Rightarrow> required_all create fs)"

definition location_of :: "resource \<Rightarrow> row \<Rightarrow> string" where
  "location_of res row =
     (if res_int_id res then
        (case json_unmarshal [(''id'', KPInt)] (row_bytes row) of
           (g, None) \<Rightarrow> (case gpint g ''id'' of Some i \<Rightarrow> if i < 1 then [] else res_prefix res @ ''/'' @ show_int i | None \<Rightarrow> [])
         | (_, Some _) \<Rightarrow> [])
      else
        (case json_unmarshal [(''id'', KPString)] (row_bytes row) of
           (g, None) \<Rightarrow> (case gpstr g ''id'' of Some i \<Rightarrow> if \<not> uuid_shape i then [] else res_prefix res @ ''/'' @ i | None \<Rightarrow> [])
         | (_, Some _) \<Rightarrow> []))"

record writable =
  wr_res :: resource
  wr_set :: string
  wr_create_fn :: string
  wr_create_omit :: "string list"
  wr_body :: body
  wr_delete :: string
  wr_redact :: "(bytes \<Rightarrow> bytes) option"
  wr_defaults :: "(gstruct \<Rightarrow> gstruct) option"

definition logged :: "writable \<Rightarrow> bytes \<Rightarrow> bytes" where
  "logged wr raw = (case wr_redact wr of None \<Rightarrow> raw | Some f \<Rightarrow> f raw)"

definition omitted :: "writable \<Rightarrow> gstruct \<Rightarrow> goerr option" where
  "omitted wr b =
     (if wr_create_fn wr = [] then None
      else (case find (\<lambda>k. map_of (bd_args (wr_body wr) b VNil) k \<notin> {None, Some VNil}) (wr_create_omit wr) of
          None \<Rightarrow> None | Some k \<Rightarrow> Some (bad_request (k @ '' is not taken on create''))))"

text \<open>The id \<open>CreateFn\<close> answered: a string that is not empty or an integer of 64 bits.\<close>

definition created_id :: "string \<Rightarrow> row \<Rightarrow> goerr + aval" where
  "created_id fn out =
     (case json_first (row_bytes out) of
        None \<Rightarrow> Inl (EText (fn @ '' returned '' @ row_bytes out @ '': invalid JSON''))
      | Some (JStr t, _) \<Rightarrow> if unquote t = [] then Inl (EText (fn @ '' returned an empty id'')) else Inr (VStr (unquote t))
      | Some (JNum t, _) \<Rightarrow> (case parse_int t of None \<Rightarrow> Inl (EText (fn @ '' returned '' @ t)) | Some n \<Rightarrow> Inr (VInt n))
      | Some _ \<Rightarrow> Inl (EText (fn @ '' returned '' @ row_bytes out @ '', not an id'')))"

definition show_id :: "aval \<Rightarrow> string" where
  "show_id i = (case i of VStr t \<Rightarrow> t | VInt n \<Rightarrow> show_int n | _ \<Rightarrow> [])"

definition is_status :: "nat \<Rightarrow> goerr \<Rightarrow> bool" where
  "is_status n e = (case as_problem e of None \<Rightarrow> False | Some p \<Rightarrow> pstatus p = n)"

definition create_fn :: "env \<Rightarrow> writable \<Rightarrow> gstruct \<Rightarrow> row handler" where
  "create_fn env wr b h =
     (let args = bd_args (wr_body wr) b VNil; fn = wr_create_fn wr in
      if fn = [] then call_row env h (wr_set wr) args
      else htry (call_row env h fn (filter (\<lambda>p. fst p \<noteq> ''id'' \<and> fst p \<notin> set (wr_create_omit wr)) args)) (\<lambda>out. case out of
          Inl e \<Rightarrow> hfail (if is_no_row e then EText (fn @ '' returned no row'') else e)
        | Inr row \<Rightarrow>
          (case created_id fn row of
             Inl e \<Rightarrow> hfail e
           | Inr i \<Rightarrow> htry (get_row env (wr_res wr) i h) (\<lambda>shown. case shown of
                 Inl e \<Rightarrow> hfail (if is_status 404 e
                   then EText (fn @ '' made '' @ show_id i @ '', and '' @ res_get (wr_res wr) @ '' does not show it to its creator'') else e)
               | Inr made \<Rightarrow> hret made))))"

definition create_check :: "writable \<Rightarrow> request \<Rightarrow> goerr + gstruct \<times> bytes" where
  "create_check wr r =
     ebind (read_body (bd_fields (wr_body wr)) r) (\<lambda>(b, raw).
     ebind (if raw = [] then Inl (EProblem (with_code (problem_new 400 ''validation'' ''Bad request'' ''a JSON body is required'') code_json_empty))
            else Inr ()) (\<lambda>_.
     ebind (err_or (bd_validate (wr_body wr) True b) ()) (\<lambda>_.
     err_or (omitted wr b) (b, raw))))"

definition create_answer :: "rctx \<Rightarrow> writable \<Rightarrow> request \<Rightarrow> gstruct \<Rightarrow> bytes \<Rightarrow> answerer" where
  "create_answer x wr r b raw =
     do_answer x r 201 (logged wr raw) (create_fn (x_env x) wr b)
       (\<lambda>row _ w. let loc = location_of (wr_res wr) row in
          write_json 201 (row_bytes row) (set_etag x row (if loc \<noteq> [] then set_header ''Location'' loc w else w)))"

definition create_handler :: "rctx \<Rightarrow> int \<Rightarrow> int \<Rightarrow> writable \<Rightarrow> idempotency option \<Rightarrow> request \<Rightarrow> response \<Rightarrow> pst
    \<Rightarrow> response \<times> pst \<times> idempotency option" where
  "create_handler x t1 t2 wr idem r w s =
     (case create_check wr r of
        Inl e \<Rightarrow> (fail r e w, s, idem)
      | Inr (b, raw) \<Rightarrow>
        (let b' = (case wr_defaults wr of None \<Rightarrow> b | Some f \<Rightarrow> f b) in
         once (x_hash x) t1 t2 r idem (s_code (x_sess x)) raw (create_answer x wr r b' raw) w s))"

definition update_fn :: "rctx \<Rightarrow> writable \<Rightarrow> request \<Rightarrow> aval \<Rightarrow> gstruct \<Rightarrow> row handler" where
  "update_fn x wr r i b h =
     hbind (get_row (x_env x) (wr_res wr) i h) (\<lambda>current.
       case if_match (x_hash x) r current of
         Some e \<Rightarrow> hfail e
       | None \<Rightarrow> call_row (x_env x) h (wr_set wr) (bd_args (wr_body wr) b i))"

definition update_handler :: "rctx \<Rightarrow> writable \<Rightarrow> request \<Rightarrow> answerer" where
  "update_handler x wr r =
     checked r (ebind (res_id (wr_res wr) r) (\<lambda>i. err_or (precondition r) i)) (\<lambda>i.
     checked r (ebind (read_body (bd_fields (wr_body wr)) r) (\<lambda>(b, raw). err_or (bd_validate (wr_body wr) False b) (b, raw))) (\<lambda>(b, raw).
       do_answer x r 200 (logged wr raw) (update_fn x wr r i b) (\<lambda>row _ w. write_json 200 (row_bytes row) (set_etag x row w))))"

definition delete_fn :: "env \<Rightarrow> writable \<Rightarrow> aval \<Rightarrow> unit handler" where
  "delete_fn env wr i h =
     hbind (get_row env (wr_res wr) i h) (\<lambda>_. hbind (call env h (wr_delete wr) [(''id'', i)]) (\<lambda>_. hret ()))"

definition delete_handler :: "rctx \<Rightarrow> writable \<Rightarrow> request \<Rightarrow> answerer" where
  "delete_handler x wr r = checked r (res_id (wr_res wr) r) (\<lambda>i.
     do_answer x r 204 [] (delete_fn (x_env x) wr i) (\<lambda>_ _. write_header 204))"

text \<open>The answer of a POST, apart from what it leaves in the store, and the table of routes.\<close>

definition create_post :: "rctx \<Rightarrow> int \<Rightarrow> int \<Rightarrow> writable \<Rightarrow> idempotency option \<Rightarrow> request \<Rightarrow> answerer" where
  "create_post x t1 t2 wr idem r w s = (case create_handler x t1 t2 wr idem r w s of (w', s', _) \<Rightarrow> (w', s'))"

definition writable_routes :: "rctx \<Rightarrow> int \<Rightarrow> int \<Rightarrow> idempotency option \<Rightarrow> writable \<Rightarrow> route list" where
  "writable_routes x t1 t2 idem wr = (let p = res_prefix (wr_res wr) in
     [(''GET'', p, list_handler x (wr_res wr)),
      (''GET'', p @ ''/{id}'', get_handler x (wr_res wr)),
      (''POST'', p, create_post x t1 t2 wr idem),
      (''PATCH'', p @ ''/{id}'', update_handler x wr)]
     @ (if wr_delete wr \<noteq> [] then [(''DELETE'', p @ ''/{id}'', delete_handler x wr)] else []))"

section \<open>The handlers keep the contract\<close>

lemma plain_create_fn [plains]: "plain_step h (create_fn env wr b h)"
  unfolding create_fn_def Let_def by (intro plains)

lemma plain_update_fn [plains]: "plain_step h (update_fn x wr r i b h)"
  unfolding update_fn_def by (intro plains)

lemma plain_delete_fn [plains]: "plain_step h (delete_fn env wr i h)"
  unfolding delete_fn_def by (intro plains)

lemma set_header_status [simp]: "wstatus (set_header k v w) = wstatus w"
  by (simp add: set_header_def)

lemma wired_create_answer [wires]: "wired (create_answer x wr r b raw)"
  unfolding create_answer_def by (intro wires plains) (auto simp: says_status_def Let_def)

lemma create_post_checked:
  "create_post x t1 t2 wr idem r = checked r (create_check wr r) (\<lambda>(b, raw).
     once_answer (x_hash x) t1 t2 r idem (s_code (x_sess x)) raw
       (create_answer x wr r (case wr_defaults wr of None \<Rightarrow> b | Some f \<Rightarrow> f b) raw))"
  by (rule ext)+ (auto simp: create_post_def create_handler_def checked_def refuse_def once_answer_def Let_def split: sum.splits)

interpretation create_wire: wire_handler "create_post x t1 t2 wr idem"
  by (rule wired_handler) (auto simp: create_post_checked intro!: wires split: prod.splits)

interpretation update_wire: wire_handler "update_handler x wr"
  by (rule wired_handler) (auto simp: update_handler_def intro!: wires plains split: prod.splits)

interpretation delete_wire: wire_handler "delete_handler x wr"
  by (rule wired_handler) (auto simp: delete_handler_def intro!: wires plains)

section \<open>What a write promises\<close>

lemma update_fn_guard:
  assumes "update_fn x wr r i b h s0 = (Inr row, s2)"
  obtains cur s1 where "get_row (x_env x) (wr_res wr) i h s0 = (Inr cur, s1)" "if_match (x_hash x) r cur = None"
    "call_row (x_env x) h (wr_set wr) (bd_args (wr_body wr) b i) s1 = (Inr row, s2)"
  using assms by (auto simp: update_fn_def hbind_def hfail_def split: prod.splits sum.splits option.splits)

lemma if_match_none: "if_match hash r cur = None \<longleftrightarrow>
    hdr_get (rheader r) ''If-Match'' \<noteq> [] \<and> (hdr_get (rheader r) ''If-Match'' = ''*'' \<or> etag_of hash cur = hdr_get (rheader r) ''If-Match'')"
  by (auto simp: if_match_def precondition_def Let_def)

text \<open>C10: no lost update: whatever a PATCH leaves durable is one transaction that read the row first, found its tag equal to
  \<open>If-Match\<close> (or the client sent \<open>*\<close>), and then called the set function with the arguments of the body that passed its
  validation; the row of that call is the answer. Without \<open>If-Match\<close> nothing is durable.\<close>

theorem update_guarded:
  assumes "update_handler x wr r w s = (w', s')" "fresh s" "snext s < u" "calls_in (durable u (strace s')) \<noteq> []"
  shows "\<exists>i b raw cur row h s0 s1 s2. res_id (wr_res wr) r = Inr i \<and> read_body (bd_fields (wr_body wr)) r = Inr (b, raw)
     \<and> bd_validate (wr_body wr) False b = None
     \<and> get_row (x_env x) (wr_res wr) i h s0 = (Inr cur, s1)
     \<and> hdr_get (rheader r) ''If-Match'' \<noteq> [] \<and> (hdr_get (rheader r) ''If-Match'' = ''*'' \<or> etag_of (x_hash x) cur = hdr_get (rheader r) ''If-Match'')
     \<and> call_row (x_env x) h (wr_set wr) (bd_args (wr_body wr) b i) s1 = (Inr row, s2)
     \<and> calls_in (durable u (strace s')) = new_work s0 s2 \<and> w' = write_json 200 (row_bytes row) (set_etag x row w)"
proof -
  have "calls_in (durable u (strace s)) = []" using fresh_durable [OF assms(2,3)] by simp
  then obtain i b raw where c: "res_id (wr_res wr) r = Inr i" "read_body (bd_fields (wr_body wr)) r = Inr (b, raw)"
      "bd_validate (wr_body wr) False b = None"
    and d: "do_answer x r 200 (logged wr raw) (update_fn x wr r i b) (\<lambda>row _ w. write_json 200 (row_bytes row) (set_etag x row w)) w s = (w', s')"
    using assms(1,4) by (auto simp: update_handler_def checked_def refuse_def ebind_def err_or_def split: sum.splits option.splits prod.splits)
  have "handler_ok (update_fn x wr r i b)" by (intro plain_handler_ok plains)
  from do_answer_durable [OF d this assms(2,4,3)] obtain row h s0 s2 where
    f: "update_fn x wr r i b h s0 = (Inr row, s2)" and o: "w' = write_json 200 (row_bytes row) (set_etag x row w)"
      "calls_in (durable u (strace s')) = new_work s0 s2" by metis
  from f obtain cur s1 where "get_row (x_env x) (wr_res wr) i h s0 = (Inr cur, s1)" "if_match (x_hash x) r cur = None"
    "call_row (x_env x) h (wr_set wr) (bd_args (wr_body wr) b i) s1 = (Inr row, s2)" by (rule update_fn_guard)
  with c o show ?thesis unfolding if_match_none by blast
qed

text \<open>A resource whose body has one optional field, for the examples.\<close>

definition sample_writable :: writable where
  "sample_writable = \<lparr>wr_res = sample_resource, wr_set = ''api.set_thing'', wr_create_fn = ''api.add_thing'', wr_create_omit = [],
     wr_body = \<lparr>bd_fields = [(''code'', KPString)], bd_validate = (\<lambda>c b. required ''code'' (gpstr b ''code'') c),
       bd_args = (\<lambda>b i. [(''id'', i), (''code'', case gpstr b ''code'' of None \<Rightarrow> VNil | Some v \<Rightarrow> VStr v)])\<rparr>,
     wr_delete = [], wr_redact = None, wr_defaults = None\<rparr>"

theorem update_guarded_witness:
  "\<exists>i b row h s1 s2. res_id (wr_res sample_writable) (sample_request ''PATCH'' [(''If-Match'', [''*''])] []) = Inr i \<and>
     call_row (x_env (sample_ctx sample_rows)) h (wr_set sample_writable) (bd_args (wr_body sample_writable) b i) s1 = (Inr row, s2)"
proof -
  let ?r = "sample_request ''PATCH'' [(''If-Match'', [''*''])] []"
  obtain w' s' where o: "update_handler (sample_ctx sample_rows) sample_writable ?r fresh_response sample_state = (w', s')" by force
  have i: "res_id sample_resource ?r = Inr (VStr sample_id)" by code_simp
  have "calls_in (durable 1 (strace (snd (do_req (sample_ctx sample_rows) ?r 200 []
     (update_fn (sample_ctx sample_rows) sample_writable ?r (VStr sample_id) Map.empty) sample_state)))) \<noteq> []" by code_simp
  moreover have e: "update_handler (sample_ctx sample_rows) sample_writable ?r = do_answer (sample_ctx sample_rows) ?r 200 []
     (update_fn (sample_ctx sample_rows) sample_writable ?r (VStr sample_id) Map.empty) (\<lambda>row _ w. write_json 200 (row_bytes row) (set_etag (sample_ctx sample_rows) row w))"
    using i by (simp add: update_handler_def checked_def ebind_def err_or_def precondition_def hdr_get_def hdr_values_def sample_request_def
        sample_writable_def read_body_def limit_body_def required_def logged_def gpstr_def)
  have "s' = snd (update_handler (sample_ctx sample_rows) sample_writable ?r fresh_response sample_state)" using o by simp
  ultimately have "calls_in (durable 1 (strace s')) \<noteq> []" unfolding e snd_do_answer by simp
  moreover have "snext sample_state < 1" by (simp add: sample_state_def)
  ultimately show ?thesis using update_guarded [OF o sample_fresh, of 1] by blast
qed

text \<open>A create through \<open>CreateFn\<close> answers the row its creator can read: on success the function ran without the id and
  without the keys it has no parameter for, its answer was an id, and the answer is the row \<open>GetFn\<close> shows for it.\<close>

lemma create_fn_shown:
  assumes "create_fn env wr b h s = (Inr row, s')" "wr_create_fn wr \<noteq> []"
  shows "\<exists>out s1 i. call_row env h (wr_create_fn wr)
        (filter (\<lambda>p. fst p \<noteq> ''id'' \<and> fst p \<notin> set (wr_create_omit wr)) (bd_args (wr_body wr) b VNil)) s = (Inr out, s1)
     \<and> created_id (wr_create_fn wr) out = Inr i \<and> get_row env (wr_res wr) i h s1 = (Inr row, s')"
  using assms by (auto simp: create_fn_def Let_def htry_def hfail_def hret_def split: prod.splits sum.splits if_splits)

lemma writable_routes_wired: "routes_wired (writable_routes x t1 t2 idem wr)"
proof -
  have "wired (H r)" if "wire_handler H" for H r
    using wire_handler.wire [OF that] by (auto simp: wired_def)
  then show ?thesis
    by (simp add: writable_routes_def Let_def list_wire.wire_handler_axioms get_wire.wire_handler_axioms
        create_wire.wire_handler_axioms update_wire.wire_handler_axioms delete_wire.wire_handler_axioms)
qed

end
