(* ===== verification/Entity.thy ===== *)
theory Entity
  imports Writable
begin

text \<open>
  \<open>lib/entity\<close>: the declarative shape of an entity package. An \<open>Entity\<close> names the functions of its database
  side, its body and the columns of its term search; \<open>New\<close> wires it and \<open>form\<close> gives its six routes. The
  conditions of \<open>SearchOf\<close> and the two layouts of \<open>time.Parse\<close> the bodies accept stand here too. What only
  describes an entity for the OpenAPI document (\<open>Row\<close>, \<open>CreateExtra\<close>, \<open>Operations\<close>) is left out.
\<close>

section \<open>Search\<close>

text \<open>\<open>EscapeLike\<close>: backslash, per cent and underscore lose their meaning under LIKE.\<close>

fun escape_like :: "string \<Rightarrow> string" where
  "escape_like [] = []"
| "escape_like (c # cs) = (if c \<in> {CHR 0x5C, CHR ''%'', CHR ''_''} then CHR 0x5C # c # escape_like cs else c # escape_like cs)"

definition search_cond :: "string \<Rightarrow> string \<Rightarrow> string \<Rightarrow> string \<Rightarrow> string list \<Rightarrow> string \<Rightarrow> string \<Rightarrow> json" where
  "search_cond cnd field cmp val valarr lstr rstr =
     JObj (omitempty ''condition'' cnd @ [(''field'', jstr field)] @ omitempty ''compare'' cmp @ omitempty ''value'' val
       @ (if valarr = [] then [] else [(''valarr'', JArr (map jstr valarr))]) @ omitempty ''lstr'' lstr @ omitempty ''rstr'' rstr)"

definition term_group :: "string \<Rightarrow> string list \<Rightarrow> json list" where
  "term_group trm flds = map (\<lambda>(i, f). search_cond (if i > 0 then ''OR'' else []) f ''IKE'' (''%'' @ escape_like trm @ ''%'') []
     (if i = 0 then ''('' else []) (if i = length flds - 1 then '')'' else [])) (enumerate 0 flds)"

definition search_of :: "params \<Rightarrow> string \<Rightarrow> string list \<Rightarrow> bytes" where
  "search_of p q flds =
     (let trm = (if flds = [] then [] else trim_space q) in
      if pr_search p = [] \<and> trm = [] then []
      else json_print (JArr (map (\<lambda>c. search_cond [] (cd_field c) (cd_compare c) (cd_value c) (cd_valarr c) [] []) (pr_search p)
             @ (if trm \<noteq> [] then term_group trm flds else []))))"

section \<open>Timestamps of the bodies\<close>

text \<open>\<open>time.Parse\<close> with \<open>time.RFC3339\<close>, which is lenient: an hour of one digit, a fraction of a second after a point or a
  comma. \<open>two\<close> is \<open>getnum\<close> with two digits.\<close>

definition two :: "string \<Rightarrow> (nat \<times> string) option" where
  "two s = (case s of a # b # r \<Rightarrow> if is_digit a \<and> is_digit b then Some (10 * hex_val a + hex_val b, r) else None | _ \<Rightarrow> None)"

definition one_or_two :: "string \<Rightarrow> (nat \<times> string) option" where
  "one_or_two s = (case two s of Some x \<Rightarrow> Some x
     | None \<Rightarrow> (case s of a # r \<Rightarrow> if is_digit a then Some (hex_val a, r) else None | [] \<Rightarrow> None))"

definition lit :: "char \<Rightarrow> string \<Rightarrow> string option" where
  "lit c s = (case s of a # r \<Rightarrow> if a = c then Some r else None | [] \<Rightarrow> None)"

definition is_leap :: "nat \<Rightarrow> bool" where
  "is_leap y \<longleftrightarrow> y mod 4 = 0 \<and> (y mod 100 \<noteq> 0 \<or> y mod 400 = 0)"

definition days_in :: "nat \<Rightarrow> nat \<Rightarrow> nat" where
  "days_in m y = (if m = 2 then (if is_leap y then 29 else 28) else if m \<in> {4, 6, 9, 11} then 30 else 31)"

text \<open>\<open>YYYY-MM-DD\<close> and what follows it.\<close>

definition parse_date :: "string \<Rightarrow> string option" where
  "parse_date s =
     Option.bind (two s) (\<lambda>(c, s1). Option.bind (two s1) (\<lambda>(y, s2). Option.bind (lit (CHR ''-'') s2) (\<lambda>s3.
     Option.bind (two s3) (\<lambda>(m, s4). Option.bind (lit (CHR ''-'') s4) (\<lambda>s5. Option.bind (two s5) (\<lambda>(d, s6).
       if 1 \<le> m \<and> m \<le> 12 \<and> 1 \<le> d \<and> d \<le> days_in m (100 * c + y) then Some s6 else None))))))"

definition parse_clock :: "(string \<Rightarrow> (nat \<times> string) option) \<Rightarrow> string \<Rightarrow> string option" where
  "parse_clock hour s =
     Option.bind (hour s) (\<lambda>(h, s1). Option.bind (lit (CHR '':'') s1) (\<lambda>s2. Option.bind (two s2) (\<lambda>(m, s3).
     Option.bind (lit (CHR '':'') s3) (\<lambda>s4. Option.bind (two s4) (\<lambda>(sec, s5). if h < 24 \<and> m < 60 \<and> sec < 60 then Some s5 else None)))))"

definition skip_fraction :: "string \<Rightarrow> string" where
  "skip_fraction s = (case s of a # b # r \<Rightarrow> if a \<in> {CHR ''.'', CHR '',''} \<and> is_digit b then dropWhile is_digit (b # r) else s | _ \<Rightarrow> s)"

definition parse_offset :: "string \<Rightarrow> string option" where
  "parse_offset s = (case s of [] \<Rightarrow> None
     | a # r \<Rightarrow> if a = CHR ''Z'' then Some r
       else if a \<in> {CHR ''+'', CHR ''-''} then
         Option.bind (two r) (\<lambda>(h, r1). Option.bind (lit (CHR '':'') r1) (\<lambda>r2. Option.bind (two r2) (\<lambda>(m, r3).
           if h \<le> 24 \<and> m \<le> 60 then Some r3 else None)))
       else None)"

definition parse_rfc3339 :: "string \<Rightarrow> bool" where
  "parse_rfc3339 s =
     (Option.bind (parse_date s) (\<lambda>s1. Option.bind (lit (CHR ''T'') s1) (\<lambda>s2. Option.bind (parse_clock one_or_two s2) (\<lambda>s3.
        parse_offset (skip_fraction s3)))) = Some [])"

text \<open>\<open>isTimestamp\<close>: RFC 3339, or a text that \<open>2006-01-02 15:04:05\<close> both reads and writes back, which leaves the exact form.\<close>

definition is_timestamp :: "string \<Rightarrow> bool" where
  "is_timestamp s = (if parse_rfc3339 s then True
     else Option.bind (parse_date s) (\<lambda>s1. Option.bind (lit (CHR '' '') s1) (\<lambda>s2. parse_clock two s2)) = Some [])"

section \<open>The entity\<close>

record entity =
  en_name :: string
  en_prefix :: string
  en_resource :: resource
  en_set :: string
  en_update :: string
  en_body :: body
  en_search :: "string list"
  en_defaults :: "(gstruct \<Rightarrow> gstruct) option"
  en_create_fn :: string
  en_create_omit :: "string list"

text \<open>What \<open>New\<close> wires: the writable resource, and the one POST goes through.\<close>

definition entity_writable :: "entity \<Rightarrow> writable" where
  "entity_writable e = \<lparr>wr_res = en_resource e, wr_set = en_set e, wr_create_fn = [], wr_create_omit = [], wr_body = en_body e,
     wr_delete = [], wr_redact = None, wr_defaults = en_defaults e\<rparr>"

definition entity_creator :: "entity \<Rightarrow> writable" where
  "entity_creator e = (entity_writable e)\<lparr>wr_create_fn := en_create_fn e, wr_create_omit := en_create_omit e\<rparr>"

text \<open>\<open>Named\<close>: the id and the body's keys over the positional values; a wrong count is a panic (\<open>None\<close>).\<close>

definition named :: "(string \<times> jkind) list \<Rightarrow> aval list \<Rightarrow> args option" where
  "named fs positional = (let keys = ''id'' # map fst fs in
     if length keys \<noteq> length positional then None else Some (zip keys positional))"

definition entity_get_row :: "env \<Rightarrow> entity \<Rightarrow> args \<Rightarrow> row handler" where
  "entity_get_row env e a h =
     hbind (call_row env h (res_get (en_resource e)) a) (\<lambda>row.
       case json_unmarshal [(''id'', KRaw)] (row_bytes row) of
         (g, None) \<Rightarrow> if graw g ''id'' \<in> {None, Some JNull} then hfail ENoRow else hret row
       | (_, Some _) \<Rightarrow> hret row)"

definition id_arg :: "request \<Rightarrow> goerr + args" where
  "id_arg r = ebind (id_of r) (\<lambda>i. Inr [(''id'', VStr i)])"

definition unknown_key :: "string \<Rightarrow> goerr" where
  "unknown_key detail = EProblem (with_code (problem_new 400 ''validation'' ''Bad request'' detail) code_json_key)"

definition known_keys :: "url_values \<Rightarrow> string list \<Rightarrow> goerr option" where
  "known_keys values names =
     (case find (\<lambda>(k, v). \<not> (has_prefix k ''filter['' \<or> has_prefix k ''page['') \<and> k \<notin> set names) values of
        None \<Rightarrow> None | Some (k, _) \<Rightarrow> Some (unknown_key (''unknown parameter '' @ k)))"

definition list_args :: "url_values \<Rightarrow> string list \<Rightarrow> goerr + params \<times> bytes" where
  "list_args values search_fields =
     ebind (err_or (known_keys values ([''sort'', ''fields''] @ (if search_fields \<noteq> [] then [''q''] else []))) ()) (\<lambda>_.
     if length (hdr_values values ''q'') > 1 then Inl (bad_request ''q is given more than once'')
     else (let trm = url_get values ''q'' in
       case query_parse (filter (\<lambda>p. fst p \<noteq> ''q'') values) of
         Inl e \<Rightarrow> Inl (bad_request (query_error e))
       | Inr p \<Rightarrow> Inr (p, search_of p trm search_fields)))"

definition entity_list_fn :: "env \<Rightarrow> resource \<Rightarrow> params \<Rightarrow> bytes \<Rightarrow> (row list \<times> int) handler" where
  "entity_list_fn env res p search h =
     hbind (call_scalar env h (res_count res) [(''search'', json_arg search)] dec_int) (\<lambda>cnt.
     hbind (call env h (res_list res) [(''search'', json_arg search), (''limit'', VInt (pr_limit p)), (''offset'', VInt (pr_offset p)),
              (''orderby'', json_arg (fst (snd (json_args p))))]) (\<lambda>rows.
     hret (map (\<lambda>row. project row (pr_fields p)) rows, case cnt of None \<Rightarrow> 0 | Some n \<Rightarrow> n)))"

definition entity_list :: "rctx \<Rightarrow> entity \<Rightarrow> request \<Rightarrow> answerer" where
  "entity_list x e r = checked r (list_args (rquery r) (en_search e)) (\<lambda>(p, search).
     do_answer x r 200 (query_payload r) (entity_list_fn (x_env x) (en_resource e) p search)
       (\<lambda>v _. write_json 200 (list_body (fst v) (snd v) p)))"

definition fields_of :: "request \<Rightarrow> goerr + string list" where
  "fields_of r =
     (case find (\<lambda>(k, v). k \<noteq> ''fields'') (rquery r) of
        Some (k, _) \<Rightarrow> Inl (unknown_key (''only fields= is taken here, not '' @ k))
      | None \<Rightarrow> (case query_parse (rquery r) of Inl e \<Rightarrow> Inl (bad_request (query_error e)) | Inr p \<Rightarrow> Inr (pr_fields p)))"

definition current :: "env \<Rightarrow> entity \<Rightarrow> string \<Rightarrow> row handler" where
  "current env e i h = htry (entity_get_row env e [(''id'', VStr i)] h) (\<lambda>res. case res of
       Inl err \<Rightarrow> hfail (if is_no_row err then not_found else err)
     | Inr row \<Rightarrow> hret row)"

definition empty_body :: "body \<Rightarrow> gstruct \<Rightarrow> bool" where
  "empty_body bd b \<longleftrightarrow> list_all (\<lambda>(k, a). k = ''id'' \<or> a = VNil) (bd_args bd b VNil)"

definition entity_update_check :: "entity \<Rightarrow> request \<Rightarrow> goerr + gstruct \<times> bytes" where
  "entity_update_check e r =
     ebind (read_body (bd_fields (en_body e)) r) (\<lambda>(b, raw).
     ebind (if empty_body (en_body e) b then
              Inl (EProblem (let empty = problem_new 400 ''validation'' ''Bad request'' ''body must carry at least one field''
                in if raw = [] then with_code empty code_json_empty else empty))
            else Inr ()) (\<lambda>_.
     err_or (bd_validate (en_body e) False b) (b, raw)))"

definition entity_update_fn :: "rctx \<Rightarrow> entity \<Rightarrow> request \<Rightarrow> string \<Rightarrow> gstruct \<Rightarrow> row handler" where
  "entity_update_fn x e r i b h =
     hbind (current (x_env x) e i h) (\<lambda>cur.
       case if_match (x_hash x) r cur of
         Some err \<Rightarrow> hfail err
       | None \<Rightarrow>
         (if en_update e \<noteq> [] then
            hbind (call (x_env x) h (en_update e) (bd_args (en_body e) b (VStr i))) (\<lambda>_. current (x_env x) e i h)
          else call_row (x_env x) h (en_set e) (bd_args (en_body e) b (VStr i))))"

definition entity_update :: "rctx \<Rightarrow> entity \<Rightarrow> request \<Rightarrow> answerer" where
  "entity_update x e r =
     checked r (ebind (id_of r) (\<lambda>i. err_or (precondition r) i)) (\<lambda>i.
     checked r (entity_update_check e r) (\<lambda>(b, raw).
       do_answer x r 200 raw (entity_update_fn x e r i b) (\<lambda>row _ w. write_json 200 (row_bytes row) (set_etag x row w))))"

text \<open>\<open>actionRe\<close>, also \<open>codeRe\<close> of the object package: a lower-case letter, then at most 63 of a-z, 0-9 and underscore.\<close>

definition action_re :: "string \<Rightarrow> bool" where
  "action_re s = (case s of [] \<Rightarrow> False
     | c # cs \<Rightarrow> is_lower c \<and> length cs \<le> 63 \<and> list_all (\<lambda>a. is_lower a \<or> is_digit a \<or> a = CHR ''_'') cs)"

definition action_params :: "request \<Rightarrow> goerr + bytes" where
  "action_params r =
     (case rbody r of
        None \<Rightarrow> Inl (bad_request ''body must be a JSON object or empty'')
      | Some b \<Rightarrow>
        if int (length b) > 1048576 then Inl (EProblem (problem_new 413 ''validation'' ''Payload too large'' ''body over 1 MiB''))
        else if b \<noteq> [] \<and> (\<not> json_valid b \<or> (case dropWhile json_ws b of c # _ \<Rightarrow> c \<noteq> CHR ''{'' | [] \<Rightarrow> True))
        then Inl (bad_request ''body must be a JSON object or empty'') else Inr b)"

definition entity_action_fn :: "env \<Rightarrow> entity \<Rightarrow> string \<Rightarrow> string \<Rightarrow> bytes \<Rightarrow> row handler" where
  "entity_action_fn env e i action ps h =
     hbind (current env e i h) (\<lambda>_.
     hbind (call env h ''execute_object_action'' [(''object'', VStr i), (''code'', VStr action), (''params'', json_arg ps)]) (\<lambda>_.
     htry (current env e i h) (\<lambda>res. case res of
         Inr row \<Rightarrow> hret row
       | Inl err \<Rightarrow> if is_status 404 err then hbind (set_status 204) (\<lambda>_. hret None) else hfail err)))"

definition action_answer :: "rctx \<Rightarrow> row \<Rightarrow> pst \<Rightarrow> response \<Rightarrow> response" where
  "action_answer x row s w = (if status_of s = 204 then write_header 204 w else write_json 200 (row_bytes row) (set_etag x row w))"

definition entity_action :: "rctx \<Rightarrow> entity \<Rightarrow> request \<Rightarrow> answerer" where
  "entity_action x e r =
     checked r (id_of r) (\<lambda>i.
     checked r (let a = path_value r ''action'' in if \<not> action_re a then Inl (bad_request ''bad action name'') else Inr a) (\<lambda>action.
     checked r (action_params r) (\<lambda>ps.
       do_answer x r 200 ps (entity_action_fn (x_env x) e i action ps) (action_answer x))))"

definition entity_rows_fn :: "env \<Rightarrow> entity \<Rightarrow> string \<Rightarrow> string \<Rightarrow> string \<Rightarrow> string list \<Rightarrow> row list handler" where
  "entity_rows_fn env e fn key i only h =
     hbind (current env e i h) (\<lambda>_. hbind (call env h fn [(key, VStr i)]) (\<lambda>rows. hret (map (\<lambda>row. project row only) rows)))"

definition entity_rows_of :: "rctx \<Rightarrow> entity \<Rightarrow> string \<Rightarrow> string \<Rightarrow> request \<Rightarrow> answerer" where
  "entity_rows_of x e fn key r = checked r (id_of r) (\<lambda>i. checked r (fields_of r) (\<lambda>only.
     do_answer x r 200 [] (entity_rows_fn (x_env x) e fn key i only) (\<lambda>rows _. write_json 200 (marshal_rows rows))))"

definition entity_get :: "rctx \<Rightarrow> entity \<Rightarrow> request \<Rightarrow> answerer" where
  "entity_get x e = row_fields_func x id_arg (entity_get_row (x_env x) e) fields_of"

definition entity_methods :: "rctx \<Rightarrow> entity \<Rightarrow> request \<Rightarrow> answerer" where
  "entity_methods x e = entity_rows_of x e ''get_object_methods'' ''object''"

text \<open>\<open>form\<close>: the six routes.\<close>

definition form :: "rctx \<Rightarrow> int \<Rightarrow> int \<Rightarrow> idempotency option \<Rightarrow> entity \<Rightarrow> route list" where
  "form x t1 t2 idem e = (let p = en_prefix e in
     [(''GET'', p, entity_list x e),
      (''GET'', p @ ''/{id}'', entity_get x e),
      (''POST'', p, create_post x t1 t2 (entity_creator e) idem),
      (''PATCH'', p @ ''/{id}'', entity_update x e),
      (''POST'', p @ ''/{id}/actions/{action}'', entity_action x e),
      (''GET'', p @ ''/{id}/methods'', entity_methods x e)])"

section \<open>The form keeps the contract of the handlers\<close>

lemma plain_entity_get_row [plains]: "plain_step h (entity_get_row env e a h)"
  unfolding entity_get_row_def by (intro plains) (auto intro!: plains split: prod.splits option.splits)

lemma plain_current [plains]: "plain_step h (current env e i h)"
  unfolding current_def by (intro plains)

lemma plain_entity_steps [plains]:
  "plain_step h (entity_list_fn env res p search h)" "plain_step h (entity_update_fn x e r i b h)" "plain_step h (entity_rows_fn env e fn key i only h)"
  unfolding entity_list_fn_def entity_update_fn_def entity_rows_fn_def by (intro plains)+

lemma entity_action_fn_ok: "handler_ok (entity_action_fn env e i action ps)"
proof -
  have "step_ok h (current env e i h)" for h using plain_current [of h] by (simp add: plain_step_def)
  then show ?thesis unfolding handler_ok_def entity_action_fn_def
    by (intro allI step_ok_bind step_ok_try call_ok) (auto intro!: go_intros split: sum.splits)
qed

lemma entity_action_status:
  assumes "entity_action_fn env e i action ps h s0 = (Inr v, s2)" "sreq s0 = Some q" "qstatus q = 200"
  shows "status_of s2 \<in> {200, 204}"
proof -
  have quiet: "sreq s' = sreq s" if "current env e i h s = (y, s')" for s y s'
    using plain_request [of "current env e i" h s y s'] that by (auto intro: plains)
  have quiet': "sreq s' = sreq s" if "call env h fn a s = (y, s')" for s y s' fn a
    using quiet_call [of env h fn a] that unfolding quiet_def by (metis snd_conv)
  show ?thesis using assms
    by (auto simp: entity_action_fn_def hbind_def htry_def hret_def hfail_def set_status_def status_of_def
        dest!: quiet quiet' split: prod.splits sum.splits if_splits)
qed

lemma wired_action: "wired (do_answer x r 200 ps (entity_action_fn (x_env x) e i action ps) (action_answer x))"
proof (rule wired_status [where S = "{200, 204}", OF entity_action_fn_ok])
  fix h s0 v s2
  assume "entity_action_fn (x_env x) e i action ps h s0 = (Inr v, s2)" "sreq s0 = Some (req_of r 200 ps)"
  then show "status_of s2 \<in> {200, 204}" by (rule entity_action_status) (simp add: req_of_def)
qed (auto simp: action_answer_def)

lemma wired_entity [wires]: "wired (entity_list x e r)" "wired (entity_get x e r)" "wired (entity_update x e r)"
    "wired (entity_action x e r)" "wired (entity_rows_of x e fn key r)"
  by (auto simp: entity_list_def entity_get_def entity_update_def entity_action_def entity_rows_of_def
      intro!: wires plains wired_action split: prod.splits)

lemma wired_create_post [wires]: "wired (create_post x t1 t2 wr idem r)"
  using create_wire.wire by (auto simp: wired_def)

lemma form_wired: "routes_wired (form x t1 t2 idem e)"
  by (auto simp: form_def Let_def entity_methods_def intro!: wires)

text \<open>What a PATCH of an entity leaves durable.\<close>

lemma entity_update_fn_guard:
  assumes "entity_update_fn x e r i b h s0 = (Inr row, s2)"
  obtains cur s1 where "current (x_env x) e i h s0 = (Inr cur, s1)" "if_match (x_hash x) r cur = None"
    "(if en_update e \<noteq> [] then \<exists>v s3. call (x_env x) h (en_update e) (bd_args (en_body e) b (VStr i)) s1 = (Inr v, s3)
        \<and> current (x_env x) e i h s3 = (Inr row, s2)
      else call_row (x_env x) h (en_set e) (bd_args (en_body e) b (VStr i)) s1 = (Inr row, s2))"
  using assms by (auto simp: entity_update_fn_def hbind_def hfail_def split: prod.splits sum.splits option.splits if_splits)

text \<open>The guard of the form: a PATCH of an entity leaves something durable only when its body sets at least one field and passed validation, and
  the row it read in the same transaction was visible and had the tag of \<open>If-Match\<close> (or the client sent \<open>*\<close>); then the
  update function runs and the row is read again, or the set function runs and gives the row, and that row is the answer.\<close>

lemma entity_update_guarded:
  assumes "entity_update x e r w s = (w', s')" "fresh s" "snext s < u" "calls_in (durable u (strace s')) \<noteq> []"
  shows "\<exists>i b raw cur row h s0 s1 s2. id_of r = Inr i \<and> read_body (bd_fields (en_body e)) r = Inr (b, raw)
     \<and> \<not> empty_body (en_body e) b \<and> bd_validate (en_body e) False b = None
     \<and> current (x_env x) e i h s0 = (Inr cur, s1)
     \<and> hdr_get (rheader r) ''If-Match'' \<noteq> [] \<and> (hdr_get (rheader r) ''If-Match'' = ''*'' \<or> etag_of (x_hash x) cur = hdr_get (rheader r) ''If-Match'')
     \<and> (if en_update e \<noteq> [] then \<exists>v s3. call (x_env x) h (en_update e) (bd_args (en_body e) b (VStr i)) s1 = (Inr v, s3)
            \<and> current (x_env x) e i h s3 = (Inr row, s2)
          else call_row (x_env x) h (en_set e) (bd_args (en_body e) b (VStr i)) s1 = (Inr row, s2))
     \<and> calls_in (durable u (strace s')) = new_work s0 s2 \<and> w' = write_json 200 (row_bytes row) (set_etag x row w)"
proof -
  have "calls_in (durable u (strace s)) = []" using fresh_durable [OF assms(2,3)] by simp
  then obtain i b raw where c: "id_of r = Inr i" "read_body (bd_fields (en_body e)) r = Inr (b, raw)"
      "\<not> empty_body (en_body e) b" "bd_validate (en_body e) False b = None"
    and d: "do_answer x r 200 raw (entity_update_fn x e r i b) (\<lambda>row _ w. write_json 200 (row_bytes row) (set_etag x row w)) w s = (w', s')"
    using assms(1,4) by (auto simp: entity_update_def entity_update_check_def checked_def refuse_def ebind_def err_or_def
        split: sum.splits option.splits prod.splits if_splits)
  have "handler_ok (entity_update_fn x e r i b)" by (intro plain_handler_ok plains)
  from do_answer_durable [OF d this assms(2,4,3)] obtain row h s0 s2 where
    f: "entity_update_fn x e r i b h s0 = (Inr row, s2)" and o: "w' = write_json 200 (row_bytes row) (set_etag x row w)"
      "calls_in (durable u (strace s')) = new_work s0 s2" by metis
  from f obtain cur s1 where g: "current (x_env x) e i h s0 = (Inr cur, s1)" "if_match (x_hash x) r cur = None"
    "(if en_update e \<noteq> [] then \<exists>v s3. call (x_env x) h (en_update e) (bd_args (en_body e) b (VStr i)) s1 = (Inr v, s3)
        \<and> current (x_env x) e i h s3 = (Inr row, s2)
      else call_row (x_env x) h (en_set e) (bd_args (en_body e) b (VStr i)) s1 = (Inr row, s2))" by (rule entity_update_fn_guard)
  note m = g(2) [unfolded if_match_none]
  show ?thesis by (intro exI conjI) (fact c g(1) m [THEN conjunct1] m [THEN conjunct2] g(3) o)+
qed

section \<open>Literal search\<close>

text \<open>The matching is PostgreSQL's, not the repository's: \<open>like\<close>, \<open>lower\<close> and \<open>ilike\<close> are parameters with what its manual says of them.
  LIKE under the default escape character: per cent is any text, a backslash makes a metacharacter stand for itself, an ordinary
  character stands for itself.\<close>

definition wildcards :: "char set" where
  "wildcards = {CHR 0x5C, CHR ''%'', CHR ''_''}"

definition like_laws :: "(string \<Rightarrow> string \<Rightarrow> bool) \<Rightarrow> bool" where
  "like_laws like \<longleftrightarrow> (\<forall>s. like [] s \<longleftrightarrow> s = [])
     \<and> (\<forall>p s. like (CHR ''%'' # p) s \<longleftrightarrow> (\<exists>a b. s = a @ b \<and> like p b))
     \<and> (\<forall>c p s. c \<in> wildcards \<longrightarrow> (like (CHR 0x5C # c # p) s \<longleftrightarrow> (\<exists>s'. s = c # s' \<and> like p s')))
     \<and> (\<forall>c p s. c \<notin> wildcards \<longrightarrow> (like (c # p) s \<longleftrightarrow> (\<exists>s'. s = c # s' \<and> like p s')))"

text \<open>The lower case of a text: the metacharacters have no case, and no letter becomes one.\<close>

definition lower_laws :: "(string \<Rightarrow> string) \<Rightarrow> bool" where
  "lower_laws lower \<longleftrightarrow> lower [] = [] \<and> (\<forall>x c y. c \<in> wildcards \<longrightarrow> lower (x @ c # y) = lower x @ c # lower y)
     \<and> (\<forall>x. set x \<inter> wildcards = {} \<longrightarrow> set (lower x) \<inter> wildcards = {})"

text \<open>ILIKE, the comparison \<open>IKE\<close> of \<open>api.sql()\<close>: LIKE without regard to case.\<close>

definition ilike_laws :: "(string \<Rightarrow> string \<Rightarrow> bool) \<Rightarrow> (string \<Rightarrow> string \<Rightarrow> bool) \<Rightarrow> (string \<Rightarrow> string) \<Rightarrow> bool" where
  "ilike_laws ilike like lower \<longleftrightarrow> like_laws like \<and> lower_laws lower \<and> (\<forall>p s. ilike p s \<longleftrightarrow> like (lower p) (lower s))"

lemma escape_like_Cons: "escape_like (c # t) = (if c \<in> wildcards then CHR 0x5C # c # escape_like t else c # escape_like t)"
  by (simp add: wildcards_def)

lemmas escape_steps = escape_like.simps(1) escape_like_Cons

lemma escape_like_append: "escape_like (a @ b) = escape_like a @ escape_like b"
  by (induction a) (simp_all only: escape_steps append.simps split: if_split, simp)

lemma escape_like_plain: "set t \<inter> wildcards = {} \<Longrightarrow> escape_like t = t"
  by (induction t) (auto simp: escape_like_Cons simp del: escape_like.simps(2))

lemma like_lawsD:
  assumes "like_laws like"
  shows "like [] s \<longleftrightarrow> s = []" "like (CHR ''%'' # p) s \<longleftrightarrow> (\<exists>a b. s = a @ b \<and> like p b)"
    "c \<in> wildcards \<Longrightarrow> like (CHR 0x5C # c # p) s \<longleftrightarrow> (\<exists>s'. s = c # s' \<and> like p s')"
    "c \<notin> wildcards \<Longrightarrow> like (c # p) s \<longleftrightarrow> (\<exists>s'. s = c # s' \<and> like p s')"
  using assms by (simp_all add: like_laws_def)

lemma lower_lawsD:
  assumes "lower_laws lower"
  shows "lower [] = []" "c \<in> wildcards \<Longrightarrow> lower (x @ c # y) = lower x @ c # lower y"
    "set x \<inter> wildcards = {} \<Longrightarrow> set (lower x) \<inter> wildcards = {}"
  using assms by (simp_all add: lower_laws_def)

lemma lower_Cons: "lower_laws lower \<Longrightarrow> c \<in> wildcards \<Longrightarrow> lower (c # y) = c # lower y"
  using lower_lawsD(1) lower_lawsD(2) [of lower c "[]" y] by simp

lemma like_escaped:
  assumes "like_laws like"
  shows "like (escape_like t @ p) s \<longleftrightarrow> (\<exists>s'. s = t @ s' \<and> like p s')"
proof (induction t arbitrary: s)
  case (Cons c t)
  have "like (escape_like (c # t) @ p) s \<longleftrightarrow> (\<exists>s'. s = c # s' \<and> like (escape_like t @ p) s')"
    by (cases "c \<in> wildcards") (simp_all add: escape_like_Cons like_lawsD(3,4) [OF assms] del: escape_like.simps(2))
  then show ?case unfolding Cons by auto
qed simp

lemma lower_escaped:
  assumes "lower_laws lower"
  shows "lower (escape_like t) = escape_like (lower t)"
proof (induction t rule: length_induct)
  case (1 t)
  note L = lower_lawsD [OF assms]
  show ?case
  proof (cases "set t \<inter> wildcards = {}")
    case True
    then show ?thesis using L(3) by (simp add: escape_like_plain)
  next
    case False
    then obtain x c y where t: "t = x @ c # y" and c: "c \<in> wildcards" and x: "\<forall>d \<in> set x. d \<notin> wildcards"
      using split_list_first_prop [of t "\<lambda>d. d \<in> wildcards"] by blast
    have x': "set x \<inter> wildcards = {}" using x by blast
    have e: "escape_like (c # z) = CHR 0x5C # c # escape_like z" for z using c unfolding escape_like_Cons by simp
    have b: "CHR 0x5C \<in> wildcards" by (simp add: wildcards_def)
    have "lower (escape_like t) = lower (x @ CHR 0x5C # c # escape_like y)"
      by (simp only: t escape_like_append e escape_like_plain [OF x'])
    also have "\<dots> = lower x @ CHR 0x5C # c # lower (escape_like y)" by (simp only: L(2) [OF b] lower_Cons [OF assms c])
    also have "lower (escape_like y) = escape_like (lower y)" using 1 t by simp
    also have "lower x @ CHR 0x5C # c # escape_like (lower y) = escape_like (lower t)"
      by (simp only: t L(2) [OF c] escape_like_append e escape_like_plain [OF L(3) [OF x']])
    finally show ?thesis .
  qed
qed

lemma ilike_contains:
  assumes "ilike_laws ilike like lower"
  shows "ilike (''%'' @ escape_like trm @ ''%'') s \<longleftrightarrow> (\<exists>a b. lower s = a @ lower trm @ b)"
proof -
  have lk: "like_laws like" and lo: "lower_laws lower" and il: "ilike p s \<longleftrightarrow> like (lower p) (lower s)" for p s
    using assms by (simp_all add: ilike_laws_def)
  have m: "CHR ''%'' \<in> wildcards" by (simp add: wildcards_def)
  have "lower (CHR ''%'' # (escape_like trm @ CHR ''%'' # [])) = CHR ''%'' # escape_like (lower trm) @ CHR ''%'' # []"
    by (simp only: lower_lawsD(1,2) [OF lo] lower_Cons [OF lo] m lower_escaped [OF lo])
  then have p: "lower (''%'' @ escape_like trm @ ''%'') = CHR ''%'' # escape_like (lower trm) @ CHR ''%'' # []" by simp
  show ?thesis unfolding il p like_lawsD(1,2) [OF lk] like_escaped [OF lk] by auto
qed

text \<open>The conditions a search has from the \<open>filter[]\<close> parameters.\<close>

definition filter_conds :: "params \<Rightarrow> json list" where
  "filter_conds p = map (\<lambda>c. search_cond [] (cd_field c) (cd_compare c) (cd_value c) (cd_valarr c) [] []) (pr_search p)"

text \<open>C30: the term of \<open>q=\<close> is matched literally and without regard to case. After the conditions of the filters the search has one
  bracketed group, an ILIKE condition for each search field in order joined by OR, whose pattern matches exactly the values that
  contain the trimmed term up to case, whatever wildcards and backslashes the client put in it.\<close>

theorem term_search_literal:
  assumes "ilike_laws ilike like lower" "trim_space q \<noteq> []" "flds \<noteq> []"
  shows "\<exists>v group. search_of p q flds = json_print (JArr (filter_conds p @ group)) \<and> length group = length flds
     \<and> (\<forall>k < length flds. group ! k = search_cond (if k = 0 then [] else ''OR'') (flds ! k) ''IKE'' v []
          (if k = 0 then ''('' else []) (if Suc k = length flds then '')'' else []))
     \<and> (\<forall>s. ilike v s \<longleftrightarrow> (\<exists>a b. lower s = a @ lower (trim_space q) @ b))"
proof (intro exI conjI)
  show "search_of p q flds = json_print (JArr (filter_conds p @ term_group (trim_space q) flds))"
    using assms(2,3) by (simp add: search_of_def filter_conds_def del: json_print.simps)
  show "length (term_group (trim_space q) flds) = length flds" by (simp add: term_group_def)
  show "\<forall>k < length flds. term_group (trim_space q) flds ! k = search_cond (if k = 0 then [] else ''OR'') (flds ! k) ''IKE''
      (''%'' @ escape_like (trim_space q) @ ''%'') [] (if k = 0 then ''('' else []) (if Suc k = length flds then '')'' else [])"
    using assms(3) by (cases flds) (auto simp: term_group_def nth_enumerate_eq)
  show "\<forall>s. ilike (''%'' @ escape_like (trim_space q) @ ''%'') s \<longleftrightarrow> (\<exists>a b. lower s = a @ lower (trim_space q) @ b)"
    using ilike_contains [OF assms(1)] by blast
qed

text \<open>A matching with these laws, on texts of ASCII letters.\<close>

function sample_like :: "string \<Rightarrow> string \<Rightarrow> bool" where
  "sample_like [] s \<longleftrightarrow> s = []"
| "sample_like (c # p) s \<longleftrightarrow>
     (if c = CHR ''%'' then sample_like p s \<or> (case s of [] \<Rightarrow> False | _ # s' \<Rightarrow> sample_like (c # p) s')
      else if c = CHR ''_'' then (case s of [] \<Rightarrow> False | _ # s' \<Rightarrow> sample_like p s')
      else if c = CHR 0x5C then (case p of [] \<Rightarrow> False | d # p' \<Rightarrow> (case s of [] \<Rightarrow> False | b # s' \<Rightarrow> b = d \<and> sample_like p' s'))
      else (case s of [] \<Rightarrow> False | b # s' \<Rightarrow> b = c \<and> sample_like p s'))"
  by pat_completeness auto
termination by (relation "measure (\<lambda>(p, s). length p + length s)") auto

lemma sample_like_any: "sample_like (CHR ''%'' # p) s \<longleftrightarrow> (\<exists>a b. s = a @ b \<and> sample_like p b)"
proof (induction s)
  case (Cons c s)
  have "sample_like (CHR ''%'' # p) (c # s) \<longleftrightarrow> sample_like p (c # s) \<or> sample_like (CHR ''%'' # p) s" by simp
  then show ?case unfolding Cons by (auto simp: Cons_eq_append_conv)
qed auto

lemma sample_like_laws: "like_laws sample_like"
  unfolding like_laws_def
proof (intro conjI allI impI)
  show "sample_like (CHR ''%'' # p) s \<longleftrightarrow> (\<exists>a b. s = a @ b \<and> sample_like p b)" for p s by (rule sample_like_any)
  show "sample_like (CHR 0x5C # c # p) s \<longleftrightarrow> (\<exists>s'. s = c # s' \<and> sample_like p s')" for c p s by (cases s) auto
  show "sample_like (c # p) s \<longleftrightarrow> (\<exists>s'. s = c # s' \<and> sample_like p s')" if "c \<notin> wildcards" for c p s
    using that by (cases s) (auto simp: wildcards_def)
qed simp

definition lower1 :: "char \<Rightarrow> char" where
  "lower1 c = (if 65 \<le> ord_of c \<and> ord_of c \<le> 90 then char_of (ord_of c + 32) else c)"

definition ascii_lower :: "string \<Rightarrow> string" where
  "ascii_lower = map lower1"

lemma lower1_wildcards: "c \<in> wildcards \<Longrightarrow> lower1 c = c" "c \<notin> wildcards \<Longrightarrow> lower1 c \<notin> wildcards"
proof -
  show "c \<in> wildcards \<Longrightarrow> lower1 c = c" by (auto simp: lower1_def ord_of_def wildcards_def)
  have "char_of (ord_of c + 32) \<notin> wildcards" if "65 \<le> ord_of c" "ord_of c \<le> 90"
  proof -
    have "(97 :: nat) \<le> of_char (char_of (ord_of c + 32) :: char)" "of_char (char_of (ord_of c + 32) :: char) \<le> (122 :: nat)" using that by simp_all
    then show ?thesis by (auto simp: wildcards_def simp del: of_char_of)
  qed
  then show "c \<notin> wildcards \<Longrightarrow> lower1 c \<notin> wildcards" by (simp add: lower1_def)
qed

lemma ascii_lower_laws: "lower_laws ascii_lower"
proof -
  have "set (map lower1 x) \<inter> wildcards = {}" if "set x \<inter> wildcards = {}" for x using that lower1_wildcards(2) by auto
  then show ?thesis by (simp add: lower_laws_def ascii_lower_def lower1_wildcards(1))
qed

definition sample_ilike :: "string \<Rightarrow> string \<Rightarrow> bool" where
  "sample_ilike p s = sample_like (ascii_lower p) (ascii_lower s)"

lemma sample_ilike_laws: "ilike_laws sample_ilike sample_like ascii_lower"
  by (simp add: ilike_laws_def sample_like_laws ascii_lower_laws sample_ilike_def)

theorem term_search_literal_witness:
  "\<exists>v. sample_ilike v ''xA_y'' \<and> \<not> sample_ilike v ''xaby''
     \<and> search_of \<lparr>pr_search = [], pr_order = [], pr_fields = [], pr_limit = 10, pr_offset = 0\<rparr> '' a_ '' [''name'']
       = json_print (JArr [search_cond [] ''name'' ''IKE'' v [] ''('' '')''])"
proof -
  let ?p = "\<lparr>pr_search = [], pr_order = [], pr_fields = [], pr_limit = 10, pr_offset = 0\<rparr>"
  have t: "trim_space '' a_ '' = ''a_''" by code_simp
  have "trim_space '' a_ '' \<noteq> []" "[''name''] \<noteq> []" by (simp_all add: t)
  from term_search_literal [OF sample_ilike_laws this, of ?p] obtain v group where
    g: "search_of ?p '' a_ '' [''name''] = json_print (JArr (filter_conds ?p @ group))" "length group = 1"
      "group ! 0 = search_cond [] ''name'' ''IKE'' v [] ''('' '')''"
    and v: "\<And>s. sample_ilike v s \<longleftrightarrow> (\<exists>a b. ascii_lower s = a @ ascii_lower ''a_'' @ b)"
    unfolding t by auto
  have l: "ascii_lower ''xA_y'' = ''x'' @ ascii_lower ''a_'' @ ''y''" "ascii_lower ''xaby'' = ''xaby''" "ascii_lower ''a_'' = ''a_''" by code_simp+
  have "sample_ilike v ''xA_y''" unfolding v l(1) by blast
  moreover have "\<not> sample_ilike v ''xaby''" unfolding v l(2,3) by (auto simp: Cons_eq_append_conv)
  moreover have "group = [search_cond [] ''name'' ''IKE'' v [] ''('' '')'']" using g(2,3) by (cases group) auto
  ultimately show ?thesis using g(1) by (auto simp: filter_conds_def)
qed

end
