(* ===== verification/Entities.thy ===== *)
theory Entities
  imports Entity
begin

text \<open>
  The entity packages of the platform (\<open>entity/object/reference/*\<close> and \<open>entity/object/document/*\<close>): for each its
  body (the fields, \<open>Validate\<close>, the positional arguments) and the \<open>Entity\<close> its \<open>New\<close> wires.
\<close>

text \<open>The package functions \<open>str\<close> and the loops of the bodies: references that must be uuids, timestamps; the first error of
  several checks in order.\<close>

definition opt_str :: "string option \<Rightarrow> aval" where
  "opt_str v = (case v of None \<Rightarrow> VNil | Some s \<Rightarrow> VStr s)"

fun refs_uuid :: "(string \<times> string option) list \<Rightarrow> goerr option" where
  "refs_uuid [] = None"
| "refs_uuid ((name, v) # rs) = (case v of Some s \<Rightarrow> if \<not> uuid_shape s then Some (bad_request (name @ '' must be a UUID'')) else refs_uuid rs
     | None \<Rightarrow> refs_uuid rs)"

definition timestamp_of :: "string \<Rightarrow> string option \<Rightarrow> goerr option" where
  "timestamp_of name v = (case v of None \<Rightarrow> None
     | Some s \<Rightarrow> if \<not> is_timestamp s then Some (bad_request (name @ '' must be a timestamp (RFC 3339 or YYYY-MM-DD HH:MM:SS)'')) else None)"

fun first_err :: "goerr option list \<Rightarrow> goerr option" where
  "first_err [] = None"
| "first_err (Some e # es) = Some e"
| "first_err (None # es) = first_err es"

definition named_args :: "(string \<times> jkind) list \<Rightarrow> (gstruct \<Rightarrow> aval \<Rightarrow> aval list) \<Rightarrow> gstruct \<Rightarrow> aval \<Rightarrow> args" where
  "named_args fs positional b i = (case named fs (positional b i) of None \<Rightarrow> [] | Some a \<Rightarrow> a)"

section \<open>Agent\<close>

definition agent_fields :: "(string \<times> jkind) list" where
  "agent_fields = [(''parent'', KPString), (''type'', KPString), (''vendor'', KPString), (''code'', KPString), (''name'', KPString), (''description'', KPString)]"

definition agent_positional :: "gstruct \<Rightarrow> aval \<Rightarrow> aval list" where
  "agent_positional b i = [i, opt_str (gpstr b ''parent''), opt_str (gpstr b ''type''), opt_str (gpstr b ''vendor''), opt_str (gpstr b ''code''), opt_str (gpstr b ''name''), opt_str (gpstr b ''description'')]"

definition agent_validate :: "bool \<Rightarrow> gstruct \<Rightarrow> goerr option" where
  "agent_validate create b = first_err [required_all create [(''vendor'', gpstr b ''vendor''), (''code'', gpstr b ''code'')],
     refs_uuid [(''parent'', gpstr b ''parent''), (''type'', gpstr b ''type''), (''vendor'', gpstr b ''vendor'')]]"

definition agent_entity :: entity where
  "agent_entity = \<lparr>en_name = ''agent'', en_prefix = ''/api/v2/agents'',
     en_resource = \<lparr>res_prefix = ''/api/v2/agents'', res_get = ''api.get_agent'', res_list = ''api.list_agent'', res_count = ''api.count_agent'', res_int_id = False\<rparr>,
     en_set = ''api.set_agent'', en_update = [],
     en_body = \<lparr>bd_fields = agent_fields, bd_validate = agent_validate, bd_args = named_args agent_fields agent_positional\<rparr>,
     en_search = [''code'', ''name''], en_defaults = None, en_create_fn = ''api.add_agent'', en_create_omit = []\<rparr>"

section \<open>Program\<close>

definition program_fields :: "(string \<times> jkind) list" where
  "program_fields = [(''parent'', KPString), (''type'', KPString), (''code'', KPString), (''name'', KPString), (''body'', KPString), (''description'', KPString)]"

definition program_positional :: "gstruct \<Rightarrow> aval \<Rightarrow> aval list" where
  "program_positional b i = [i, opt_str (gpstr b ''parent''), opt_str (gpstr b ''type''), opt_str (gpstr b ''code''), opt_str (gpstr b ''name''), opt_str (gpstr b ''body''), opt_str (gpstr b ''description'')]"

definition program_validate :: "bool \<Rightarrow> gstruct \<Rightarrow> goerr option" where
  "program_validate create b = first_err [required_all create [(''code'', gpstr b ''code''), (''body'', gpstr b ''body'')],
     refs_uuid [(''parent'', gpstr b ''parent''), (''type'', gpstr b ''type'')]]"

definition program_entity :: entity where
  "program_entity = \<lparr>en_name = ''program'', en_prefix = ''/api/v2/programs'',
     en_resource = \<lparr>res_prefix = ''/api/v2/programs'', res_get = ''api.get_program'', res_list = ''api.list_program'', res_count = ''api.count_program'', res_int_id = False\<rparr>,
     en_set = ''api.set_program'', en_update = [],
     en_body = \<lparr>bd_fields = program_fields, bd_validate = program_validate, bd_args = named_args program_fields program_positional\<rparr>,
     en_search = [''code'', ''name''], en_defaults = None, en_create_fn = ''api.add_program'', en_create_omit = []\<rparr>"

section \<open>Scheduler\<close>

definition scheduler_fields :: "(string \<times> jkind) list" where
  "scheduler_fields = [(''parent'', KPString), (''type'', KPString), (''code'', KPString), (''name'', KPString), (''period'', KPString), (''datestart'', KPString), (''datestop'', KPString), (''description'', KPString)]"

definition scheduler_positional :: "gstruct \<Rightarrow> aval \<Rightarrow> aval list" where
  "scheduler_positional b i = [i, opt_str (gpstr b ''parent''), opt_str (gpstr b ''type''), opt_str (gpstr b ''code''), opt_str (gpstr b ''name''), opt_str (gpstr b ''period''), opt_str (gpstr b ''datestart''), opt_str (gpstr b ''datestop''), opt_str (gpstr b ''description'')]"

definition scheduler_validate :: "bool \<Rightarrow> gstruct \<Rightarrow> goerr option" where
  "scheduler_validate create b = first_err [required_all create [(''code'', gpstr b ''code'')],
     refs_uuid [(''parent'', gpstr b ''parent''), (''type'', gpstr b ''type'')],
     timestamp_of ''datestart'' (gpstr b ''datestart''),
     timestamp_of ''datestop'' (gpstr b ''datestop'')]"

definition scheduler_entity :: entity where
  "scheduler_entity = \<lparr>en_name = ''scheduler'', en_prefix = ''/api/v2/schedulers'',
     en_resource = \<lparr>res_prefix = ''/api/v2/schedulers'', res_get = ''api.get_scheduler'', res_list = ''api.list_scheduler'', res_count = ''api.count_scheduler'', res_int_id = False\<rparr>,
     en_set = ''api.set_scheduler'', en_update = [],
     en_body = \<lparr>bd_fields = scheduler_fields, bd_validate = scheduler_validate, bd_args = named_args scheduler_fields scheduler_positional\<rparr>,
     en_search = [''code'', ''name''], en_defaults = None, en_create_fn = ''api.add_scheduler'', en_create_omit = []\<rparr>"

section \<open>Vendor\<close>

definition vendor_fields :: "(string \<times> jkind) list" where
  "vendor_fields = [(''parent'', KPString), (''type'', KPString), (''code'', KPString), (''name'', KPString), (''description'', KPString)]"

definition vendor_positional :: "gstruct \<Rightarrow> aval \<Rightarrow> aval list" where
  "vendor_positional b i = [i, opt_str (gpstr b ''parent''), opt_str (gpstr b ''type''), opt_str (gpstr b ''code''), opt_str (gpstr b ''name''), opt_str (gpstr b ''description'')]"

definition vendor_validate :: "bool \<Rightarrow> gstruct \<Rightarrow> goerr option" where
  "vendor_validate create b = first_err [required_all create [(''code'', gpstr b ''code'')],
     refs_uuid [(''parent'', gpstr b ''parent''), (''type'', gpstr b ''type'')]]"

definition vendor_entity :: entity where
  "vendor_entity = \<lparr>en_name = ''vendor'', en_prefix = ''/api/v2/vendors'',
     en_resource = \<lparr>res_prefix = ''/api/v2/vendors'', res_get = ''api.get_vendor'', res_list = ''api.list_vendor'', res_count = ''api.count_vendor'', res_int_id = False\<rparr>,
     en_set = ''api.set_vendor'', en_update = [],
     en_body = \<lparr>bd_fields = vendor_fields, bd_validate = vendor_validate, bd_args = named_args vendor_fields vendor_positional\<rparr>,
     en_search = [''code'', ''name''], en_defaults = None, en_create_fn = ''api.add_vendor'', en_create_omit = []\<rparr>"

section \<open>Version\<close>

definition version_fields :: "(string \<times> jkind) list" where
  "version_fields = [(''parent'', KPString), (''type'', KPString), (''code'', KPString), (''name'', KPString), (''description'', KPString)]"

definition version_positional :: "gstruct \<Rightarrow> aval \<Rightarrow> aval list" where
  "version_positional b i = [i, opt_str (gpstr b ''parent''), opt_str (gpstr b ''type''), opt_str (gpstr b ''code''), opt_str (gpstr b ''name''), opt_str (gpstr b ''description'')]"

definition version_validate :: "bool \<Rightarrow> gstruct \<Rightarrow> goerr option" where
  "version_validate create b = first_err [required_all create [(''code'', gpstr b ''code'')],
     refs_uuid [(''parent'', gpstr b ''parent''), (''type'', gpstr b ''type'')]]"

definition version_entity :: entity where
  "version_entity = \<lparr>en_name = ''version'', en_prefix = ''/api/v2/versions'',
     en_resource = \<lparr>res_prefix = ''/api/v2/versions'', res_get = ''api.get_version'', res_list = ''api.list_version'', res_count = ''api.count_version'', res_int_id = False\<rparr>,
     en_set = ''api.set_version'', en_update = [],
     en_body = \<lparr>bd_fields = version_fields, bd_validate = version_validate, bd_args = named_args version_fields version_positional\<rparr>,
     en_search = [''code'', ''name''], en_defaults = None, en_create_fn = ''api.add_version'', en_create_omit = []\<rparr>"

section \<open>Reference\<close>

definition reference_fields :: "(string \<times> jkind) list" where
  "reference_fields = [(''parent'', KPString), (''type'', KPString), (''code'', KPString), (''name'', KPString), (''description'', KPString)]"

definition reference_positional :: "gstruct \<Rightarrow> aval \<Rightarrow> aval list" where
  "reference_positional b i = [i, opt_str (gpstr b ''parent''), opt_str (gpstr b ''type''), opt_str (gpstr b ''code''), opt_str (gpstr b ''name''), opt_str (gpstr b ''description'')]"

definition reference_validate :: "bool \<Rightarrow> gstruct \<Rightarrow> goerr option" where
  "reference_validate create b = first_err [required_all create [(''type'', gpstr b ''type''), (''code'', gpstr b ''code'')],
     refs_uuid [(''parent'', gpstr b ''parent''), (''type'', gpstr b ''type'')]]"

definition reference_entity :: entity where
  "reference_entity = \<lparr>en_name = ''reference'', en_prefix = ''/api/v2/references'',
     en_resource = \<lparr>res_prefix = ''/api/v2/references'', res_get = ''api.get_reference'', res_list = ''api.list_reference'', res_count = ''api.count_reference'', res_int_id = False\<rparr>,
     en_set = ''api.set_reference'', en_update = [],
     en_body = \<lparr>bd_fields = reference_fields, bd_validate = reference_validate, bd_args = named_args reference_fields reference_positional\<rparr>,
     en_search = [''code'', ''name''], en_defaults = None, en_create_fn = ''api.add_reference'', en_create_omit = []\<rparr>"

section \<open>Message\<close>

definition message_fields :: "(string \<times> jkind) list" where
  "message_fields = [(''parent'', KPString), (''type'', KPString), (''agent'', KPString), (''code'', KPString), (''profile'', KPString), (''address'', KPString), (''subject'', KPString), (''content'', KPString), (''label'', KPString), (''description'', KPString)]"

definition message_positional :: "gstruct \<Rightarrow> aval \<Rightarrow> aval list" where
  "message_positional b i = [i, opt_str (gpstr b ''parent''), opt_str (gpstr b ''type''), opt_str (gpstr b ''agent''), opt_str (gpstr b ''code''), opt_str (gpstr b ''profile''), opt_str (gpstr b ''address''), opt_str (gpstr b ''subject''), opt_str (gpstr b ''content''), opt_str (gpstr b ''label''), opt_str (gpstr b ''description'')]"

definition message_validate :: "bool \<Rightarrow> gstruct \<Rightarrow> goerr option" where
  "message_validate create b = first_err [required_all create [(''type'', gpstr b ''type''), (''agent'', gpstr b ''agent''), (''code'', gpstr b ''code''), (''profile'', gpstr b ''profile''), (''address'', gpstr b ''address'')],
     refs_uuid [(''parent'', gpstr b ''parent''), (''type'', gpstr b ''type''), (''agent'', gpstr b ''agent'')]]"

definition message_entity :: entity where
  "message_entity = \<lparr>en_name = ''message'', en_prefix = ''/api/v2/messages'',
     en_resource = \<lparr>res_prefix = ''/api/v2/messages'', res_get = ''api.get_message'', res_list = ''api.list_message'', res_count = ''api.count_message'', res_int_id = False\<rparr>,
     en_set = ''api.set_message'', en_update = [],
     en_body = \<lparr>bd_fields = message_fields, bd_validate = message_validate, bd_args = named_args message_fields message_positional\<rparr>,
     en_search = [''code'', ''subject''], en_defaults = None, en_create_fn = ''api.add_message'', en_create_omit = []\<rparr>"

section \<open>Job\<close>

definition job_fields :: "(string \<times> jkind) list" where
  "job_fields = [(''parent'', KPString), (''type'', KPString), (''scheduler'', KPString), (''program'', KPString), (''daterun'', KPString), (''code'', KPString), (''label'', KPString), (''description'', KPString)]"

definition job_args :: "gstruct \<Rightarrow> aval \<Rightarrow> args" where
  "job_args b i = [(''id'', i), (''parent'', opt_str (gpstr b ''parent'')), (''type'', opt_str (gpstr b ''type'')), (''scheduler'', opt_str (gpstr b ''scheduler'')), (''program'', opt_str (gpstr b ''program'')), (''daterun'', opt_str (gpstr b ''daterun'')), (''code'', opt_str (gpstr b ''code'')), (''label'', opt_str (gpstr b ''label'')), (''description'', opt_str (gpstr b ''description''))]"

definition job_validate :: "bool \<Rightarrow> gstruct \<Rightarrow> goerr option" where
  "job_validate create b = first_err [required_all create [(''code'', gpstr b ''code''), (''scheduler'', gpstr b ''scheduler''), (''program'', gpstr b ''program'')],
     (if list_all (\<lambda>(k, v). k = ''id'' \<or> v = VNil) (job_args b VNil)
       then Some (bad_request ''body must carry at least one field'') else None),
     refs_uuid [(''parent'', gpstr b ''parent''), (''type'', gpstr b ''type''), (''scheduler'', gpstr b ''scheduler''), (''program'', gpstr b ''program'')],
     timestamp_of ''daterun'' (gpstr b ''daterun'')]"

definition job_entity :: entity where
  "job_entity = \<lparr>en_name = ''job'', en_prefix = ''/api/v2/jobs'',
     en_resource = \<lparr>res_prefix = ''/api/v2/jobs'', res_get = ''api.get_job'', res_list = ''api.list_job'', res_count = ''api.count_job'', res_int_id = False\<rparr>,
     en_set = ''api.set_job'', en_update = [],
     en_body = \<lparr>bd_fields = job_fields, bd_validate = job_validate, bd_args = job_args\<rparr>,
     en_search = [''code'', ''label''], en_defaults = None, en_create_fn = ''api.add_job'', en_create_omit = []\<rparr>"

section \<open>All of them\<close>

definition platform_entities :: "entity list" where
  "platform_entities = [agent_entity, program_entity, scheduler_entity, vendor_entity, version_entity, reference_entity, message_entity, job_entity]"

lemmas entity_defs = agent_entity_def program_entity_def scheduler_entity_def vendor_entity_def version_entity_def reference_entity_def message_entity_def job_entity_def

lemmas positional_defs = agent_positional_def agent_fields_def program_positional_def program_fields_def scheduler_positional_def scheduler_fields_def vendor_positional_def vendor_fields_def version_positional_def version_fields_def reference_positional_def reference_fields_def message_positional_def message_fields_def job_args_def job_fields_def

lemma named_args_length: "length (positional b i) = Suc (length fs) \<Longrightarrow> named_args fs positional b i = zip (''id'' # map fst fs) (positional b i)"
  by (simp add: named_args_def named_def)

text \<open>C33: the arguments of every entity's write function are the id and the fields of its body, each under its own name: the
  positional list of no package is short (which would be a panic at start), and none of its values stands under another
  field's name.\<close>

theorem entity_args_aligned:
  assumes "e \<in> set platform_entities"
  shows "bd_args (en_body e) b i = (''id'', i) # map (\<lambda>(k, t). (k, opt_str (gpstr b k))) (bd_fields (en_body e))
     \<and> distinct (''id'' # map fst (bd_fields (en_body e)))"
  using assms unfolding platform_entities_def
  by (auto simp: entity_defs positional_defs named_args_length)

theorem entity_args_aligned_witness:
  "bd_args (en_body job_entity) Map.empty VNil = (''id'', VNil) # map (\<lambda>(k, t). (k, opt_str (gpstr Map.empty k))) job_fields"
proof -
  have "job_entity \<in> set platform_entities" by (simp add: platform_entities_def)
  from entity_args_aligned [OF this, of Map.empty VNil] show ?thesis by (simp add: job_entity_def)
qed

section \<open>Wiring\<close>

text \<open>What \<open>New\<close> makes of an entity: its two writable resources and a store of answers of its own, for 24 hours. \<open>New\<close> takes the arguments of an empty body
  once; where they panic (\<open>None\<close>) it panics with the entity's name.\<close>

record wired_module =
  em_entity :: entity
  em_idem :: idempotency
  em_writable :: writable
  em_creator :: writable

definition entity_new :: "(gstruct \<Rightarrow> aval \<Rightarrow> args option) \<Rightarrow> entity \<Rightarrow> string + wired_module" where
  "entity_new new_args e = (case new_args Map.empty VNil of None \<Rightarrow> Inl (en_name e)
     | Some _ \<Rightarrow> Inr \<lparr>em_entity = e, em_idem = new_idempotency (24 * 3600 * 1000000000), em_writable = entity_writable e, em_creator = entity_creator e\<rparr>)"

text \<open>\<open>New\<close> panics exactly for a body that does not name its positional list in full, whatever is in the body; so no package of the platform panics at
  start, and none that started panics at a write.\<close>

lemma entity_new_panics:
  assumes "\<And>b i. length (positional b i) = n"
  shows "isl (entity_new (\<lambda>b i. named fs (positional b i)) e) \<longleftrightarrow> (\<exists>b i. named fs (positional b i) = None)"
  using assms by (auto simp: entity_new_def named_def Let_def)

lemma entities_start:
  "\<not> isl (entity_new (\<lambda>b i. named agent_fields (agent_positional b i)) agent_entity)"
  "\<not> isl (entity_new (\<lambda>b i. named program_fields (program_positional b i)) program_entity)"
  "\<not> isl (entity_new (\<lambda>b i. named scheduler_fields (scheduler_positional b i)) scheduler_entity)"
  "\<not> isl (entity_new (\<lambda>b i. named vendor_fields (vendor_positional b i)) vendor_entity)"
  "\<not> isl (entity_new (\<lambda>b i. named version_fields (version_positional b i)) version_entity)"
  "\<not> isl (entity_new (\<lambda>b i. named reference_fields (reference_positional b i)) reference_entity)"
  "\<not> isl (entity_new (\<lambda>b i. named message_fields (message_positional b i)) message_entity)"
  "\<not> isl (entity_new (\<lambda>b i. Some (job_args b i)) job_entity)"
  by (simp_all add: entity_new_def named_def positional_defs)

end
