(* ===== verification/Objects.thy ===== *)
theory Objects
  imports Entities
begin

text \<open>
  \<open>entity/object/object.go\<close>: what every object has regardless of its entity: its row, its methods and actions, its
  access, its files and the search over all objects.
\<close>

definition objects :: resource where
  "objects = \<lparr>res_prefix = ''/api/v2/objects'', res_get = ''api.get_object'', res_list = ''api.list_object'', res_count = ''api.count_object'', res_int_id = False\<rparr>"

definition search_path :: string where
  "search_path = ''/api/v2/search''"

definition params_of :: "request \<Rightarrow> goerr + bytes" where
  "params_of r =
     (case rbody r of None \<Rightarrow> Inl (bad_request ''cannot read the body'')
      | Some b \<Rightarrow> (let raw = trim_space (limit_body b) in
          if raw = [] then Inr []
          else if \<not> json_valid raw \<or> hd raw \<noteq> CHR ''{'' then Inl (bad_request ''the body must be a JSON object or empty'')
          else Inr raw))"

definition chmodo :: "env \<Rightarrow> string \<Rightarrow> gstruct \<Rightarrow> unit handler" where
  "chmodo env i b h = hbind (call env h ''chmodo'' [(''object'', VStr i), (''mask'', VInt (gint b ''mask'')), (''userid'', VStr (gstr b ''userid''))]) (\<lambda>_. hret ())"

definition object_access :: "env \<Rightarrow> access" where
  "object_access env = \<lparr>ac_resource = objects, ac_list = ''api.object_access'', ac_decode = ''api.decode_object_access'',
     ac_max = mask_bits6, ac_class = False, ac_set = chmodo env\<rparr>"

text \<open>The shape most handlers here share: the object must be visible, then the rest of the transaction.\<close>

definition on_visible :: "env \<Rightarrow> resource \<Rightarrow> string \<Rightarrow> 'a handler \<Rightarrow> 'a handler" where
  "on_visible env res i k h = hbind (get_row env res (VStr i) h) (\<lambda>_. k h)"

section \<open>Files\<close>

definition files_fn :: "env \<Rightarrow> string \<Rightarrow> params \<Rightarrow> (row list \<times> int) handler" where
  "files_fn env i p = on_visible env objects i (list_fn env
     \<lparr>res_prefix = [], res_get = [], res_list = ''list_object_file'', res_count = ''count_object_file'', res_int_id = False\<rparr> p)"

definition files :: "rctx \<Rightarrow> request \<Rightarrow> answerer" where
  "files x r = checked r (id_of r) (\<lambda>i.
     checked r (case query_parse (rquery r) of Inl e \<Rightarrow> Inl (bad_request (query_error e)) | Inr p \<Rightarrow> Inr p) (\<lambda>p.
       let p' = p\<lparr>pr_search := \<lparr>cd_field = ''object'', cd_compare = ''EQL'', cd_value = i, cd_valarr = []\<rparr> # pr_search p\<rparr> in
       do_answer x r 200 (query_payload r) (files_fn (x_env x) i p') (\<lambda>v _. write_json 200 (list_body (fst v) (snd v) p'))))"

definition max_files_body :: int where
  "max_files_body = 67108864"

definition file_fields :: "(string \<times> jkind) list" where
  "file_fields = [(''name'', KPString), (''path'', KPString), (''size'', KPInt), (''date'', KPString), (''data'', KPString),
     (''hash'', KPString), (''text'', KPString), (''type'', KPString)]"

text \<open>The size is an \<open>int32\<close>: a wider number is an error of the decoder.\<close>

definition int32_ok :: "int \<Rightarrow> bool" where
  "int32_ok i \<longleftrightarrow> - (2 ^ 31) \<le> i \<and> i < 2 ^ 31"

definition size_member_ok :: "string \<times> json \<Rightarrow> bool" where
  "size_member_ok m = (case m of (k, JNum t) \<Rightarrow>
       (case field_for file_fields (unquote k) of
          Some (n, _) \<Rightarrow> n \<noteq> ''size'' \<or> (case parse_int t of None \<Rightarrow> False | Some i \<Rightarrow> int32_ok i)
        | None \<Rightarrow> True)
     | _ \<Rightarrow> True)"

text \<open>The elements of the array: \<open>null\<close> leaves a nil pointer; \<open>None\<close> is an error of the decoder.\<close>

fun decode_files :: "json list \<Rightarrow> gstruct option list option" where
  "decode_files [] = Some []"
| "decode_files (JNull # js) = map_option (\<lambda>t. None # t) (decode_files js)"
| "decode_files (JObj ms # js) =
     (case decode_struct True file_fields (JObj ms) of
        (g, None) \<Rightarrow> if list_all size_member_ok ms then map_option (\<lambda>t. Some g # t) (decode_files js) else None
      | (_, Some _) \<Rightarrow> None)"
| "decode_files (_ # js) = None"

fun check_files :: "nat \<Rightarrow> gstruct option list \<Rightarrow> goerr + gstruct list" where
  "check_files i [] = Inr []"
| "check_files i (None # fs) = Inl (bad_request (''files['' @ show_nat i @ '']: not an object''))"
| "check_files i (Some g # fs) =
     (if (case gpstr g ''name'' of None \<Rightarrow> True | Some n \<Rightarrow> trim_space n = [])
      then Inl (bad_request (''files['' @ show_nat i @ '']: name is required''))
      else if (case gpint g ''size'' of None \<Rightarrow> False | Some z \<Rightarrow> z < 0)
      then Inl (bad_request (''files['' @ show_nat i @ '']: size must not be negative''))
      else ebind (check_files (Suc i) fs) (\<lambda>gs. Inr (g # gs)))"

text \<open>\<open>Decoder.More\<close> at the end of the value.\<close>

definition more :: "bytes \<Rightarrow> bool" where
  "more rest = (case skip_ws rest of [] \<Rightarrow> False | c # _ \<Rightarrow> c \<noteq> CHR 0x5D \<and> c \<noteq> CHR ''}'')"

definition files_of :: "request \<Rightarrow> goerr + bytes \<times> gstruct list" where
  "files_of r =
     (let bad = bad_request ''the body must be a non-empty JSON array of files {name, path, size, date, data, hash, text, type}'' in
      case rbody r of None \<Rightarrow> Inl (bad_request ''cannot read the body'')
      | Some b \<Rightarrow> (let raw = take_bytes max_files_body b in
          case json_first raw of
            Some (JArr js, rest) \<Rightarrow>
              (case decode_files js of None \<Rightarrow> Inl bad
               | Some fs \<Rightarrow> if more rest \<or> fs = [] then Inl bad else ebind (check_files 0 fs) (\<lambda>gs. Inr (raw, gs)))
          | _ \<Rightarrow> Inl bad))"

definition opt_json :: "string option \<Rightarrow> json" where
  "opt_json v = (case v of None \<Rightarrow> JNull | Some s \<Rightarrow> jstr s)"

definition file_meta :: "gstruct \<Rightarrow> json" where
  "file_meta g = JObj [(''name'', opt_json (gpstr g ''name'')), (''path'', opt_json (gpstr g ''path'')),
     (''size'', case gpint g ''size'' of None \<Rightarrow> JNull | Some z \<Rightarrow> jint z), (''date'', opt_json (gpstr g ''date'')),
     (''data'', JNull), (''hash'', opt_json (gpstr g ''hash'')), (''text'', opt_json (gpstr g ''text'')), (''type'', opt_json (gpstr g ''type''))]"

definition without_data :: "gstruct list \<Rightarrow> bytes" where
  "without_data fs = json_print (json_map [(''files'', JArr (map file_meta fs))])"

definition files_add :: "rctx \<Rightarrow> request \<Rightarrow> answerer" where
  "files_add x r = checked r (id_of r) (\<lambda>i. checked r (files_of r) (\<lambda>(raw, fs).
     do_answer x r 200 (without_data fs)
       (on_visible (x_env x) objects i (\<lambda>h. call (x_env x) h ''set_object_files_json'' [(''id'', VStr i), (''files'', json_arg raw)]))
       (\<lambda>rows _. write_json 200 (marshal_rows rows))))"

definition file_of :: "request \<Rightarrow> goerr + string" where
  "file_of r = (let f = path_value r ''file'' in if \<not> uuid_shape f then Inl (bad_request ''bad file id'') else Inr f)"

definition file_get :: "rctx \<Rightarrow> request \<Rightarrow> answerer" where
  "file_get x r = checked r (id_of r) (\<lambda>i. checked r (file_of r) (\<lambda>f.
     do_answer x r 200 []
       (on_visible (x_env x) objects i (\<lambda>h. htry (call_row (x_env x) h ''get_object_file'' [(''object'', VStr i), (''file'', VStr f), (''name'', VNil)])
          (\<lambda>res. case res of Inl e \<Rightarrow> hfail (if is_no_row e then not_found else e) | Inr row \<Rightarrow> hret row)))
       (\<lambda>row _. write_json 200 (row_bytes row))))"

definition dec_bool :: "json \<Rightarrow> bool option" where
  "dec_bool j = (case j of JBool b \<Rightarrow> Some b | JNull \<Rightarrow> Some False | _ \<Rightarrow> None)"

definition file_delete :: "rctx \<Rightarrow> request \<Rightarrow> answerer" where
  "file_delete x r = checked r (id_of r) (\<lambda>i. checked r (file_of r) (\<lambda>f.
     do_answer x r 204 []
       (on_visible (x_env x) objects i (\<lambda>h.
          hbind (call_scalar (x_env x) h ''delete_object_file'' [(''object'', VStr i), (''file'', VStr f), (''name'', VNil)] dec_bool)
            (\<lambda>d. if d = Some True then hret () else hfail not_found)))
       (\<lambda>_ _. write_header 204)))"

definition files_clear :: "rctx \<Rightarrow> request \<Rightarrow> answerer" where
  "files_clear x r = checked r (id_of r) (\<lambda>i.
     do_answer x r 204 [] (on_visible (x_env x) objects i (\<lambda>h. hbind (call (x_env x) h ''clear_object_files'' [(''id'', VStr i)]) (\<lambda>_. hret ())))
       (\<lambda>_ _. write_header 204))"

section \<open>Search, methods, actions\<close>

text \<open>The parts of a comma-separated list, without spaces around them and without the empty ones.\<close>

definition comma_list :: "string \<Rightarrow> string list" where
  "comma_list s = filter (\<lambda>p. p \<noteq> []) (map trim_space (split_on (CHR '','') s))"

definition search_args :: "request \<Rightarrow> goerr + args" where
  "search_args r =
     (let q = rquery r; txt = trim_space (url_get q ''q''); es = comma_list (url_get q ''entities'') in
      if txt = [] then Inl (bad_request ''q is required'')
      else if \<not> list_all action_re es then Inl (bad_request ''entities must be a comma-separated list of entity codes'')
      else Inr ([(''text'', VStr txt), (''entities'', if es = [] then VNil else VRaw (json_print (JArr (map jstr es))))]
        @ (if url_get q ''locale'' = [] then [] else [(''localecode'', VStr (url_get q ''locale''))])))"

definition search :: "rctx \<Rightarrow> request \<Rightarrow> answerer" where
  "search x r = checked r (search_args r) (\<lambda>a. call_rows_handler x ''search'' a r)"

definition object_methods :: "rctx \<Rightarrow> request \<Rightarrow> answerer" where
  "object_methods x r = checked r (id_of r) (\<lambda>i.
     do_answer x r 200 [] (on_visible (x_env x) objects i (\<lambda>h. call (x_env x) h ''get_object_methods'' [(''object'', VStr i)]))
       (\<lambda>rows _. write_json 200 (marshal_rows rows)))"

definition run_fn :: "env \<Rightarrow> string \<Rightarrow> string \<Rightarrow> string \<Rightarrow> string \<Rightarrow> bytes \<Rightarrow> row handler" where
  "run_fn env fn argkey i key ps = on_visible env objects i (\<lambda>h.
     hbind (call env h fn [(''object'', VStr i), (argkey, VStr key), (''params'', json_arg ps)]) (\<lambda>_. get_row env objects (VStr i) h))"

definition run :: "rctx \<Rightarrow> string \<Rightarrow> (string \<Rightarrow> bool) \<Rightarrow> string \<Rightarrow> string \<Rightarrow> request \<Rightarrow> answerer" where
  "run x what valid fn argkey r = checked r (id_of r) (\<lambda>i.
     checked r (let k = path_value r what in if \<not> valid k then Inl (bad_request (''bad '' @ what)) else Inr k) (\<lambda>k.
     checked r (params_of r) (\<lambda>ps.
       do_answer x r 200 ps (run_fn (x_env x) fn argkey i k ps) (\<lambda>row _ w. write_json 200 (row_bytes row) (set_etag x row w)))))"

definition object_routes :: "rctx \<Rightarrow> route list" where
  "object_routes x = (let p = res_prefix objects in
     [(''GET'', search_path, search x),
      (''GET'', p, list_handler x objects),
      (''GET'', p @ ''/{id}'', get_handler x objects),
      (''GET'', p @ ''/{id}/methods'', object_methods x),
      (''POST'', p @ ''/{id}/actions/{action}'', run x ''action'' action_re ''execute_object_action'' ''code''),
      (''POST'', p @ ''/{id}/methods/{method}'', run x ''method'' uuid_shape ''execute_method'' ''method'')]
     @ access_routes x (object_access (x_env x)) @
     [(''GET'', p @ ''/{id}/files'', files x),
      (''POST'', p @ ''/{id}/files'', files_add x),
      (''DELETE'', p @ ''/{id}/files'', files_clear x),
      (''GET'', p @ ''/{id}/files/{file}'', file_get x),
      (''DELETE'', p @ ''/{id}/files/{file}'', file_delete x)])"

section \<open>Lemmas\<close>

lemma plain_on_visible [plains]: "plain_step h (k h) \<Longrightarrow> plain_step h (on_visible env res i k h)"
  unfolding on_visible_def by (intro plains)

lemma object_grant: "grant_ok (object_access env)"
  unfolding grant_ok_def object_access_def chmodo_def by (auto intro!: plains)

lemma object_routes_wired: "routes_wired (object_routes x)"
  by (simp add: object_routes_def Let_def access_routes_wired [OF object_grant],
      auto simp: files_def files_add_def files_clear_def file_get_def file_delete_def files_fn_def search_def
        object_methods_def run_def run_fn_def Let_def intro!: wires plains split: prod.splits)

lemma file_meta_data: "map file_meta (map (\<lambda>(g, d). g(''data'' := d)) (zip fs ds)) = map file_meta (take (length ds) fs)"
proof (induction fs arbitrary: ds)
  case (Cons g fs)
  have m: "file_meta (g(''data'' := d)) = file_meta g" for d by (simp add: file_meta_def gpstr_def gpint_def)
  show ?case using Cons.IH [of "tl ds"] m by (cases ds) (simp_all del: fun_upd_apply)
qed simp

text \<open>The bytes of a file never reach the journal: what is journalled of an upload does not depend on the data of the
  files, only on what describes them.\<close>

lemma without_data_independent:
  "without_data (map (\<lambda>(g, d). g(''data'' := d)) (zip fs ds)) = without_data (take (length ds) fs)"
  unfolding without_data_def file_meta_data ..

text \<open>What an upload that passed the checks looks like.\<close>

lemma check_files_sound: "check_files n fs = Inr gs \<Longrightarrow> map Some gs = fs \<and>
    list_all (\<lambda>g. (\<exists>m. gpstr g ''name'' = Some m \<and> trim_space m \<noteq> []) \<and> (\<forall>z. gpint g ''size'' = Some z \<longrightarrow> 0 \<le> z)) gs"
  by (induction n fs arbitrary: gs rule: check_files.induct)
    (fastforce simp: ebind_def split: if_splits option.splits sum.splits)+

end
