(* ===== verification/Admin.thy ===== *)
theory Admin
  imports Objects
begin

text \<open>
  The package \<open>admin\<close>: users with their profile, actions, address tables and memberships (\<open>users.go\<close>), groups, areas and
  interfaces with their members (\<open>collections.go\<close>), and the routes of the package (\<open>admin.go\<close>).
\<close>

definition gpbool :: "gstruct \<Rightarrow> string \<Rightarrow> bool option" where
  "gpbool g k = (case g k of Some (GBool b) \<Rightarrow> Some b | _ \<Rightarrow> None)"

definition gstrs :: "gstruct \<Rightarrow> string \<Rightarrow> string list" where
  "gstrs g k = (case g k of Some (GStrs l) \<Rightarrow> l | _ \<Rightarrow> [])"

definition opt_bool :: "bool option \<Rightarrow> aval" where
  "opt_bool v = (case v of None \<Rightarrow> VNil | Some b \<Rightarrow> VBool b)"

definition opt_int :: "int option \<Rightarrow> aval" where
  "opt_int v = (case v of None \<Rightarrow> VNil | Some i \<Rightarrow> VInt i)"

section \<open>Users\<close>

definition user_fields :: "(string \<times> jkind) list" where
  "user_fields = [(''username'', KPString), (''password'', KPString), (''name'', KPString), (''phone'', KPString), (''email'', KPString),
     (''description'', KPString), (''passwordchange'', KPBool), (''passwordnotchange'', KPBool)]"

definition user_args :: "gstruct \<Rightarrow> aval \<Rightarrow> args" where
  "user_args b i = [(''id'', i), (''username'', opt_str (gpstr b ''username'')), (''password'', opt_str (gpstr b ''password'')),
     (''name'', opt_str (gpstr b ''name'')), (''phone'', opt_str (gpstr b ''phone'')), (''email'', opt_str (gpstr b ''email'')),
     (''description'', opt_str (gpstr b ''description'')), (''passwordchange'', opt_bool (gpbool b ''passwordchange'')),
     (''passwordnotchange'', opt_bool (gpbool b ''passwordnotchange''))]"

definition secrets :: "string list" where
  "secrets = [''password'', ''old'', ''new'']"

definition redact :: "bytes \<Rightarrow> bytes" where
  "redact raw = (case json_object raw of None \<Rightarrow> raw
     | Some m \<Rightarrow> if list_all (\<lambda>k. map_of m k = None) secrets then raw
         else json_print (json_map (map (\<lambda>(k, v). (k, if k \<in> set secrets then JStr ''***'' else v)) m)))"

definition users :: writable where
  "users = \<lparr>wr_res = \<lparr>res_prefix = ''/api/v2/users'', res_get = ''api.get_user'', res_list = ''api.list_user'', res_count = ''api.count_user'', res_int_id = False\<rparr>,
     wr_set = ''api.set_user'', wr_create_fn = [], wr_create_omit = [],
     wr_body = \<lparr>bd_fields = user_fields, bd_validate = (\<lambda>create b. required ''username'' (gpstr b ''username'') create), bd_args = user_args\<rparr>,
     wr_delete = ''api.delete_user'', wr_redact = Some redact, wr_defaults = None\<rparr>"

definition patch_head :: "request \<Rightarrow> goerr + string" where
  "patch_head r = ebind (id_of r) (\<lambda>i. err_or (precondition r) i)"

definition patch_fn :: "rctx \<Rightarrow> request \<Rightarrow> string \<Rightarrow> unit handler \<Rightarrow> row handler" where
  "patch_fn x r i update h =
     hbind (get_row (x_env x) (wr_res users) (VStr i) h) (\<lambda>current.
       case if_match (x_hash x) r current of
         Some e \<Rightarrow> hfail e
       | None \<Rightarrow> hbind (update h) (\<lambda>_. get_row (x_env x) (wr_res users) (VStr i) h))"

definition patch :: "rctx \<Rightarrow> request \<Rightarrow> string \<Rightarrow> bytes \<Rightarrow> unit handler \<Rightarrow> answerer" where
  "patch x r i raw update = do_answer x r 200 (redact raw) (patch_fn x r i update)
     (\<lambda>row _ w. write_json 200 (row_bytes row) (set_etag x row w))"

definition profile_fields :: "(string \<times> jkind) list" where
  "profile_fields = [(''family_name'', KPString), (''given_name'', KPString), (''patronymic_name'', KPString), (''locale'', KPString),
     (''area'', KPString), (''interface'', KPString), (''picture'', KPString)]"

definition call_unit :: "env \<Rightarrow> string \<Rightarrow> args \<Rightarrow> unit handler" where
  "call_unit env fn a h = hbind (call env h fn a) (\<lambda>_. hret ())"

definition user_profile :: "rctx \<Rightarrow> request \<Rightarrow> answerer" where
  "user_profile x r = checked r (patch_head r) (\<lambda>i. checked r (read_body profile_fields r) (\<lambda>(b, raw).
     patch x r i raw (call_unit (x_env x) ''set_user_profile'' [(''userid'', VStr i), (''familyname'', opt_str (gpstr b ''family_name'')),
       (''givenname'', opt_str (gpstr b ''given_name'')), (''patronymicname'', opt_str (gpstr b ''patronymic_name'')),
       (''locale'', opt_str (gpstr b ''locale'')), (''area'', opt_str (gpstr b ''area'')), (''interface'', opt_str (gpstr b ''interface'')),
       (''picture'', opt_str (gpstr b ''picture''))])))"

definition change_password :: "rctx \<Rightarrow> request \<Rightarrow> string \<Rightarrow> answerer" where
  "change_password x r i = checked r (read_body [(''old'', KPString), (''new'', KPString)] r) (\<lambda>(b, raw).
     if gstr b ''old'' = [] \<or> gstr b ''new'' = [] then refuse r (bad_request ''old and new passwords are required'')
     else do_answer x r 204 (redact raw)
       (call_unit (x_env x) ''change_password'' [(''id'', VStr i), (''oldpass'', VStr (gstr b ''old'')), (''newpass'', VStr (gstr b ''new''))])
       (\<lambda>_ _. write_header 204))"

definition lock_fn :: "env \<Rightarrow> string \<Rightarrow> string \<Rightarrow> row handler" where
  "lock_fn env fn i = on_visible env (wr_res users) i (\<lambda>h.
     hbind (call env h fn [(''id'', VStr i)]) (\<lambda>_. get_row env (wr_res users) (VStr i) h))"

definition user_action :: "rctx \<Rightarrow> request \<Rightarrow> answerer" where
  "user_action x r = checked r (id_of r) (\<lambda>i.
     let lock = (\<lambda>fn. do_answer x r 200 [] (lock_fn (x_env x) fn i) (\<lambda>row _ w. write_json 200 (row_bytes row) (set_etag x row w)));
         action = path_value r ''action'' in
     if action = ''lock'' then lock ''api.user_lock''
     else if action = ''unlock'' then lock ''api.user_unlock''
     else if action = ''change-password'' then change_password x r i
     else refuse r (EProblem (problem_new 404 ''not-found'' ''Not found'' ''no such action'')))"

subsection \<open>Address tables\<close>

definition iptable_fields :: "(string \<times> jkind) list" where
  "iptable_fields = [(''allow'', KStrings), (''deny'', KStrings)]"

definition iptable_json :: "string list \<Rightarrow> string list \<Rightarrow> bytes" where
  "iptable_json allow deny = json_print (JObj [(''allow'', JArr (map jstr allow)), (''deny'', JArr (map jstr deny))])"

definition iptable_read :: "env \<Rightarrow> string \<Rightarrow> string \<Rightarrow> string list handler" where
  "iptable_read env i code h =
     htry (call_row env h ''get_user_iptable'' [(''id'', VStr i), (''type'', VStr code)]) (\<lambda>res. case res of
         Inl e \<Rightarrow> if is_no_row e then hret [] else hfail e
       | Inr row \<Rightarrow> (case row of None \<Rightarrow> hret []
           | Some b \<Rightarrow> (case json_unmarshal [(''iptable'', KPString)] b of
               (_, Some e) \<Rightarrow> hfail (EText (jerr_text e))
             | (g, None) \<Rightarrow> hret (case gpstr g ''iptable'' of None \<Rightarrow> [] | Some l \<Rightarrow> comma_list l))))"

definition user_iptable_get :: "rctx \<Rightarrow> request \<Rightarrow> answerer" where
  "user_iptable_get x r = checked r (id_of r) (\<lambda>i.
     do_answer x r 200 [] (on_visible (x_env x) (wr_res users) i (\<lambda>h.
         hbind (iptable_read (x_env x) i ''A'' h) (\<lambda>allow. hbind (iptable_read (x_env x) i ''D'' h) (\<lambda>deny. hret (allow, deny)))))
       (\<lambda>t _. write_json 200 (iptable_json (fst t) (snd t))))"

definition iptable_write :: "env \<Rightarrow> string \<Rightarrow> string \<Rightarrow> string list \<Rightarrow> unit handler" where
  "iptable_write env i code l = call_unit env ''set_user_iptable''
     [(''id'', VStr i), (''type'', VStr code), (''iptable'', if l = [] then VNil else VStr (join '','' l))]"

definition user_iptable_put :: "rctx \<Rightarrow> request \<Rightarrow> answerer" where
  "user_iptable_put x r = checked r (id_of r) (\<lambda>i. checked r (read_body iptable_fields r) (\<lambda>(t, raw).
     do_answer x r 200 raw (on_visible (x_env x) (wr_res users) i (\<lambda>h.
         hbind (iptable_write (x_env x) i ''A'' (gstrs t ''allow'') h) (\<lambda>_. iptable_write (x_env x) i ''D'' (gstrs t ''deny'') h)))
       (\<lambda>_ _. write_json 200 (iptable_json (gstrs t ''allow'') (gstrs t ''deny'')))))"

subsection \<open>Memberships\<close>

record membership =
  ms_path :: string
  ms_fn :: string
  ms_key :: string

definition memberships :: "membership list" where
  "memberships = [\<lparr>ms_path = ''groups'', ms_fn = ''api.member_group'', ms_key = ''group''\<rparr>,
     \<lparr>ms_path = ''areas'', ms_fn = ''api.member_area'', ms_key = ''area''\<rparr>,
     \<lparr>ms_path = ''interfaces'', ms_fn = ''api.member_interface'', ms_key = ''interface''\<rparr>]"

text \<open>The rows of one function under the id of a visible row; the id of a body; the uuid of a wildcard.\<close>

definition rows_under :: "rctx \<Rightarrow> resource \<Rightarrow> string \<Rightarrow> string \<Rightarrow> request \<Rightarrow> answerer" where
  "rows_under x res fn key r = checked r (id_of r) (\<lambda>i.
     do_answer x r 200 [] (on_visible (x_env x) res i (\<lambda>h. call (x_env x) h fn [(key, VStr i)])) (\<lambda>rows _. write_json 200 (marshal_rows rows)))"

definition body_id :: "request \<Rightarrow> string \<Rightarrow> goerr + string \<times> bytes" where
  "body_id r what = ebind (read_body [(''id'', KString)] r) (\<lambda>(b, raw).
     if \<not> uuid_shape (gstr b ''id'') then Inl (bad_request (''id of the '' @ what @ '' is required'')) else Inr (gstr b ''id'', raw))"

definition path_uuid :: "request \<Rightarrow> string \<Rightarrow> goerr + string" where
  "path_uuid r k = (let v = path_value r k in if \<not> uuid_shape v then Inl (bad_request ''id must be a UUID'') else Inr v)"

definition membership_list :: "rctx \<Rightarrow> membership \<Rightarrow> request \<Rightarrow> answerer" where
  "membership_list x ms = rows_under x (wr_res users) (ms_fn ms) ''userid''"

definition membership_add :: "rctx \<Rightarrow> membership \<Rightarrow> request \<Rightarrow> answerer" where
  "membership_add x ms r = checked r (id_of r) (\<lambda>i. checked r (body_id r (trim_suffix (ms_path ms) ''s'')) (\<lambda>(g, raw).
     do_answer x r 204 raw (call_unit (x_env x) (ms_fn ms @ ''_add'') [(''member'', VStr i), (ms_key ms, VStr g)]) (\<lambda>_ _. write_header 204)))"

definition membership_delete :: "rctx \<Rightarrow> membership \<Rightarrow> request \<Rightarrow> answerer" where
  "membership_delete x ms r = checked r (id_of r) (\<lambda>i. checked r (path_uuid r ''gid'') (\<lambda>g.
     do_answer x r 204 [] (call_unit (x_env x) (ms_fn ms @ ''_delete'') [(''member'', VStr i), (ms_key ms, VStr g)]) (\<lambda>_ _. write_header 204)))"

definition user_memberships :: "rctx \<Rightarrow> request \<Rightarrow> answerer" where
  "user_memberships x = rows_under x (wr_res users) ''user_member'' ''userid''"

definition user_routes :: "rctx \<Rightarrow> int \<Rightarrow> int \<Rightarrow> idempotency option \<Rightarrow> route list" where
  "user_routes x t1 t2 idem = (let p = res_prefix (wr_res users) in
     writable_routes x t1 t2 idem users @
     [(''PATCH'', p @ ''/{id}/profile'', user_profile x),
      (''POST'', p @ ''/{id}/actions/{action}'', user_action x),
      (''GET'', p @ ''/{id}/iptable'', user_iptable_get x),
      (''PUT'', p @ ''/{id}/iptable'', user_iptable_put x),
      (''GET'', p @ ''/{id}/memberships'', user_memberships x)]
     @ concat (map (\<lambda>ms. [(''GET'', p @ ''/{id}/'' @ ms_path ms, membership_list x ms),
          (''POST'', p @ ''/{id}/'' @ ms_path ms, membership_add x ms),
          (''DELETE'', p @ ''/{id}/'' @ ms_path ms @ ''/{gid}'', membership_delete x ms)]) memberships))"

section \<open>Collections\<close>

record collection =
  cl_writable :: writable
  cl_members_fn :: string
  cl_members_key :: string
  cl_add_fn :: string
  cl_del_fn :: string
  cl_key :: string

text \<open>What the three declarations share: the functions are named after the collection.\<close>

definition plain_writable :: "string \<Rightarrow> string \<Rightarrow> body \<Rightarrow> writable" where
  "plain_writable prefx name b = \<lparr>wr_res = \<lparr>res_prefix = prefx, res_get = ''api.get_'' @ name, res_list = ''api.list_'' @ name,
       res_count = ''api.count_'' @ name, res_int_id = False\<rparr>, wr_set = ''api.set_'' @ name, wr_create_fn = [], wr_create_omit = [],
     wr_body = b, wr_delete = ''api.delete_'' @ name, wr_redact = None, wr_defaults = None\<rparr>"

definition group_body :: body where
  "group_body = \<lparr>bd_fields = [(''username'', KPString), (''name'', KPString), (''description'', KPString)],
     bd_validate = (\<lambda>create b. required ''username'' (gpstr b ''username'') create),
     bd_args = (\<lambda>b i. [(''id'', i), (''username'', opt_str (gpstr b ''username'')), (''name'', opt_str (gpstr b ''name'')),
       (''description'', opt_str (gpstr b ''description''))])\<rparr>"

definition area_body :: body where
  "area_body = \<lparr>bd_fields = [(''parent'', KPString), (''type'', KPString), (''scope'', KPString), (''code'', KPString), (''name'', KPString),
       (''description'', KPString), (''sequence'', KPInt), (''valid_from_date'', KPString), (''valid_to_date'', KPString)],
     bd_validate = (\<lambda>create b. required ''code'' (gpstr b ''code'') create),
     bd_args = (\<lambda>b i. [(''id'', i), (''parent'', opt_str (gpstr b ''parent'')), (''type'', opt_str (gpstr b ''type'')),
       (''scope'', opt_str (gpstr b ''scope'')), (''code'', opt_str (gpstr b ''code'')), (''name'', opt_str (gpstr b ''name'')),
       (''description'', opt_str (gpstr b ''description'')), (''sequence'', opt_int (gpint b ''sequence'')),
       (''validfromdate'', opt_str (gpstr b ''valid_from_date'')), (''validtodate'', opt_str (gpstr b ''valid_to_date''))])\<rparr>"

definition interface_body :: body where
  "interface_body = \<lparr>bd_fields = [(''code'', KPString), (''name'', KPString), (''description'', KPString)],
     bd_validate = (\<lambda>create b. required ''code'' (gpstr b ''code'') create),
     bd_args = (\<lambda>b i. [(''id'', i), (''code'', opt_str (gpstr b ''code'')), (''name'', opt_str (gpstr b ''name'')),
       (''description'', opt_str (gpstr b ''description''))])\<rparr>"

definition groups :: collection where
  "groups = \<lparr>cl_writable = plain_writable ''/api/v2/groups'' ''group'' group_body, cl_members_fn = ''api.group_member'', cl_members_key = ''groupid'',
     cl_add_fn = ''api.group_member_add'', cl_del_fn = ''api.group_member_delete'', cl_key = ''group''\<rparr>"

definition areas :: collection where
  "areas = \<lparr>cl_writable = plain_writable ''/api/v2/areas'' ''area'' area_body, cl_members_fn = ''api.area_member'', cl_members_key = ''areaid'',
     cl_add_fn = ''api.area_member_add'', cl_del_fn = ''api.area_member_delete'', cl_key = ''area''\<rparr>"

definition interfaces :: collection where
  "interfaces = \<lparr>cl_writable = plain_writable ''/api/v2/interfaces'' ''interface'' interface_body, cl_members_fn = ''api.interface_member'',
     cl_members_key = ''interfaceid'', cl_add_fn = ''api.interface_member_add'', cl_del_fn = ''api.interface_member_delete'', cl_key = ''interface''\<rparr>"

definition sessions :: resource where
  "sessions = \<lparr>res_prefix = ''/api/v2/sessions'', res_get = [], res_list = ''api.list_session'', res_count = ''api.count_session'', res_int_id = False\<rparr>"

definition members_list :: "rctx \<Rightarrow> collection \<Rightarrow> request \<Rightarrow> answerer" where
  "members_list x c = rows_under x (wr_res (cl_writable c)) (cl_members_fn c) (cl_members_key c)"

definition members_add :: "rctx \<Rightarrow> collection \<Rightarrow> request \<Rightarrow> answerer" where
  "members_add x c r = checked r (id_of r) (\<lambda>i. checked r (body_id r ''user'') (\<lambda>(u, raw).
     do_answer x r 204 raw (call_unit (x_env x) (cl_add_fn c) [(cl_key c, VStr i), (''member'', VStr u)]) (\<lambda>_ _. write_header 204)))"

definition members_delete :: "rctx \<Rightarrow> collection \<Rightarrow> request \<Rightarrow> answerer" where
  "members_delete x c r = checked r (id_of r) (\<lambda>i. checked r (path_uuid r ''uid'') (\<lambda>u.
     do_answer x r 204 [] (call_unit (x_env x) (cl_del_fn c) [(cl_key c, VStr i), (''member'', VStr u)]) (\<lambda>_ _. write_header 204)))"

definition area_action :: "rctx \<Rightarrow> request \<Rightarrow> answerer" where
  "area_action x r = checked r (id_of r) (\<lambda>i.
     if path_value r ''action'' \<noteq> ''delete-safely'' then refuse r (EProblem (problem_new 404 ''not-found'' ''Not found'' ''no such action''))
     else do_answer x r 200 [] (on_visible (x_env x) (wr_res (cl_writable areas)) i (\<lambda>h.
         call_scalar (x_env x) h ''safely_delete_area'' [(''id'', VStr i)] dec_bool))
       (\<lambda>d _. write_json 200 (json_print (json_map [(''deleted'', JBool (d = Some True))]))))"

definition areas_clear :: "rctx \<Rightarrow> request \<Rightarrow> answerer" where
  "areas_clear x r = do_answer x r 200 [] (\<lambda>h. call_scalar (x_env x) h ''clear_area'' [] dec_int)
     (\<lambda>n _. write_json 200 (json_print (json_map [(''cleared'', jint (case n of None \<Rightarrow> 0 | Some i \<Rightarrow> i))])))"

definition order_code :: aval where
  "order_code = VRaw (json_print (JArr [jstr ''code ASC'']))"

definition collection_routes :: "rctx \<Rightarrow> int \<Rightarrow> int \<Rightarrow> idempotency option \<Rightarrow> route list" where
  "collection_routes x t1 t2 idem =
     concat (map (\<lambda>c. let p = res_prefix (wr_res (cl_writable c)) in
       writable_routes x t1 t2 idem (cl_writable c) @
       [(''GET'', p @ ''/{id}/members'', members_list x c),
        (''POST'', p @ ''/{id}/members'', members_add x c),
        (''DELETE'', p @ ''/{id}/members/{uid}'', members_delete x c)]) [groups, areas, interfaces]) @
     [(''POST'', ''/api/v2/areas/{id}/actions/{action}'', area_action x),
      (''POST'', ''/api/v2/areas/actions/clear'', areas_clear x),
      (''GET'', ''/api/v2/area-types'', call_rows_handler x ''list_area_type'' [(''limit'', VInt 0)]),
      (''GET'', ''/api/v2/locales'', call_rows_handler x ''list_locale'' [(''orderby'', order_code), (''limit'', VInt 0)]),
      (''GET'', ''/api/v2/sessions'', list_handler x sessions)]"

definition admin_prefixes :: "string list" where
  "admin_prefixes = [''/api/v2/users'', ''/api/v2/groups'', ''/api/v2/areas'', ''/api/v2/area-types'', ''/api/v2/interfaces'', ''/api/v2/sessions'', ''/api/v2/locales'']"

definition admin_routes :: "rctx \<Rightarrow> int \<Rightarrow> int \<Rightarrow> idempotency option \<Rightarrow> route list" where
  "admin_routes x t1 t2 idem = user_routes x t1 t2 idem @ collection_routes x t1 t2 idem"

section \<open>The handlers keep the contract\<close>

lemma plain_admin [plains]: "plain_step h (call_unit env fn a h)" "plain_step h (lock_fn env fn i h)" "plain_step h (iptable_write env i code l h)"
  unfolding call_unit_def lock_fn_def iptable_write_def by (intro plains)+

lemma plain_patch [plains]: "plain_step h (update h) \<Longrightarrow> plain_step h (patch_fn x r i update h)"
  unfolding patch_fn_def by (intro plains)

lemma plain_iptable_read [plains]: "plain_step h (iptable_read env i code h)"
  unfolding iptable_read_def by (intro plains) (auto intro!: plains split: prod.splits option.splits)

lemma wired_users [wires]: "wired (user_profile x r)" "wired (user_action x r)" "wired (user_iptable_get x r)" "wired (user_iptable_put x r)"
  unfolding user_profile_def user_action_def change_password_def user_iptable_get_def user_iptable_put_def patch_def Let_def
  by (auto intro!: wires plains split: prod.splits)

lemma wired_rows_under [wires]: "wired (rows_under x res fn key r)"
  unfolding rows_under_def by (auto intro!: wires plains)

lemma wired_members [wires]: "wired (membership_list x ms r)" "wired (membership_add x ms r)" "wired (membership_delete x ms r)"
    "wired (user_memberships x r)" "wired (members_list x c r)" "wired (members_add x c r)" "wired (members_delete x c r)"
    "wired (area_action x r)" "wired (areas_clear x r)"
  unfolding membership_list_def membership_add_def membership_delete_def user_memberships_def members_list_def members_add_def
    members_delete_def area_action_def areas_clear_def
  by (auto intro!: wires plains split: prod.splits)

lemma routes_wired_concat: "routes_wired (concat (map f xs)) \<longleftrightarrow> (\<forall>a \<in> set xs. routes_wired (f a))"
  by (induction xs) simp_all

lemma admin_routes_wired: "routes_wired (admin_routes x t1 t2 idem)"
  by (simp add: admin_routes_def user_routes_def collection_routes_def Let_def routes_wired_concat writable_routes_wired wires)

section \<open>Passwords and the journal\<close>

text \<open>A handler whose durable journal lines carry one payload or none.\<close>

definition tells_only :: "bytes \<Rightarrow> answerer \<Rightarrow> bool" where
  "tells_only pl f \<longleftrightarrow> (\<forall>w s. fresh s \<longrightarrow> lines_tell (snext s) (Some pl) (snd (f w s)))"

named_theorems telling

lemma lines_tell_fresh: "fresh s \<Longrightarrow> lines_tell (snext s) pl s"
  by (simp add: lines_tell_def fresh_durable)

lemma lines_tell_mono: "lines_tell n pl s \<Longrightarrow> pl \<in> {None, pl'} \<Longrightarrow> lines_tell n pl' s"
  by (fastforce simp: lines_tell_def tells_def list_all_iff)

lemma tells_do_answer [telling]:
  assumes "handler_ok fn" "pl' = [] \<or> pl' = pl"
  shows "tells_only pl (do_answer x r st pl' fn ok)"
proof -
  have "lines_tell (snext s) (Some pl) (snd (do_req x r st pl' fn s))" if f: "fresh s" for s
  proof -
    obtain y s' where d: "do_req x r st pl' fn s = (y, s')" by force
    have "lines_tell (snext s) (payload_of (req_of r st pl')) s'"
      using run_do_payload [OF assms(1) _ d [unfolded do_req_def], of "req_of r st pl'"] f by simp
    moreover have "payload_of (req_of r st pl') \<in> {None, Some pl}" using assms(2) by (auto simp: payload_of_def req_of_def)
    ultimately have "lines_tell (snext s) (Some pl) s'" by (rule lines_tell_mono)
    then show ?thesis by (simp add: d)
  qed
  then show ?thesis by (simp add: tells_only_def snd_do_answer)
qed

lemma tells_refuse [telling]: "tells_only pl (refuse r e)"
  by (simp add: tells_only_def refuse_def lines_tell_fresh)

lemma tells_checked [telling]: "(\<And>v. c = Inr v \<Longrightarrow> tells_only pl (k v)) \<Longrightarrow> tells_only pl (checked r c k)"
  by (cases c) (simp_all add: checked_def tells_refuse)

lemma tells_once [telling]: "tells_only pl f \<Longrightarrow> tells_only pl (once_answer hash t1 t2 r idem user raw f)"
  unfolding tells_only_def once_answer_def once_def Let_def
  by (auto split: prod.splits option.splits bool.splits if_splits intro: lines_tell_fresh) (metis snd_conv)+

lemma tells_if [telling]: "tells_only pl f \<Longrightarrow> tells_only pl g \<Longrightarrow> tells_only pl (if b then f else g)"
  by simp

lemma read_body_raw: "read_body fs r = Inr (g, raw) \<Longrightarrow> rbody r = Some b \<Longrightarrow> raw = limit_body b"
  by (auto simp: read_body_def Let_def split: if_splits option.splits prod.splits)

lemma users_tell:
  assumes "rbody r = Some b"
  shows "tells_only (redact (limit_body b)) (create_post x t1 t2 users idem r)" "tells_only (redact (limit_body b)) (update_handler x users r)"
    "tells_only (redact (limit_body b)) (user_profile x r)" "tells_only (redact (limit_body b)) (user_action x r)"
proof -
  have l: "logged users raw = redact raw" for raw by (simp add: logged_def users_def)
  show "tells_only (redact (limit_body b)) (create_post x t1 t2 users idem r)"
    unfolding create_post_checked create_answer_def l
    by (auto intro!: telling plain_handler_ok plains simp: create_check_def ebind_def err_or_def dest!: read_body_raw [OF _ assms] split: sum.splits prod.splits if_splits option.splits)
  show "tells_only (redact (limit_body b)) (update_handler x users r)"
    unfolding update_handler_def l
    by (auto intro!: telling plain_handler_ok plains simp: ebind_def err_or_def dest!: read_body_raw [OF _ assms] split: sum.splits prod.splits option.splits)
  show "tells_only (redact (limit_body b)) (user_profile x r)"
    unfolding user_profile_def patch_def
    by (auto intro!: telling plain_handler_ok plains dest!: read_body_raw [OF _ assms] split: prod.splits)
  show "tells_only (redact (limit_body b)) (user_action x r)"
    unfolding user_action_def change_password_def Let_def
    by (auto intro!: telling plain_handler_ok plains dest!: read_body_raw [OF _ assms] split: prod.splits)
qed

text \<open>The payload with every value under a secret key replaced and everything else kept.\<close>

definition hidden :: "bytes \<Rightarrow> (string \<times> json) list \<Rightarrow> bytes \<Rightarrow> bool" where
  "hidden raw m pl \<longleftrightarrow>
     pl = raw \<and> (\<forall>(k, v) \<in> set m. k \<notin> {''password'', ''old'', ''new''})
   \<or> (\<exists>m'. pl = json_print (json_map m') \<and> map fst m' = map fst m \<and> (\<forall>(k, v) \<in> set m'. k \<in> {''password'', ''old'', ''new''} \<longrightarrow> v = JStr ''***'')
        \<and> filter (\<lambda>(k, v). k \<notin> {''password'', ''old'', ''new''}) m' = filter (\<lambda>(k, v). k \<notin> {''password'', ''old'', ''new''}) m)"

lemma redact_hidden:
  assumes "json_object raw = Some m"
  shows "hidden raw m (redact raw)"
proof (cases "list_all (\<lambda>k. map_of m k = None) secrets")
  case True
  then have "\<forall>(k, v) \<in> set m. k \<notin> {''password'', ''old'', ''new''}" by (force simp: secrets_def map_of_eq_None_iff)
  with True assms show ?thesis by (simp add: redact_def hidden_def)
next
  case False
  let ?f = "\<lambda>(k, v). (k, if k \<in> set secrets then JStr ''***'' else v)"
  have s: "set secrets = {''password'', ''old'', ''new''}" by (simp add: secrets_def)
  have "map fst (map ?f l) = map fst l" "\<forall>(k, v) \<in> set (map ?f l). k \<in> set secrets \<longrightarrow> v = JStr ''***''"
    "filter (\<lambda>(k, v). k \<notin> set secrets) (map ?f l) = filter (\<lambda>(k, v). k \<notin> set secrets) l" for l
    by (induction l) auto
  moreover have "redact raw = json_print (json_map (map ?f m))" using False assms by (simp add: redact_def)
  ultimately show ?thesis unfolding hidden_def s by blast
qed

text \<open>C26: passwords stay out of the journal. Whatever POST \<open>/users\<close>, PATCH \<open>/users/{id}\<close>, PATCH \<open>/users/{id}/profile\<close> and POST
  \<open>/users/{id}/actions/{action}\<close> (\<open>change-password\<close> among them) leave durable, on either road and whatever the database
  answers: when the body that was read is one JSON object and nothing else, a payload given to the journal is that object with
  every value of the keys \<open>password\<close>, \<open>old\<close> and \<open>new\<close> replaced and everything else as it was.\<close>

theorem redact_hides:
  assumes "f \<in> {create_post x t1 t2 users idem r, update_handler x users r, user_profile x r, user_action x r}"
    and "f w s = (w', s')" "fresh s" "rbody r = Some b" "json_object (limit_body b) = Some m"
    and "snext s < u" "(q, a) \<in> set (durable u (strace s'))" "line_payload q = Some pl"
  shows "hidden (limit_body b) m pl"
proof -
  have "tells_only (redact (limit_body b)) f" using assms(1) users_tell [OF assms(4)] by auto
  then have "lines_tell (snext s) (Some (redact (limit_body b))) s'" using assms(2,3) unfolding tells_only_def by (metis snd_conv)
  then have "tells (Some (redact (limit_body b))) (q, a)" using assms(6,7) unfolding lines_tell_def list_all_iff by blast
  then have "pl = redact (limit_body b)" using assms(8) by (simp add: tells_def)
  then show ?thesis using redact_hidden [OF assms(5)] by simp
qed

definition change_request :: request where
  "change_request = (sample_request ''POST'' [] (json_print (JObj [(''old'', JStr ''o''), (''new'', JStr ''s'')])))
     \<lparr>rpathvalue := [(''id'', sample_id), (''action'', ''change-password'')]\<rparr>"

definition changed_password :: "response \<times> pst" where
  "changed_password = user_action (sample_ctx sample_rows) change_request fresh_response sample_state"

theorem redact_hides_witness:
  "wstatus (fst changed_password) = Some 204 \<and>
   (\<exists>pl. line_payload (fst (last (durable 1 (strace (snd changed_password))))) = Some pl
      \<and> hidden (json_print (JObj [(''old'', JStr ''o''), (''new'', JStr ''s'')])) [(''new'', JStr ''s''), (''old'', JStr ''o'')] pl)"
proof -
  let ?b = "json_print (JObj [(''old'', JStr ''o''), (''new'', JStr ''s'')])"
  have st: "wstatus (fst changed_password) = Some 204" by code_simp
  have o: "json_object (limit_body ?b) = Some [(''new'', JStr ''s''), (''old'', JStr ''o'')]" by code_simp
  have lb: "limit_body ?b = ?b" by code_simp
  have d: "durable 1 (strace (snd changed_password)) \<noteq> []" by code_simp
  have p: "line_payload (fst (last (durable 1 (strace (snd changed_password))))) = Some (redact ?b)" by code_simp
  obtain q a where q: "last (durable 1 (strace (snd changed_password))) = (q, a)" by force
  have m: "(q, a) \<in> set (durable 1 (strace (snd changed_password)))" using last_in_set [OF d] q by simp
  have r: "rbody change_request = Some ?b" by (simp add: change_request_def sample_request_def)
  have n: "snext sample_state < 1" by (simp add: sample_state_def)
  have e: "user_action (sample_ctx sample_rows) change_request fresh_response sample_state = (fst changed_password, snd changed_password)"
    by (simp add: changed_password_def)
  have pq: "line_payload q = Some (redact ?b)" using p q by simp
  have "hidden (limit_body ?b) [(''new'', JStr ''s''), (''old'', JStr ''o'')] (redact ?b)"
    by (rule redact_hides [where x = "sample_ctx sample_rows" and f = "user_action (sample_ctx sample_rows) change_request", OF _ e sample_fresh r o n m pq]) blast
  with st p lb show ?thesis by auto
qed

text \<open>A body whose key is spelt \<open>Password\<close> is taken as the password, since a key is matched to a field up to case, and is
  journalled as it is, since \<open>redact\<close> looks for the exact spelling.\<close>

lemma redact_misses_case:
  "read_body user_fields (sample_request ''PATCH'' [] (json_print (JObj [(''Password'', JStr ''s'')])))
     = Inr ([''password'' \<mapsto> GStr ''s''], json_print (JObj [(''Password'', JStr ''s'')]))
   \<and> logged users (json_print (JObj [(''Password'', JStr ''s'')])) = json_print (JObj [(''Password'', JStr ''s'')])"
proof -
  let ?b = "json_print (JObj [(''Password'', JStr ''s'')])"
  have f: "json_first ?b = Some (JObj [(''Password'', JStr ''s'')], [])" by code_simp
  have l: "limit_body ?b = ?b" "?b \<noteq> []" by code_simp+
  have k: "field_for user_fields (unquote ''Password'') = Some (''password'', KPString)" by code_simp
  have u: "unquote ''s'' = ''s''" by code_simp
  have "decode_struct True user_fields (JObj [(''Password'', JStr ''s'')]) = ([''password'' \<mapsto> GStr ''s''], None)"
    by (simp add: decode_struct_def k u)
  then have "read_body user_fields (sample_request ''PATCH'' [] ?b) = Inr ([''password'' \<mapsto> GStr ''s''], ?b)"
    using f l by (simp add: read_body_def sample_request_def Let_def)
  moreover have "json_object ?b = Some [(''Password'', JStr ''s'')]" by code_simp
  then have "logged users ?b = ?b" by (simp add: logged_def users_def redact_def secrets_def)
  ultimately show ?thesis by blast
qed

text \<open>A body with text after the object is taken, since only the first JSON value of it is read, and is journalled as it is,
  since \<open>redact\<close> finds no JSON text in the whole of it.\<close>

lemma redact_misses_tail:
  "read_body user_fields (sample_request ''PATCH'' [] (json_print (JObj [(''password'', JStr ''s'')]) @ '' x''))
     = Inr ([''password'' \<mapsto> GStr ''s''], json_print (JObj [(''password'', JStr ''s'')]) @ '' x'')
   \<and> logged users (json_print (JObj [(''password'', JStr ''s'')]) @ '' x'') = json_print (JObj [(''password'', JStr ''s'')]) @ '' x''"
proof -
  let ?b = "json_print (JObj [(''password'', JStr ''s'')]) @ '' x''"
  have f: "json_first ?b = Some (JObj [(''password'', JStr ''s'')], '' x'')" by code_simp
  have l: "limit_body ?b = ?b" by code_simp
  have k: "field_for user_fields (unquote ''password'') = Some (''password'', KPString)" by code_simp
  have u: "unquote ''s'' = ''s''" by code_simp
  have "decode_struct True user_fields (JObj [(''password'', JStr ''s'')]) = ([''password'' \<mapsto> GStr ''s''], None)"
    by (simp add: decode_struct_def k u)
  then have "read_body user_fields (sample_request ''PATCH'' [] ?b) = Inr ([''password'' \<mapsto> GStr ''s''], ?b)"
    using f l by (simp add: read_body_def sample_request_def Let_def)
  moreover have "json_object ?b = None" by code_simp
  then have "logged users ?b = ?b" by (simp add: logged_def users_def redact_def)
  ultimately show ?thesis by blast
qed

end
