(* ===== verification/Catalogues.thy ===== *)
theory Catalogues
  imports Admin
begin

text \<open>
  The catalogue packages: \<open>workflow\<close> (entities, types, classes, states, methods, transitions, events and their access),
  \<open>error\<close>, \<open>resource\<close>, \<open>api\<close>, \<open>log\<close> and \<open>verification\<close>.
\<close>

section \<open>Workflow\<close>

definition catalogue_res :: "string \<Rightarrow> string \<Rightarrow> resource" where
  "catalogue_res prefx name = \<lparr>res_prefix = prefx, res_get = ''api.get_'' @ name, res_list = ''api.list_'' @ name, res_count = ''api.count_'' @ name, res_int_id = False\<rparr>"

definition read_only :: "resource list" where
  "read_only = [catalogue_res ''/api/v2/entities'' ''entity'', catalogue_res ''/api/v2/actions'' ''action'', catalogue_res ''/api/v2/priorities'' ''priority'']"

definition state_types :: resource where
  "state_types = \<lparr>res_prefix = ''/api/v2/state-types'', res_get = ''api.get_state_type'', res_list = [], res_count = [], res_int_id = False\<rparr>"

definition event_types :: resource where
  "event_types = \<lparr>res_prefix = ''/api/v2/event-types'', res_get = ''api.get_event_type'', res_list = [], res_count = [], res_int_id = False\<rparr>"

definition type_body :: body where
  "type_body = \<lparr>bd_fields = [(''class'', KPString), (''code'', KPString), (''name'', KPString), (''description'', KPString)],
     bd_validate = (\<lambda>create b. required_all create [(''code'', gpstr b ''code''), (''class'', gpstr b ''class'')]),
     bd_args = (\<lambda>b i. [(''id'', i), (''class'', opt_str (gpstr b ''class'')), (''code'', opt_str (gpstr b ''code'')),
       (''name'', opt_str (gpstr b ''name'')), (''description'', opt_str (gpstr b ''description''))])\<rparr>"

definition class_fields :: "(string \<times> jkind) list" where
  "class_fields = [(''parent'', KPString), (''entity'', KPString), (''code'', KPString), (''label'', KPString), (''abstract'', KPBool)]"

definition class_args :: "gstruct \<Rightarrow> aval \<Rightarrow> args" where
  "class_args b i = [(''id'', i), (''parent'', opt_str (gpstr b ''parent'')), (''entity'', opt_str (gpstr b ''entity'')),
     (''code'', opt_str (gpstr b ''code'')), (''label'', opt_str (gpstr b ''label'')),
     (''abstract'', VBool (case gpbool b ''abstract'' of None \<Rightarrow> True | Some a \<Rightarrow> a))]"

definition class_body :: body where
  "class_body = \<lparr>bd_fields = class_fields,
     bd_validate = (\<lambda>create b. required_all create [(''code'', gpstr b ''code''), (''parent'', gpstr b ''parent''), (''entity'', gpstr b ''entity'')]),
     bd_args = class_args\<rparr>"

definition state_body :: body where
  "state_body = \<lparr>bd_fields = [(''class'', KPString), (''type'', KPString), (''code'', KPString), (''label'', KPString), (''sequence'', KPInt)],
     bd_validate = (\<lambda>create b. required_all create [(''code'', gpstr b ''code''), (''class'', gpstr b ''class''), (''type'', gpstr b ''type'')]),
     bd_args = (\<lambda>b i. [(''id'', i), (''class'', opt_str (gpstr b ''class'')), (''type'', opt_str (gpstr b ''type'')),
       (''code'', opt_str (gpstr b ''code'')), (''label'', opt_str (gpstr b ''label'')), (''sequence'', opt_int (gpint b ''sequence''))])\<rparr>"

definition method_body :: body where
  "method_body = \<lparr>bd_fields = [(''parent'', KPString), (''class'', KPString), (''state'', KPString), (''action'', KPString), (''code'', KPString),
       (''label'', KPString), (''sequence'', KPInt), (''visible'', KPBool)],
     bd_validate = (\<lambda>create b. required_all create [(''class'', gpstr b ''class''), (''state'', gpstr b ''state''), (''action'', gpstr b ''action'')]),
     bd_args = (\<lambda>b i. [(''id'', i), (''parent'', opt_str (gpstr b ''parent'')), (''class'', opt_str (gpstr b ''class'')),
       (''state'', opt_str (gpstr b ''state'')), (''action'', opt_str (gpstr b ''action'')), (''code'', opt_str (gpstr b ''code'')),
       (''label'', opt_str (gpstr b ''label'')), (''sequence'', opt_int (gpint b ''sequence'')), (''visible'', opt_bool (gpbool b ''visible''))])\<rparr>"

definition transition_body :: body where
  "transition_body = \<lparr>bd_fields = [(''state'', KPString), (''method'', KPString), (''newstate'', KPString)],
     bd_validate = (\<lambda>create b. required_all create [(''state'', gpstr b ''state''), (''method'', gpstr b ''method''), (''newstate'', gpstr b ''newstate'')]),
     bd_args = (\<lambda>b i. [(''id'', i), (''state'', opt_str (gpstr b ''state'')), (''method'', opt_str (gpstr b ''method'')),
       (''newstate'', opt_str (gpstr b ''newstate''))])\<rparr>"

definition event_body :: body where
  "event_body = \<lparr>bd_fields = [(''class'', KPString), (''type'', KPString), (''action'', KPString), (''label'', KPString), (''text'', KPString),
       (''sequence'', KPInt), (''enabled'', KPBool)],
     bd_validate = (\<lambda>create b. required_all create [(''class'', gpstr b ''class''), (''type'', gpstr b ''type''), (''action'', gpstr b ''action'')]),
     bd_args = (\<lambda>b i. [(''id'', i), (''class'', opt_str (gpstr b ''class'')), (''type'', opt_str (gpstr b ''type'')),
       (''action'', opt_str (gpstr b ''action'')), (''label'', opt_str (gpstr b ''label'')), (''text'', opt_str (gpstr b ''text'')),
       (''sequence'', opt_int (gpint b ''sequence'')), (''enabled'', opt_bool (gpbool b ''enabled''))])\<rparr>"

definition types :: writable where
  "types = plain_writable ''/api/v2/types'' ''type'' type_body"
definition classes :: writable where
  "classes = plain_writable ''/api/v2/classes'' ''class'' class_body"
definition states :: writable where
  "states = plain_writable ''/api/v2/states'' ''state'' state_body"
definition methods :: writable where
  "methods = plain_writable ''/api/v2/methods'' ''method'' method_body"
definition transitions :: writable where
  "transitions = plain_writable ''/api/v2/transitions'' ''transition'' transition_body"
definition events :: writable where
  "events = plain_writable ''/api/v2/events'' ''event'' event_body"

definition copy_body :: "request \<Rightarrow> goerr + string \<times> bytes" where
  "copy_body r = ebind (read_body [(''destination'', KString)] r) (\<lambda>(b, raw).
     if \<not> uuid_shape (gstr b ''destination'') then Inl (bad_request ''destination class id is required'') else Inr (gstr b ''destination'', raw))"

definition clone_body :: "request \<Rightarrow> goerr + gstruct \<times> bytes" where
  "clone_body r = ebind (read_body class_fields r) (\<lambda>(b, raw).
     err_or (first_err [required ''code'' (gpstr b ''code'') True, required ''entity'' (gpstr b ''entity'') True]) (b, raw))"

definition clone_answer :: "rctx \<Rightarrow> row \<Rightarrow> response \<Rightarrow> response" where
  "clone_answer x row w = write_json 201 (row_bytes row) (set_etag x row
     (set_header ''Location'' (res_prefix (wr_res classes) @ ''/'' @ gstr (fst (json_unmarshal [(''id'', KString)] (row_bytes row))) ''id'') w))"

definition class_action :: "rctx \<Rightarrow> request \<Rightarrow> answerer" where
  "class_action x r = checked r (id_of r) (\<lambda>i.
     let action = path_value r ''action'' in
     if action = ''copy'' then
       checked r (copy_body r) (\<lambda>(dest, raw).
         do_answer x r 204 raw (on_visible (x_env x) (wr_res classes) i
           (call_unit (x_env x) ''copy_class'' [(''source'', VStr i), (''destination'', VStr dest)])) (\<lambda>_ _. write_header 204))
     else if action = ''clone'' then
       checked r (clone_body r) (\<lambda>(b, raw).
         do_answer x r 201 raw (on_visible (x_env x) (wr_res classes) i (\<lambda>h.
             call_row (x_env x) h ''clone_class'' [(''parent'', VStr i), (''entity'', opt_str (gpstr b ''entity'')), (''code'', opt_str (gpstr b ''code'')),
               (''label'', opt_str (gpstr b ''label'')), (''abstract'', VBool (case gpbool b ''abstract'' of None \<Rightarrow> False | Some a \<Rightarrow> a))]))
           (\<lambda>row _. clone_answer x row))
     else refuse r (EProblem (problem_new 404 ''not-found'' ''Not found'' ''no such action'')))"

definition chmodc :: "env \<Rightarrow> string \<Rightarrow> gstruct \<Rightarrow> unit handler" where
  "chmodc env i b = call_unit env ''chmodc'' [(''class'', VStr i), (''mask'', VInt (gint b ''mask'')), (''userid'', VStr (gstr b ''userid'')),
     (''recursive'', VBool (case gpbool b ''recursive'' of None \<Rightarrow> True | Some v \<Rightarrow> v)),
     (''objectset'', VBool (case gpbool b ''objectset'' of None \<Rightarrow> False | Some v \<Rightarrow> v))]"

definition chmodm :: "env \<Rightarrow> string \<Rightarrow> gstruct \<Rightarrow> unit handler" where
  "chmodm env i b = call_unit env ''chmodm'' [(''method'', VStr i), (''mask'', VInt (gint b ''mask'')), (''userid'', VStr (gstr b ''userid''))]"

definition class_access :: "env \<Rightarrow> access" where
  "class_access env = \<lparr>ac_resource = wr_res classes, ac_list = ''api.class_access'', ac_decode = ''api.decode_class_access'',
     ac_max = mask_bits10, ac_class = True, ac_set = chmodc env\<rparr>"

definition method_access :: "env \<Rightarrow> access" where
  "method_access env = \<lparr>ac_resource = wr_res methods, ac_list = ''api.method_access'', ac_decode = ''api.decode_method_access'',
     ac_max = mask_bits6, ac_class = False, ac_set = chmodm env\<rparr>"

definition workflow_prefixes :: "string list" where
  "workflow_prefixes = [''/api/v2/entities'', ''/api/v2/types'', ''/api/v2/classes'', ''/api/v2/states'', ''/api/v2/state-types'', ''/api/v2/actions'',
     ''/api/v2/methods'', ''/api/v2/transitions'', ''/api/v2/events'', ''/api/v2/event-types'', ''/api/v2/priorities'']"

definition workflow_routes :: "rctx \<Rightarrow> int \<Rightarrow> int \<Rightarrow> idempotency option \<Rightarrow> route list" where
  "workflow_routes x t1 t2 idem =
     concat (map (\<lambda>ro. [(''GET'', res_prefix ro, list_handler x ro), (''GET'', res_prefix ro @ ''/{id}'', get_handler x ro)]) read_only) @
     [(''GET'', ''/api/v2/state-types'', call_rows_handler x ''list_state_type'' [(''limit'', VInt 0)]),
      (''GET'', ''/api/v2/state-types/{id}'', get_handler x state_types),
      (''GET'', ''/api/v2/event-types'', rows_handler x ''SELECT row_to_json(t) FROM api.event_type t'' []),
      (''GET'', ''/api/v2/event-types/{id}'', get_handler x event_types)] @
     concat (map (writable_routes x t1 t2 idem) [types, classes, states, methods, transitions, events]) @
     [(''POST'', ''/api/v2/classes/{id}/actions/{action}'', class_action x)] @
     access_routes x (class_access (x_env x)) @ access_routes x (method_access (x_env x))"

section \<open>Errors, resources, the request journal\<close>

definition err_code_re :: "string \<Rightarrow> bool" where
  "err_code_re s \<longleftrightarrow> length s = 11 \<and> take 4 s = ''ERR-'' \<and> list_all is_digit (take 3 (drop 4 s)) \<and> s ! 7 = CHR ''-'' \<and> list_all is_digit (drop 8 s)"

definition error_validate :: "bool \<Rightarrow> gstruct \<Rightarrow> goerr option" where
  "error_validate create b = first_err [required ''code'' (gpstr b ''code'') create,
     (case gpstr b ''code'' of Some c \<Rightarrow> if \<not> err_code_re c then Some (bad_request ''code must be ERR-GGG-CCC'') else None | None \<Rightarrow> None),
     (if create \<and> gpint b ''http_code'' = None then Some (bad_request ''http_code is required'') else None)]"

definition error_body :: body where
  "error_body = \<lparr>bd_fields = [(''code'', KPString), (''http_code'', KPInt), (''severity'', KPString), (''category'', KPString), (''message'', KPString),
       (''description'', KPString), (''resolution'', KPString)],
     bd_validate = error_validate,
     bd_args = (\<lambda>b i. [(''id'', i), (''code'', opt_str (gpstr b ''code'')), (''httpcode'', opt_int (gpint b ''http_code'')),
       (''severity'', opt_str (gpstr b ''severity'')), (''category'', opt_str (gpstr b ''category'')), (''message'', opt_str (gpstr b ''message'')),
       (''description'', opt_str (gpstr b ''description'')), (''resolution'', opt_str (gpstr b ''resolution''))])\<rparr>"

definition errors :: writable where
  "errors = (plain_writable ''/api/v2/errors'' ''error'' error_body)\<lparr>wr_delete := []\<rparr>"

definition by_code_args :: "request \<Rightarrow> goerr + args" where
  "by_code_args r = (let c = path_value r ''code'' in
     if \<not> err_code_re c then Inl (bad_request ''code must be ERR-GGG-CCC'') else Inr [(''code'', VStr c)])"

definition error_routes :: "rctx \<Rightarrow> int \<Rightarrow> int \<Rightarrow> idempotency option \<Rightarrow> route list" where
  "error_routes x t1 t2 idem = writable_routes x t1 t2 idem errors @
     [(''GET'', ''/api/v2/errors/by-code/{code}'', call_row_handler x ''get_error_by_code'' by_code_args)]"

definition resource_body :: body where
  "resource_body = \<lparr>bd_fields = [(''root'', KPString), (''node'', KPString), (''type'', KPString), (''name'', KPString), (''description'', KPString),
       (''encoding'', KPString), (''data'', KPString), (''sequence'', KPInt), (''locale_code'', KPString)],
     bd_validate = (\<lambda>create b. required ''name'' (gpstr b ''name'') create),
     bd_args = (\<lambda>b i. [(''id'', i), (''root'', opt_str (gpstr b ''root'')), (''node'', opt_str (gpstr b ''node'')), (''type'', opt_str (gpstr b ''type'')),
       (''name'', opt_str (gpstr b ''name'')), (''description'', opt_str (gpstr b ''description'')), (''encoding'', opt_str (gpstr b ''encoding'')),
       (''data'', opt_str (gpstr b ''data'')), (''sequence'', opt_int (gpint b ''sequence''))]
       @ (case gpstr b ''locale_code'' of None \<Rightarrow> [] | Some l \<Rightarrow> [(''localecode'', VStr l)]))\<rparr>"

definition resources :: writable where
  "resources = plain_writable ''/api/v2/resources'' ''resource'' resource_body"

definition int_res :: "string \<Rightarrow> string \<Rightarrow> resource" where
  "int_res prefx name = (catalogue_res prefx name)\<lparr>res_int_id := True\<rparr>"

definition api_log :: resource where
  "api_log = int_res ''/api/v2/api-log'' ''log''"

definition api_routes :: "rctx \<Rightarrow> route list" where
  "api_routes x = [(''GET'', ''/api/v2/api-log'', list_handler x api_log), (''GET'', ''/api/v2/api-log/{id}'', get_handler x api_log)]"

section \<open>The event log\<close>

definition event_log :: resource where
  "event_log = int_res ''/api/v2/event-log'' ''event_log''"

definition my_log :: resource where
  "my_log = int_res ''/api/v2/me/event-log'' ''user_log''"

definition log_entry :: "request \<Rightarrow> goerr + gstruct \<times> bytes" where
  "log_entry r = ebind (read_body [(''type'', KString), (''code'', KPInt), (''scope'', KPString), (''text'', KString)] r) (\<lambda>(e, raw).
     if gstr e ''type'' \<notin> {''M'', ''W'', ''E'', ''D''} then Inl (bad_request ''type must be one of M, W, E, D'')
     else if gstr e ''text'' = [] then Inl (bad_request ''text is required'') else Inr (e, raw))"

definition log_answer :: "row \<Rightarrow> response \<Rightarrow> response" where
  "log_answer row w = (let i = gint (fst (json_unmarshal [(''id'', KInt)] (row_bytes row))) ''id'' in
     write_json 201 (row_bytes row) (if i > 0 then set_header ''Location'' (res_prefix event_log @ ''/'' @ show_int i) w else w))"

definition log_run :: "rctx \<Rightarrow> request \<Rightarrow> gstruct \<Rightarrow> bytes \<Rightarrow> answerer" where
  "log_run x r e raw = do_answer x r 201 raw (\<lambda>h. call_row (x_env x) h ''write_to_log'' [(''type'', VStr (gstr e ''type'')), (''code'', opt_int (gpint e ''code'')),
     (''scope'', opt_str (gpstr e ''scope'')), (''text'', VStr (gstr e ''text''))]) (\<lambda>row _. log_answer row)"

definition log_write :: "rctx \<Rightarrow> int \<Rightarrow> int \<Rightarrow> idempotency option \<Rightarrow> request \<Rightarrow> response \<Rightarrow> pst \<Rightarrow> response \<times> pst \<times> idempotency option" where
  "log_write x t1 t2 idem r w s = (case log_entry r of
       Inl e \<Rightarrow> (fail r e w, s, idem)
     | Inr (e, raw) \<Rightarrow> once (x_hash x) t1 t2 r idem (s_code (x_sess x)) raw (log_run x r e raw) w s)"

text \<open>The answer of an operation apart from what it leaves in the store.\<close>

definition forget_store :: "(response \<Rightarrow> pst \<Rightarrow> response \<times> pst \<times> idempotency option) \<Rightarrow> answerer" where
  "forget_store f w s = (case f w s of (w', s', _) \<Rightarrow> (w', s'))"

definition log_routes :: "rctx \<Rightarrow> int \<Rightarrow> int \<Rightarrow> idempotency option \<Rightarrow> route list" where
  "log_routes x t1 t2 idem =
     concat (map (\<lambda>res. [(''GET'', res_prefix res, list_handler x res), (''GET'', res_prefix res @ ''/{id}'', get_handler x res)]) [event_log, my_log]) @
     [(''POST'', res_prefix event_log, \<lambda>r. forget_store (log_write x t1 t2 idem r))]"

section \<open>Verification codes\<close>

definition codes :: resource where
  "codes = catalogue_res ''/api/v2/verification/codes'' ''verification_code''"

definition kind_of :: "string \<Rightarrow> string option" where
  "kind_of t = (if t = ''email'' then Some ''M'' else if t = ''phone'' then Some ''P'' else None)"

definition verification_read :: "request \<Rightarrow> bool \<Rightarrow> goerr + (string \<times> string option) \<times> bytes" where
  "verification_read r need_code = ebind (read_body [(''type'', KString), (''code'', KPString)] r) (\<lambda>(b, raw).
     case kind_of (gstr b ''type'') of
       None \<Rightarrow> Inl (bad_request ''type must be email or phone'')
     | Some kind \<Rightarrow>
       if gpstr b ''code'' = Some [] \<or> (need_code \<and> gpstr b ''code'' = None) then Inl (bad_request ''code is required'')
       else Inr ((kind, gpstr b ''code''), raw))"

definition verification_run :: "rctx \<Rightarrow> request \<Rightarrow> string \<Rightarrow> string option \<Rightarrow> bytes \<Rightarrow> answerer" where
  "verification_run x r kind code raw =
     do_answer x r 201 raw (\<lambda>h. call_row (x_env x) h ''new_verification_code'' [(''type'', VStr kind), (''code'', opt_str code)])
       (\<lambda>row _ w. let loc = location_of codes row in
          write_json 201 (row_bytes row) (set_etag x row (if loc \<noteq> [] then set_header ''Location'' loc w else w)))"

definition verification_create :: "rctx \<Rightarrow> int \<Rightarrow> int \<Rightarrow> idempotency option \<Rightarrow> request \<Rightarrow> response \<Rightarrow> pst \<Rightarrow> response \<times> pst \<times> idempotency option" where
  "verification_create x t1 t2 idem r w s = (case verification_read r False of
       Inl e \<Rightarrow> (fail r e w, s, idem)
     | Inr ((kind, code), raw) \<Rightarrow> once (x_hash x) t1 t2 r idem (s_code (x_sess x)) raw (verification_run x r kind code raw) w s)"

definition confirm_fn :: "env \<Rightarrow> string \<Rightarrow> string \<Rightarrow> unit handler" where
  "confirm_fn env kind code h =
     hbind (call_row env h ''confirm_verification_code'' [(''type'', VStr kind), (''code'', VStr code)]) (\<lambda>row.
       case json_unmarshal [(''result'', KBool), (''message'', KPString)] (row_bytes row) of
         (_, Some e) \<Rightarrow> hfail (EText (jerr_text e))
       | (g, None) \<Rightarrow>
         if gpbool g ''result'' = Some True then hret ()
         else hfail (EProblem (problem_new 400 ''verification'' ''Bad request''
                (if gstr g ''message'' \<noteq> [] then gstr g ''message'' else ''the code is not valid''))))"

definition confirm :: "rctx \<Rightarrow> request \<Rightarrow> answerer" where
  "confirm x r = checked r (verification_read r True) (\<lambda>((kind, code), raw).
     do_answer x r 200 raw (confirm_fn (x_env x) kind (case code of None \<Rightarrow> [] | Some c \<Rightarrow> c))
       (\<lambda>_ _. write_json 200 (json_print (JObj [(''confirmed'', JBool True)]))))"

definition verification_routes :: "rctx \<Rightarrow> int \<Rightarrow> int \<Rightarrow> idempotency option \<Rightarrow> route list" where
  "verification_routes x t1 t2 idem =
     [(''GET'', res_prefix codes, list_handler x codes), (''GET'', res_prefix codes @ ''/{id}'', get_handler x codes),
      (''POST'', res_prefix codes, \<lambda>r. forget_store (verification_create x t1 t2 idem r)),
      (''POST'', res_prefix codes @ ''/confirm'', confirm x)]"

section \<open>The handlers keep the contract\<close>

lemma workflow_grants: "grant_ok (class_access env)" "grant_ok (method_access env)"
  unfolding grant_ok_def class_access_def method_access_def chmodc_def chmodm_def by (auto intro!: plains)

lemma wired_class_action [wires]: "wired (class_action x r)"
  unfolding class_action_def Let_def
  by (auto intro!: wires plains simp: says_status_def clone_answer_def split: prod.splits)

lemma workflow_routes_wired: "routes_wired (workflow_routes x t1 t2 idem)"
  by (simp add: workflow_routes_def routes_wired_concat writable_routes_wired access_routes_wired workflow_grants wires)

lemma wired_log_run: "wired (log_run x r e raw)"
  unfolding log_run_def by (auto intro!: wires plains simp: says_status_def log_answer_def Let_def)

lemma wired_forget [wires]:
  assumes "\<And>a b. wired (go a b)"
  shows "wired (forget_store (\<lambda>w s. case c of Inl e \<Rightarrow> (fail r e w, s, idem)
     | Inr (a, raw) \<Rightarrow> once hash t1 t2 r idem user raw (go a raw) w s))"
proof -
  have "wired (checked r c (\<lambda>(a, raw). once_answer hash t1 t2 r idem user raw (go a raw)))"
    using assms by (auto intro!: wires split: prod.splits)
  moreover have "forget_store (\<lambda>w s. case c of Inl e \<Rightarrow> (fail r e w, s, idem)
      | Inr (a, raw) \<Rightarrow> once hash t1 t2 r idem user raw (go a raw) w s)
    = checked r c (\<lambda>(a, raw). once_answer hash t1 t2 r idem user raw (go a raw))"
    by (rule ext)+ (auto simp: forget_store_def checked_def refuse_def once_answer_def split: sum.splits)
  ultimately show ?thesis by simp
qed

lemma wired_log_write [wires]: "wired (forget_store (log_write x t1 t2 idem r))"
  unfolding log_write_def by (rule wired_forget) (rule wired_log_run)

lemma wired_verification_run: "wired (verification_run x r kind code raw)"
  unfolding verification_run_def by (auto intro!: wires plains simp: says_status_def Let_def)

lemma wired_verification_create [wires]: "wired (forget_store (verification_create x t1 t2 idem r))"
proof -
  have "wired (forget_store (\<lambda>w s. case verification_read r False of Inl e \<Rightarrow> (fail r e w, s, idem)
      | Inr (a, raw) \<Rightarrow> once (x_hash x) t1 t2 r idem (s_code (x_sess x)) raw (case a of (kind, code) \<Rightarrow> verification_run x r kind code raw) w s))"
    by (rule wired_forget) (auto simp: wired_verification_run split: prod.splits)
  moreover have "verification_create x t1 t2 idem r = (\<lambda>w s. case verification_read r False of Inl e \<Rightarrow> (fail r e w, s, idem)
      | Inr (a, raw) \<Rightarrow> once (x_hash x) t1 t2 r idem (s_code (x_sess x)) raw (case a of (kind, code) \<Rightarrow> verification_run x r kind code raw) w s)"
    by (rule ext)+ (auto simp: verification_create_def split: sum.splits)
  ultimately show ?thesis by simp
qed

lemma plain_confirm [plains]: "plain_step h (confirm_fn env kind code h)"
  unfolding confirm_fn_def by (intro plains) (auto intro!: plains split: prod.splits option.splits)

lemma wired_confirm [wires]: "wired (confirm x r)"
  unfolding confirm_def by (auto intro!: wires plains split: prod.splits)

lemma catalogue_routes_wired: "routes_wired (error_routes x t1 t2 idem)" "routes_wired (api_routes x)" "routes_wired (log_routes x t1 t2 idem)"
    "routes_wired (verification_routes x t1 t2 idem)"
  by (simp_all add: error_routes_def api_routes_def log_routes_def verification_routes_def routes_wired_concat writable_routes_wired wires)

text \<open>A PATCH of a class that does not name \<open>abstract\<close> writes \<open>abstract = true\<close> all the same, so a PATCH of the label of a
  class that has objects makes the class abstract.\<close>

lemma class_patch_sets_abstract:
  assumes "gpbool b ''abstract'' = None"
  shows "map_of (bd_args (wr_body classes) b i) ''abstract'' = Some (VBool True)"
  using assms by (simp add: classes_def plain_writable_def class_body_def class_args_def)

end
