(* ===== verification/Services.thy ===== *)
theory Services
  imports Catalogues
begin

text \<open>
  The packages \<open>registry\<close>, \<open>current\<close> (\<open>/api/v2/me\<close>), \<open>notification\<close>, \<open>observer\<close> and \<open>kladr\<close>. A \<open>time.Time\<close> that is sent to the
  database is the text of its RFC 3339 form. What \<open>float64\<close> makes of a JSON number is the parameter \<open>flt\<close>: \<open>None\<close> when the
  number is out of range, otherwise the integer it is when it is one (of 64 bits) and its shortest decimal text.
\<close>

section \<open>Times\<close>

definition show2 :: "nat \<Rightarrow> string" where
  "show2 n = [digit_char (n div 10), digit_char (n mod 10)]"

definition strip_zeros :: "string \<Rightarrow> string" where
  "strip_zeros s = rev (dropWhile (\<lambda>c. c = CHR ''0'') (rev s))"

definition fraction_text :: "string \<Rightarrow> string" where
  "fraction_text s = (case s of a # r \<Rightarrow> if a \<in> {CHR ''.'', CHR '',''}
       then (let d = strip_zeros (take 9 (takeWhile is_digit r)) in if d = [] then [] else CHR ''.'' # d) else [] | [] \<Rightarrow> [])"

definition offset_text :: "string \<Rightarrow> string" where
  "offset_text s = (case s of a # r \<Rightarrow>
       (case (two r, two (drop 3 r)) of
          (Some (h, _), Some (m, _)) \<Rightarrow> (let t = 60 * h + m in if t = 0 then ''Z'' else a # show2 (t div 60) @ '':'' @ show2 (t mod 60))
        | _ \<Rightarrow> ''Z'')
     | [] \<Rightarrow> ''Z'')"

text \<open>\<open>Format(time.RFC3339Nano)\<close> of what \<open>time.Parse(time.RFC3339, \<dots>)\<close> read.\<close>

definition time_text :: "string \<Rightarrow> string" where
  "time_text s = (case one_or_two (drop 11 s) of None \<Rightarrow> s
     | Some (h, r) \<Rightarrow> take 11 s @ show2 h @ take 6 r @ fraction_text (drop 6 r) @ offset_text (skip_fraction (drop 6 r)))"

definition time_param :: "request \<Rightarrow> string \<Rightarrow> goerr + string option" where
  "time_param r name = (let v = url_get (rquery r) name in
     if v = [] then Inr None
     else if \<not> parse_rfc3339 v then Inl (bad_request (name @ '' must be an RFC 3339 timestamp'')) else Inr (Some (time_text v)))"

section \<open>Registry\<close>

definition uuid_param :: "url_values \<Rightarrow> string \<Rightarrow> goerr + string option" where
  "uuid_param q name = (let v = url_get q name in
     if v = [] then Inr None else if \<not> uuid_shape v then Inl (bad_request (name @ '' must be a UUID'')) else Inr (Some v))"

definition text_param :: "url_values \<Rightarrow> string \<Rightarrow> string option" where
  "text_param q name = (let v = url_get q name in if v \<noteq> [] then Some v else None)"

fun uuid_params :: "url_values \<Rightarrow> string list \<Rightarrow> goerr + args" where
  "uuid_params q [] = Inr []"
| "uuid_params q (n # ns) = ebind (uuid_param q n) (\<lambda>v. ebind (uuid_params q ns) (\<lambda>a. Inr ((n, opt_str v) # a)))"

definition registry_list :: "rctx \<Rightarrow> request \<Rightarrow> answerer" where
  "registry_list x r = checked r (uuid_params (rquery r) [''id'', ''key'', ''subkey'']) (\<lambda>a.
     call_rows_handler x (if url_get (rquery r) ''extended'' = ''true'' then ''api.registry_ex'' else ''api.registry'') a r)"

definition registry_keys :: "rctx \<Rightarrow> request \<Rightarrow> answerer" where
  "registry_keys x r = checked r (uuid_params (rquery r) [''id'', ''root'', ''parent'']) (\<lambda>a.
     call_rows_handler x ''registry_key'' (a @ [(''key'', opt_str (text_param (rquery r) ''key''))]) r)"

definition dec_pstr :: "json \<Rightarrow> string option option" where
  "dec_pstr j = (case j of JStr t \<Rightarrow> Some (Some (unquote t)) | JNull \<Rightarrow> Some None | _ \<Rightarrow> None)"

definition key_path_fn :: "env \<Rightarrow> string \<Rightarrow> string option handler" where
  "key_path_fn env i h = hbind (call_scalar env h ''registry_get_reg_key'' [(''key'', VStr i)] dec_pstr) (\<lambda>p. hret (case p of None \<Rightarrow> None | Some v \<Rightarrow> v))"

definition key_path :: "rctx \<Rightarrow> request \<Rightarrow> answerer" where
  "key_path x r = checked r (id_of r) (\<lambda>i. do_answer x r 200 [] (key_path_fn (x_env x) i)
     (\<lambda>p _ w. case p of None \<Rightarrow> fail r not_found w
        | Some t \<Rightarrow> write_json 200 (json_print (json_map [(''id'', jstr i), (''path'', jstr t)])) w))"

definition key_ref :: "url_values \<Rightarrow> goerr + args" where
  "key_ref q = (let k = url_get q ''key'' in
     if k = [] then Inl (bad_request ''key is required (CURRENT_CONFIG or CURRENT_USER)'')
     else Inr [(''key'', VStr k), (''subkey'', opt_str (text_param q ''subkey''))])"

definition enum_keys :: "rctx \<Rightarrow> request \<Rightarrow> answerer" where
  "enum_keys x r = checked r (key_ref (rquery r)) (\<lambda>a. call_rows_handler x ''registry_enum_key'' a r)"

definition enum_values :: "rctx \<Rightarrow> request \<Rightarrow> answerer" where
  "enum_values x r = checked r (key_ref (rquery r)) (\<lambda>a.
     call_rows_handler x (if url_get (rquery r) ''extended'' = ''true'' then ''api.registry_enum_value_ex'' else ''api.registry_enum_value'') a r)"

definition key_and_name :: "url_values \<Rightarrow> goerr + args" where
  "key_and_name q = ebind (key_ref q) (\<lambda>a. if url_get q ''name'' = [] then Inl (bad_request ''name is required'')
     else Inr (a @ [(''valuename'', VStr (url_get q ''name''))]))"

definition registry_read :: "rctx \<Rightarrow> request \<Rightarrow> answerer" where
  "registry_read x r = checked r (key_and_name (rquery r)) (\<lambda>a.
     do_answer x r 200 [] (\<lambda>h. call_row (x_env x) h ''registry_read'' a) (\<lambda>row _. write_json 200 (row_bytes row)))"

definition value_fields :: "(string \<times> jkind) list" where
  "value_fields = [(''id'', KPString), (''key'', KPString), (''subkey'', KPString), (''name'', KString), (''type'', KString), (''value'', KRaw)]"

definition variant_types :: "(string \<times> int \<times> string) list" where
  "variant_types = [(''integer'', 0, ''integer''), (''numeric'', 1, ''numeric''), (''datetime'', 2, ''timestamp''), (''string'', 3, ''text''), (''boolean'', 4, ''boolean'')]"

type_synonym float_of = "string \<Rightarrow> (int option \<times> string) option"

definition typed :: "float_of \<Rightarrow> string \<Rightarrow> json option \<Rightarrow> goerr + aval" where
  "typed flt t v =
     (case v of
        None \<Rightarrow> Inl (bad_request ''value is required'')
      | Some JNull \<Rightarrow> Inl (bad_request ''value is required'')
      | Some (JNum n) \<Rightarrow>
          (case flt n of None \<Rightarrow> Inl (bad_request ''value is required'')
           | Some (i, txt) \<Rightarrow>
             if t = ''integer'' then (case i of Some k \<Rightarrow> Inr (VInt k) | None \<Rightarrow> Inl (bad_request ''value must be an integer''))
             else if t = ''numeric'' then Inr (VStr txt)
             else if t = ''boolean'' then Inl (bad_request ''value must be a boolean'') else Inl (bad_request ''value must be a string''))
      | Some (JStr s) \<Rightarrow>
          if t = ''integer'' then Inl (bad_request ''value must be an integer'')
          else if t = ''boolean'' then Inl (bad_request ''value must be a boolean'') else Inr (VStr (unquote s))
      | Some j \<Rightarrow>
          if t = ''integer'' then Inl (bad_request ''value must be an integer'')
          else if t = ''numeric'' then Inl (bad_request ''value must be a number'')
          else if t = ''boolean'' then (case j of JBool b \<Rightarrow> Inr (VBool b) | _ \<Rightarrow> Inl (bad_request ''value must be a boolean''))
          else Inl (bad_request ''value must be a string''))"

definition value_check :: "gstruct \<Rightarrow> goerr option" where
  "value_check b =
     (if gstr b ''name'' = [] then Some (bad_request ''name is required'')
      else if gpstr b ''id'' = None \<and> gpstr b ''key'' \<in> {None, Some []} then Some (bad_request ''id of the key, or key and subkey, is required'')
      else if (case gpstr b ''id'' of Some i \<Rightarrow> \<not> uuid_shape i | None \<Rightarrow> False) then Some (bad_request ''id must be a UUID'')
      else if map_of variant_types (gstr b ''type'') = None then Some (bad_request ''type must be one of integer, numeric, datetime, string, boolean'')
      else None)"

definition dec_str :: "json \<Rightarrow> string option" where
  "dec_str j = (case j of JStr t \<Rightarrow> Some (unquote t) | JNull \<Rightarrow> Some [] | _ \<Rightarrow> None)"

definition write_args :: "gstruct \<Rightarrow> aval \<Rightarrow> args" where
  "write_args b v = (case map_of variant_types (gstr b ''type'') of None \<Rightarrow> [] | Some (code, sql) \<Rightarrow>
     [(''id'', opt_str (gpstr b ''id'')), (''key'', opt_str (gpstr b ''key'')), (''subkey'', opt_str (gpstr b ''subkey'')),
      (''valuename'', VStr (gstr b ''name'')), (''type'', VInt code), (''data'', VTyped v sql)])"

definition registry_write :: "float_of \<Rightarrow> rctx \<Rightarrow> request \<Rightarrow> answerer" where
  "registry_write flt x r = checked r (read_body value_fields r) (\<lambda>(b, raw). checked r (err_or (value_check b) ()) (\<lambda>_.
     checked r (typed flt (gstr b ''type'') (graw b ''value'')) (\<lambda>v.
       do_answer x r 200 raw (\<lambda>h. call_scalar (x_env x) h ''registry_write'' (write_args b v) dec_str)
         (\<lambda>i _. write_json 200 (json_print (json_map [(''id'', jstr (case i of None \<Rightarrow> [] | Some t \<Rightarrow> t)),
            (''name'', jstr (gstr b ''name'')), (''type'', jstr (gstr b ''type''))]))))))"

definition registry_exec :: "rctx \<Rightarrow> request \<Rightarrow> string \<Rightarrow> args \<Rightarrow> answerer" where
  "registry_exec x r fn a = do_answer x r 204 [] (call_unit (x_env x) fn a) (\<lambda>_ _. write_header 204)"

definition delete_value_by_id :: "rctx \<Rightarrow> request \<Rightarrow> answerer" where
  "delete_value_by_id x r = checked r (id_of r) (\<lambda>i.
     registry_exec x r ''registry_delete_value'' [(''id'', VStr i), (''key'', VNil), (''subkey'', VNil), (''valuename'', VNil)])"

definition delete_value :: "rctx \<Rightarrow> request \<Rightarrow> answerer" where
  "delete_value x r = checked r (key_and_name (rquery r)) (\<lambda>a. registry_exec x r ''registry_delete_value'' ((''id'', VNil) # a))"

definition delete_key :: "rctx \<Rightarrow> request \<Rightarrow> answerer" where
  "delete_key x r = checked r (key_ref (rquery r)) (registry_exec x r ''registry_delete_key'')"

definition delete_tree :: "rctx \<Rightarrow> request \<Rightarrow> answerer" where
  "delete_tree x r = checked r (key_ref (rquery r)) (registry_exec x r ''registry_delete_tree'')"

definition registry_routes :: "float_of \<Rightarrow> rctx \<Rightarrow> route list" where
  "registry_routes flt x = (let p = ''/api/v2/registry'' in
     [(''GET'', p, registry_list x), (''GET'', p @ ''/keys'', registry_keys x), (''GET'', p @ ''/keys/{id}/path'', key_path x),
      (''GET'', p @ ''/keys/enum'', enum_keys x), (''GET'', p @ ''/values'', enum_values x), (''GET'', p @ ''/values/read'', registry_read x),
      (''PUT'', p @ ''/values'', registry_write flt x), (''DELETE'', p @ ''/values/{id}'', delete_value_by_id x),
      (''DELETE'', p @ ''/values'', delete_value x), (''DELETE'', p @ ''/keys'', delete_key x), (''DELETE'', p @ ''/tree'', delete_tree x)])"

section \<open>The session's own data: /api/v2/me\<close>

text \<open>One part of the object: the row, or null where there is none. \<open>json.Marshal\<close> refuses a row that is no JSON text.\<close>

definition me_part :: "env \<Rightarrow> string \<Rightarrow> row handler" where
  "me_part env k h = htry (call_row env h (''current_'' @ k) []) (\<lambda>res. case res of
       Inl e \<Rightarrow> if is_no_row e then hret None else hfail e
     | Inr row \<Rightarrow> hret row)"

fun me_parts :: "env \<Rightarrow> string list \<Rightarrow> (string \<times> row) list handler" where
  "me_parts env [] h = hret []"
| "me_parts env (k # ks) h = hbind (me_part env k h) (\<lambda>row. hbind (me_parts env ks h) (\<lambda>rest. hret ((k, row) # rest)))"

definition read_me :: "env \<Rightarrow> bytes handler" where
  "read_me env h =
     hbind (me_parts env [''user'', ''area'', ''interface'', ''locale''] h) (\<lambda>parts.
     hbind (call_row env h ''oper_date'' []) (\<lambda>od.
       (let out = parts @ [(''oper_date'', od)] in
        case rows_json (map snd out) of
          None \<Rightarrow> hfail (EText ''json: error calling MarshalJSON for type json.RawMessage'')
        | Some js \<Rightarrow> hret (json_print (json_map (zip (map fst out) js))))))"

definition session_call :: "string \<Rightarrow> string \<Rightarrow> string \<times> args" where
  "session_call name v =
     (if name = ''locale'' \<and> uuid_shape v then (''set_session_locale'', [(''locale'', VStr v)])
      else if name = ''locale'' then (''set_session_locale'', [(''code'', VStr v)])
      else if name = ''area'' \<and> \<not> uuid_shape v then (''set_session_area_by_code'', [(''code'', VStr v)])
      else (''set_session_'' @ name, [(name, VStr v)]))"

definition me_get :: "rctx \<Rightarrow> request \<Rightarrow> answerer" where
  "me_get x r = do_answer x r 200 [] (read_me (x_env x)) (\<lambda>b _. write_json 200 b)"

definition me_fields :: "(string \<times> jkind) list" where
  "me_fields = [(''area'', KPString), (''interface'', KPString), (''locale'', KPString), (''oper_date'', KRaw)]"

fun me_field_check :: "(string \<times> string option) list \<Rightarrow> goerr option" where
  "me_field_check [] = None"
| "me_field_check ((name, v) # fs) =
     (if v = Some [] then Some (bad_request (name @ '' must not be empty''))
      else if name = ''interface'' \<and> (case v of Some s \<Rightarrow> \<not> uuid_shape s | None \<Rightarrow> False) then Some (bad_request ''interface must be a UUID'')
      else me_field_check fs)"

text \<open>What the body sets: the three fields in the order they run, and the operation date: \<open>None\<close> when the key \<open>oper_date\<close> is absent,
  \<open>Some None\<close> to clear it.\<close>

definition me_check :: "request \<Rightarrow> goerr + ((string \<times> string option) list \<times> string option option) \<times> bytes" where
  "me_check r = ebind (read_body me_fields r) (\<lambda>(b, raw).
     if raw = [] then Inl (bad_request ''a JSON body is required'')
     else (let fs = map (\<lambda>n. (n, gpstr b n)) [''area'', ''interface'', ''locale''];
               has = (case json_object raw of None \<Rightarrow> False | Some m \<Rightarrow> map_of m ''oper_date'' \<noteq> None) in
       ebind (err_or (me_field_check fs) ()) (\<lambda>_.
       ebind (if \<not> has then Inr None
              else (case graw b ''oper_date'' of
                  Some JNull \<Rightarrow> Inr (Some None)
                | Some (JStr t) \<Rightarrow> if parse_rfc3339 t then Inr (Some (Some (time_text t))) else Inl (bad_request ''oper_date must be an RFC 3339 timestamp or null'')
                | _ \<Rightarrow> Inl (bad_request ''oper_date must be an RFC 3339 timestamp or null''))) (\<lambda>od.
       if list_all (\<lambda>f. snd f = None) fs \<and> od = None then Inl (bad_request ''nothing to set: one of area, interface, locale, oper_date'')
       else Inr ((fs, od), raw)))))"

fun me_set :: "env \<Rightarrow> (string \<times> string option) list \<Rightarrow> unit handler" where
  "me_set env [] h = hret ()"
| "me_set env ((name, v) # fs) h = (case v of None \<Rightarrow> me_set env fs h
     | Some s \<Rightarrow> hbind (call env h (fst (session_call name s)) (snd (session_call name s))) (\<lambda>_. me_set env fs h))"

definition me_patch_fn :: "env \<Rightarrow> (string \<times> string option) list \<Rightarrow> string option option \<Rightarrow> bytes handler" where
  "me_patch_fn env fs od h =
     hbind (me_set env fs h) (\<lambda>_.
     hbind (case od of None \<Rightarrow> hret ()
       | Some d \<Rightarrow> call_unit env ''set_session_oper_date'' [(''operdate'', VTyped (opt_str d) ''timestamptz'')] h) (\<lambda>_.
     read_me env h))"

definition me_patch :: "rctx \<Rightarrow> request \<Rightarrow> answerer" where
  "me_patch x r = checked r (me_check r) (\<lambda>((fs, od), raw). do_answer x r 200 raw (me_patch_fn (x_env x) fs od) (\<lambda>b _. write_json 200 b))"

definition me_routes :: "rctx \<Rightarrow> route list" where
  "me_routes x = [(''GET'', ''/api/v2/me'', me_get x), (''PATCH'', ''/api/v2/me'', me_patch x)]"

section \<open>Notifications\<close>

definition notifications :: resource where
  "notifications = catalogue_res ''/api/v2/notifications'' ''my_notification''"

definition max_objects :: nat where
  "max_objects = 100"

definition ident_re :: "string \<Rightarrow> bool" where
  "ident_re s = (case s of [] \<Rightarrow> False | c # cs \<Rightarrow> is_lower c \<and> list_all (\<lambda>a. is_lower a \<or> is_digit a \<or> a = CHR ''_'') cs)"

definition get_fn_of :: "string \<Rightarrow> string option" where
  "get_fn_of code = (if \<not> ident_re code then None else Some (''api.get_'' @ code))"

definition since_args :: "string \<Rightarrow> request \<Rightarrow> goerr + args" where
  "since_args now r = ebind (time_param r ''from'') (\<lambda>from. Inr [(''datefrom'', VStr (case from of None \<Rightarrow> now | Some t \<Rightarrow> t))])"

definition changed_search :: "string list \<Rightarrow> string option \<Rightarrow> string option \<Rightarrow> bytes" where
  "changed_search objs from until = json_print (JArr (
     [json_map [(''field'', jstr ''object''), (''valarr'', JArr (map jstr objs)), (''compare'', jstr ''IN'')]]
     @ (case from of None \<Rightarrow> [] | Some t \<Rightarrow> [json_map [(''field'', jstr ''datetime''), (''compare'', jstr ''GEQ''), (''value'', jstr t)]])
     @ (case until of None \<Rightarrow> [] | Some t \<Rightarrow> [json_map [(''field'', jstr ''datetime''), (''compare'', jstr ''LSS''), (''value'', jstr t)]])))"

definition readable :: "row \<Rightarrow> bool" where
  "readable row = (case json_unmarshal [(''id'', KPString)] (row_bytes row) of (g, None) \<Rightarrow> gpstr g ''id'' \<noteq> None | (_, Some _) \<Rightarrow> False)"

fun changed_rows :: "env \<Rightarrow> (string \<times> string) list \<Rightarrow> row list \<Rightarrow> row list handler" where
  "changed_rows env seen [] h = hret []"
| "changed_rows env seen (n # ns) h =
     (case json_unmarshal [(''entitycode'', KString), (''object'', KString)] (row_bytes n) of
        (_, Some e) \<Rightarrow> hfail (EText (jerr_text e))
      | (g, None) \<Rightarrow>
        (let p = (gstr g ''entitycode'', gstr g ''object'') in
         if p \<in> set seen then changed_rows env seen ns h
         else (case get_fn_of (fst p) of
             None \<Rightarrow> changed_rows env (p # seen) ns h
           | Some fn \<Rightarrow>
             hbind (call env h fn [(''id'', VStr (snd p))]) (\<lambda>rows.
             hbind (changed_rows env (p # seen) ns h) (\<lambda>rest.
             hret (case find readable rows of None \<Rightarrow> rest | Some row \<Rightarrow> row # rest))))))"

definition changed_check :: "request \<Rightarrow> goerr + bytes" where
  "changed_check r =
     (let objs = comma_list (url_get (rquery r) ''objects'') in
      if \<not> list_all uuid_shape objs then Inl (bad_request ''objects must be a comma-separated list of UUIDs'')
      else if objs = [] \<or> length objs > max_objects then Inl (bad_request ''objects: 1 to 100 UUIDs are required'')
      else ebind (time_param r ''from'') (\<lambda>from. ebind (time_param r ''to'') (\<lambda>until. Inr (changed_search objs from until))))"

definition changed :: "rctx \<Rightarrow> request \<Rightarrow> answerer" where
  "changed x r = checked r (changed_check r) (\<lambda>srch.
     do_answer x r 200 [] (\<lambda>h. hbind (call (x_env x) h ''list_my_notification'' [(''search'', VRaw srch)]) (\<lambda>notes. changed_rows (x_env x) [] notes h))
       (\<lambda>rows _. write_json 200 (marshal_rows rows)))"

definition notification_routes :: "string \<Rightarrow> rctx \<Rightarrow> route list" where
  "notification_routes now x = (let p = res_prefix notifications in
     [(''GET'', p, list_handler x notifications), (''GET'', p @ ''/{id}'', get_handler x notifications),
      (''GET'', p @ ''/since'', call_rows_of x ''my_notification'' (since_args now)), (''GET'', p @ ''/changed'', changed x)])"

section \<open>Observer\<close>

definition code_of :: "request \<Rightarrow> string \<Rightarrow> goerr + string" where
  "code_of r name = (let v = path_value r name in if \<not> ident_re v then Inl (bad_request (name @ '' must be a code'')) else Inr v)"

definition listener_keys :: "string list" where
  "listener_keys = [''publisher'', ''identity'', ''filter'', ''params'']"

definition listener_of :: "row \<Rightarrow> goerr + row" where
  "listener_of row = (case json_unmarshal (map (\<lambda>k. (k, KRaw)) listener_keys) (row_bytes row) of
       (_, Some e) \<Rightarrow> Inl (EText (jerr_text e))
     | (g, None) \<Rightarrow> Inr (Some (json_print (json_map (map (\<lambda>k. (k, case graw g k of None \<Rightarrow> JNull | Some v \<Rightarrow> v)) listener_keys)))))"

fun listeners_of :: "row list \<Rightarrow> goerr + row list" where
  "listeners_of [] = Inr []"
| "listeners_of (row # rows) = ebind (listener_of row) (\<lambda>l. ebind (listeners_of rows) (\<lambda>ls. Inr (l # ls)))"

definition listeners :: "rctx \<Rightarrow> request \<Rightarrow> answerer" where
  "listeners x r = do_answer x r 200 [] (\<lambda>h. call (x_env x) h ''list_my_listener'' [])
     (\<lambda>rows _ w. case listeners_of rows of Inl e \<Rightarrow> fail r e w | Inr ls \<Rightarrow> write_json 200 (marshal_rows ls) w)"

definition listener_args :: "request \<Rightarrow> goerr + args" where
  "listener_args r = ebind (code_of r ''publisher'') (\<lambda>p. ebind (code_of r ''identity'') (\<lambda>i. Inr [(''publisher'', VStr p), (''identity'', VStr i)]))"

definition listener_read :: "env \<Rightarrow> args \<Rightarrow> row handler" where
  "listener_read env a h = hbind (call_row env h ''get_my_listener'' a) (\<lambda>row. case listener_of row of Inl e \<Rightarrow> hfail e | Inr l \<Rightarrow> hret l)"

definition observer_routes :: "rctx \<Rightarrow> route list" where
  "observer_routes x = (let p = ''/api/v2/observer'' in
     [(''GET'', p @ ''/publishers'', call_rows_handler x ''list_publisher'' [(''orderby'', order_code), (''limit'', VInt 0)]),
      (''GET'', p @ ''/publishers/{code}'', call_row_handler x ''get_publisher'' (\<lambda>r. ebind (code_of r ''code'') (\<lambda>c. Inr [(''code'', VStr c)]))),
      (''GET'', p @ ''/listeners'', listeners x),
      (''GET'', p @ ''/listeners/{publisher}/{identity}'', row_func x listener_args (listener_read (x_env x)))])"

section \<open>The address classifier\<close>

definition nodes :: resource where
  "nodes = \<lparr>res_prefix = ''/api/v2/kladr'', res_get = [], res_list = ''api.list_address_tree'', res_count = ''api.count_address_tree'', res_int_id = True\<rparr>"

definition kladr_code_re :: "string \<Rightarrow> bool" where
  "kladr_code_re s \<longleftrightarrow> 1 \<le> length s \<and> length s \<le> 20 \<and> list_all is_digit s"

definition kladr_id :: "request \<Rightarrow> goerr + args" where
  "kladr_id r = ebind (int_id_of r) (\<lambda>i. if i > 2147483647 then Inl (bad_request ''id is out of range'') else Inr [(''id'', VInt i)])"

text \<open>\<open>ParseInt(v, 10, 31)\<close>.\<close>

definition int_param :: "request \<Rightarrow> string \<Rightarrow> goerr + int" where
  "int_param r name = (let v = url_get (rquery r) name in
     if v = [] then Inr 0
     else (case parse_int v of
         Some n \<Rightarrow> if n < 0 \<or> n \<ge> 2 ^ 30 then Inl (bad_request (name @ '' must be a non-negative integer'')) else Inr n
       | None \<Rightarrow> Inl (bad_request (name @ '' must be a non-negative integer''))))"

definition string_args :: "request \<Rightarrow> goerr + args" where
  "string_args r = (let code = url_get (rquery r) ''code'' in
     if \<not> kladr_code_re code then Inl (bad_request ''code must be a KLADR code'')
     else ebind (int_param r ''short'') (\<lambda>sh. ebind (int_param r ''level'') (\<lambda>lv. Inr [(''code'', VStr code), (''short'', VInt sh), (''level'', VInt lv)])))"

definition address_read :: "env \<Rightarrow> args \<Rightarrow> row handler" where
  "address_read env a h = hbind (call_scalar env h ''get_address_tree_string'' a dec_pstr) (\<lambda>s.
     hret (Some (json_print (json_map [(''address'', opt_json (case s of None \<Rightarrow> None | Some v \<Rightarrow> v))]))))"

definition kladr_routes :: "rctx \<Rightarrow> route list" where
  "kladr_routes x = (let p = res_prefix nodes in
     [(''GET'', p, list_handler x nodes), (''GET'', p @ ''/{id}'', call_row_handler x ''get_address_tree'' kladr_id),
      (''GET'', p @ ''/{id}/history'', call_rows_of x ''get_address_tree_history'' kladr_id),
      (''GET'', p @ ''/string'', row_func x string_args (address_read (x_env x)))])"

section \<open>The handlers keep the contract\<close>

lemma wired_registry [wires]: "wired (registry_list x r)" "wired (registry_keys x r)" "wired (enum_keys x r)" "wired (enum_values x r)"
    "wired (registry_read x r)" "wired (registry_write flt x r)" "wired (delete_value_by_id x r)" "wired (delete_value x r)"
    "wired (delete_key x r)" "wired (delete_tree x r)"
  unfolding registry_list_def registry_keys_def enum_keys_def enum_values_def registry_read_def registry_write_def delete_value_by_id_def
    delete_value_def delete_key_def delete_tree_def registry_exec_def
  by (auto intro!: wires plains split: prod.splits)

lemma plain_me_part [plains]: "plain_step h (me_part env k h)"
  unfolding me_part_def by (intro plains)

lemma plain_me_parts [plains]: "plain_step h (me_parts env ks h)"
  by (induction ks) (auto intro!: plains)

lemma plain_read_me [plains]: "plain_step h (read_me env h)"
  unfolding read_me_def Let_def by (intro plains)

lemma plain_me_set [plains]: "plain_step h (me_set env fs h)"
  by (induction fs) (auto intro!: plains split: option.splits)

lemma me_routes_wired: "routes_wired (me_routes x)"
  unfolding me_routes_def me_get_def me_patch_def me_patch_fn_def by (auto intro!: wires plains split: prod.splits)

lemma plain_changed_rows [plains]: "plain_step h (changed_rows env seen ns h)"
  by (induction ns arbitrary: seen) (auto intro!: plains simp: Let_def split: prod.splits option.splits)

lemma notification_routes_wired: "routes_wired (notification_routes now x)"
  unfolding notification_routes_def Let_def changed_def by (auto intro!: wires plains)

lemma plain_listener_read [plains]: "plain_step h (listener_read env a h)"
  unfolding listener_read_def by (intro plains)

lemma plain_address_read [plains]: "plain_step h (address_read env a h)"
  unfolding address_read_def by (intro plains)

lemma kladr_routes_wired: "routes_wired (kladr_routes x)"
  unfolding kladr_routes_def Let_def by (auto intro!: wires plains)

text \<open>The two handlers that decide after the transaction are not of this kind; every other route of their packages is.\<close>

definition late_decisions :: "string list" where
  "late_decisions = [''/api/v2/registry/keys/{id}/path'', ''/api/v2/observer/listeners'']"

lemma registry_routes_wired: "routes_wired (filter (\<lambda>(m, p, f). p \<notin> set late_decisions) (registry_routes flt x))"
  unfolding registry_routes_def Let_def late_decisions_def by (auto intro!: wires)

lemma observer_routes_wired: "routes_wired (filter (\<lambda>(m, p, f). p \<notin> set late_decisions) (observer_routes x))"
  unfolding observer_routes_def Let_def late_decisions_def by (auto intro!: wires plains)

text \<open>The path of a registry key is answered 404 when the database gives NULL, after the transaction was committed with a
  journal line of status 200: the journal and the wire disagree.\<close>

lemma key_path_journal_disagrees:
  "wstatus (fst (key_path (sample_ctx (ARows [None] None)) (sample_request ''GET'' [] []) fresh_response sample_state)) = Some 404
   \<and> \<not> lines_say 0 404 (snd (key_path (sample_ctx (ARows [None] None)) (sample_request ''GET'' [] []) fresh_response sample_state))"
proof -
  let ?x = "sample_ctx (ARows [None] None)" and ?r = "sample_request ''GET'' [] []"
  let ?d = "do_req ?x ?r 200 [] (key_path_fn (x_env ?x) sample_id) sample_state"
  have d: "fst ?d = Inr None" by code_simp
  have j: "\<not> list_all (says 404) (durable 1 (strace (snd ?d)))" by code_simp
  have i: "id_of ?r = Inr sample_id" by code_simp
  have k: "key_path ?x ?r fresh_response sample_state = (fail ?r not_found fresh_response, snd ?d)"
    using d by (cases ?d) (simp add: key_path_def checked_def i do_answer_def)
  have "\<not> lines_say 0 404 (snd ?d)" using j unfolding lines_say_def by (auto intro!: exI [of _ 1])
  then show ?thesis unfolding k by (simp add: fresh_response_def problem_new_def)
qed

end
