(* ===== verification/Jwt.thy ===== *)
theory Jwt
  imports Json Base64
begin

text \<open>
  \<open>lib/auth/jwt/jwt.go\<close>: the local verification of an access token and its signing. The HMAC of
  \<open>crypto/hmac\<close> with the hash of an algorithm is the parameter \<open>mac alg secret text\<close>; an instant is
  the pair of seconds and nanoseconds Go keeps, seconds counted from year 1 in an \<open>int64\<close>.
\<close>

datatype jwt_error = ErrMalformed | ErrSignature | ErrAudience | ErrIssuer | ErrExpired

record claims =
  c_iss :: string
  c_aud :: string
  c_sub :: string
  c_iat :: int
  c_exp :: int

record jwt_key =
  key_alg :: string
  key_secret :: bytes

record keyring =
  audiences :: "(string \<times> jwt_key) list"
  issuers :: "string list"

type_synonym mac = "string \<Rightarrow> bytes \<Rightarrow> bytes \<Rightarrow> bytes"

text \<open>\<open>time.Unix(sec, 0)\<close> and \<open>Time.Before\<close>.\<close>

type_synonym time = "int \<times> int"

definition unix_to_internal :: int where
  "unix_to_internal = 62135596800"

definition time_unix :: "int \<Rightarrow> time" where
  "time_unix sec = (wrap64 (sec + unix_to_internal), 0)"

definition before :: "time \<Rightarrow> time \<Rightarrow> bool" where
  "before t u \<longleftrightarrow> fst t < fst u \<or> fst t = fst u \<and> snd t < snd u"

definition has_hasher :: "string \<Rightarrow> bool" where
  "has_hasher alg = (if alg = ''HS256'' then True else if alg = ''HS384'' then True else if alg = ''HS512'' then True else False)"

fun contains :: "string list \<Rightarrow> string \<Rightarrow> bool" where
  "contains [] s = False"
| "contains (x # xs) s = (if x = s then True else contains xs s)"

definition claim_fields :: "(string \<times> jkind) list" where
  "claim_fields = [(''iss'', KString), (''aud'', KString), (''sub'', KString), (''iat'', KInt), (''exp'', KInt)]"

definition claims_of :: "gstruct \<Rightarrow> claims" where
  "claims_of g = \<lparr>c_iss = gstr g ''iss'', c_aud = gstr g ''aud'', c_sub = gstr g ''sub'', c_iat = gint g ''iat'', c_exp = gint g ''exp''\<rparr>"

text \<open>The last checks, after the parts were read: the audience, the signature, the issuer, the time.\<close>

definition verify_claims :: "mac \<Rightarrow> keyring \<Rightarrow> time \<Rightarrow> string \<Rightarrow> claims \<Rightarrow> string \<Rightarrow> string \<Rightarrow> string \<Rightarrow> jwt_error + claims" where
  "verify_claims mac k now alg c p0 p1 p2 =
     (case map_of (audiences k) (c_aud c) of
        None \<Rightarrow> Inl ErrAudience
      | Some key \<Rightarrow>
        (if key_alg key \<noteq> alg then Inl ErrSignature
         else (case b64_decode p2 of
             None \<Rightarrow> Inl ErrMalformed
           | Some sig \<Rightarrow>
             (if sig \<noteq> mac (key_alg key) (key_secret key) (p0 @ ''.'' @ p1) then Inl ErrSignature
              else if \<not> contains (issuers k) (c_iss c) then Inl ErrIssuer
              else if c_exp c = 0 \<or> \<not> before now (time_unix (c_exp c)) then Inl ErrExpired
              else Inr c))))"

definition verify :: "mac \<Rightarrow> keyring \<Rightarrow> string \<Rightarrow> time \<Rightarrow> jwt_error + claims" where
  "verify mac k token now =
     (case split_on CHR ''.'' token of
        [p0, p1, p2] \<Rightarrow>
          (case b64_decode p0 of
             None \<Rightarrow> Inl ErrMalformed
           | Some hdr_raw \<Rightarrow>
             (case json_unmarshal [(''alg'', KString)] hdr_raw of (hdr, err) \<Rightarrow>
              (if err \<noteq> None \<or> \<not> has_hasher (gstr hdr ''alg'') then Inl ErrMalformed
               else (case b64_decode p1 of
                   None \<Rightarrow> Inl ErrMalformed
                 | Some body \<Rightarrow>
                   (case json_unmarshal claim_fields body of (g, err2) \<Rightarrow>
                     (if err2 \<noteq> None \<or> c_sub (claims_of g) = [] \<or> c_aud (claims_of g) = [] then Inl ErrMalformed
                      else verify_claims mac k now (gstr hdr ''alg'') (claims_of g) p0 p1 p2))))))
      | _ \<Rightarrow> Inl ErrMalformed)"

section \<open>Signing\<close>

definition claims_json :: "claims \<Rightarrow> json" where
  "claims_json c = JObj ([(''iss'', jstr (c_iss c)), (''aud'', jstr (c_aud c)), (''sub'', jstr (c_sub c))]
     @ (if c_iat c = 0 then [] else [(''iat'', jint (c_iat c))]) @ (if c_exp c = 0 then [] else [(''exp'', jint (c_exp c))]))"

definition sign :: "mac \<Rightarrow> claims \<Rightarrow> string \<Rightarrow> bytes \<Rightarrow> string" where
  "sign mac c alg secret =
     (let hdr = json_print (json_map [(''alg'', jstr alg), (''typ'', jstr ''JWT'')]);
          body = json_print (claims_json c);
          signables = b64_encode hdr @ ''.'' @ b64_encode body
      in signables @ ''.'' @ b64_encode (mac alg secret signables))"

section \<open>What a verified token is\<close>

lemma contains_iff [simp]: "contains xs s \<longleftrightarrow> s \<in> set xs"
  by (induction xs) auto

text \<open>The signature of the token holds under the key of the audience it names.\<close>

definition signed_for :: "mac \<Rightarrow> keyring \<Rightarrow> string \<Rightarrow> claims \<Rightarrow> bool" where
  "signed_for mac k token c \<longleftrightarrow> (\<exists>p0 p1 p2 key. token = p0 @ ''.'' @ p1 @ ''.'' @ p2 \<and> map_of (audiences k) (c_aud c) = Some key
     \<and> has_hasher (key_alg key) \<and> b64_decode p2 = Some (mac (key_alg key) (key_secret key) (p0 @ ''.'' @ p1))
     \<and> (\<exists>body g. b64_decode p1 = Some body \<and> json_unmarshal claim_fields body = (g, None) \<and> c = claims_of g))"

lemma split_three: "split_on c s = [p0, p1, p2] \<Longrightarrow> s = p0 @ [c] @ p1 @ [c] @ p2"
  using join_split [of c s] by simp

lemma verify_cases:
  assumes "verify mac k token now = x" "x = Inr c \<or> x = Inl ErrExpired \<or> x = Inl ErrIssuer"
  shows "\<exists>c'. signed_for mac k token c' \<and> c_sub c' \<noteq> [] \<and> c_aud c' \<noteq> [] \<and>
     (case x of Inr c \<Rightarrow> c = c' \<and> c_iss c \<in> set (issuers k) \<and> c_exp c \<noteq> 0 \<and> before now (time_unix (c_exp c))
      | Inl _ \<Rightarrow> True)"
proof -
  from assms obtain p0 p1 p2 where t: "split_on CHR ''.'' token = [p0, p1, p2]"
    by (auto simp: verify_def split: list.splits)
  from assms t obtain h hdr where h: "b64_decode p0 = Some h" "json_unmarshal [(''alg'', KString)] h = (hdr, None)"
    "has_hasher (gstr hdr ''alg'')"
    by (auto simp: verify_def split: option.splits prod.splits if_splits)
  from assms t h obtain b g where b: "b64_decode p1 = Some b" "json_unmarshal claim_fields b = (g, None)"
    "c_sub (claims_of g) \<noteq> []" "c_aud (claims_of g) \<noteq> []"
    by (auto simp: verify_def split: option.splits prod.splits if_splits)
  from assms(1) t h b have v: "verify_claims mac k now (gstr hdr ''alg'') (claims_of g) p0 p1 p2 = x" by (simp add: verify_def)
  with assms(2) obtain key where "map_of (audiences k) (c_aud (claims_of g)) = Some key" "key_alg key = gstr hdr ''alg''"
    "b64_decode p2 = Some (mac (key_alg key) (key_secret key) (p0 @ ''.'' @ p1))"
    by (auto simp: verify_claims_def split: option.splits if_splits)
  then have "signed_for mac k token (claims_of g)" unfolding signed_for_def
    using split_three [OF t] h b by (metis append_Cons append_Nil)
  moreover from v assms(2) have "case x of Inr c \<Rightarrow> c = claims_of g \<and> c_iss c \<in> set (issuers k) \<and> c_exp c \<noteq> 0 \<and> before now (time_unix (c_exp c))
      | Inl _ \<Rightarrow> True"
    by (auto simp: verify_claims_def split: option.splits if_splits)
  ultimately show ?thesis using b by blast
qed

text \<open>C9: a token \<open>Verify\<close> accepts carries the signature of the key registered for the audience it names, under the
  algorithm registered with that key (the header cannot choose another one), names a session, an allowed issuer and a
  time that is not over.\<close>

theorem verify_sound:
  assumes "verify mac k token now = Inr c"
  shows "signed_for mac k token c \<and> c_sub c \<noteq> [] \<and> c_iss c \<in> set (issuers k) \<and> before now (time_unix (c_exp c))"
  using verify_cases [OF assms, of c] by auto

text \<open>\<open>Verify\<close> says that a token has expired only of a token whose signature holds: the one answer the host tells
  apart from all others discloses nothing to a caller without a key.\<close>

lemma expired_only_signed:
  assumes "verify mac k token now = Inl ErrExpired"
  shows "\<exists>c. signed_for mac k token c"
  using verify_cases [OF assms] by auto

section \<open>Signing and verifying\<close>

definition claims_ok :: "claims \<Rightarrow> bool" where
  "claims_ok c \<longleftrightarrow> ascii (c_iss c) \<and> ascii (c_aud c) \<and> ascii (c_sub c) \<and> int64_ok (c_iat c) \<and> int64_ok (c_exp c)"

lemma name_unquote [simp]: "unquote ''iss'' = ''iss''" "unquote ''aud'' = ''aud''" "unquote ''sub'' = ''sub''"
    "unquote ''iat'' = ''iat''" "unquote ''exp'' = ''exp''" "unquote ''alg'' = ''alg''" "unquote ''typ'' = ''typ''"
  by code_simp+

lemma name_ok: "raw_ok ''iss'' \<and> html_esc ''iss'' = ''iss''" "raw_ok ''aud'' \<and> html_esc ''aud'' = ''aud''"
    "raw_ok ''sub'' \<and> html_esc ''sub'' = ''sub''" "raw_ok ''iat'' \<and> html_esc ''iat'' = ''iat''"
    "raw_ok ''exp'' \<and> html_esc ''exp'' = ''exp''" "raw_ok ''alg'' \<and> html_esc ''alg'' = ''alg''" "raw_ok ''typ'' \<and> html_esc ''typ'' = ''typ''"
  by code_simp+

lemma decode_jstr [simp]: "ascii t \<Longrightarrow> decode_field KString cur (jstr t) = Some (Some (GStr t))"
  by (simp add: jstr_def unquote_quote)

lemma decode_jint [simp]: "int64_ok i \<Longrightarrow> decode_field KInt cur (jint i) = Some (Some (GInt i))"
  by (simp add: jint_def parse_int_show_int)

lemma claims_roundtrip:
  assumes "claims_ok c"
  shows "\<exists>g. json_unmarshal claim_fields (json_print (claims_json c)) = (g, None) \<and> claims_of g = c"
proof -
  have ok: "json_ok (claims_json c)" "jdepth (claims_json c) \<le> max_nesting"
    using assms name_ok by (simp_all add: claims_json_def claims_ok_def max_nesting_def)
  have f: "field_for claim_fields ''iss'' = Some (''iss'', KString)" "field_for claim_fields ''aud'' = Some (''aud'', KString)"
    "field_for claim_fields ''sub'' = Some (''sub'', KString)" "field_for claim_fields ''iat'' = Some (''iat'', KInt)"
    "field_for claim_fields ''exp'' = Some (''exp'', KInt)" by (simp_all add: field_for_def claim_fields_def)
  show ?thesis using assms unfolding json_unmarshal_def json_parse_print [OF ok]
    by (cases c) (auto simp: claims_json_def decode_struct_def claims_ok_def f claims_of_def gstr_def gint_def)
qed

lemma header_roundtrip:
  assumes "has_hasher alg"
  shows "\<exists>g. json_unmarshal [(''alg'', KString)] (json_print (json_map [(''alg'', jstr alg), (''typ'', jstr ''JWT'')])) = (g, None)
     \<and> gstr g ''alg'' = alg"
proof -
  have a: "ascii alg" "ascii ''JWT''" using assms by (auto simp: has_hasher_def ord_of_def split: if_splits)
  have q: "quote ''alg'' = ''alg''" "quote ''typ'' = ''typ''" by code_simp+
  have le: "''alg'' \<le> ''typ''" by code_simp
  have m: "json_map [(''alg'', jstr alg), (''typ'', jstr ''JWT'')] = JObj [(''alg'', jstr alg), (''typ'', jstr ''JWT'')]"
    using le by (simp add: json_map_def q)
  have ok: "json_ok (JObj [(''alg'', jstr alg), (''typ'', jstr ''JWT'')])" "jdepth (JObj [(''alg'', jstr alg), (''typ'', jstr ''JWT'')]) \<le> max_nesting"
    using a name_ok by (simp_all add: max_nesting_def)
  have f: "field_for [(''alg'', KString)] ''alg'' = Some (''alg'', KString)" "field_for [(''alg'', KString)] ''typ'' = None"
    by code_simp+
  show ?thesis unfolding m json_unmarshal_def json_parse_print [OF ok]
    using a by (simp add: decode_struct_def f gstr_def)
qed

lemma sign_verified:
  assumes "claims_ok c" "c_sub c \<noteq> []" "c_aud c \<noteq> []" "has_hasher (key_alg key)" "map_of (audiences k) (c_aud c) = Some key"
    and "c_iss c \<in> set (issuers k)" "c_exp c \<noteq> 0" "before now (time_unix (c_exp c))"
  shows "verify mac k (sign mac c (key_alg key) (key_secret key)) now = Inr c"
proof -
  define h where "h = b64_encode (json_print (json_map [(''alg'', jstr (key_alg key)), (''typ'', jstr ''JWT'')]))"
  define b where "b = b64_encode (json_print (claims_json c))"
  define m where "m = b64_encode (mac (key_alg key) (key_secret key) (h @ ''.'' @ b))"
  have "sign mac c (key_alg key) (key_secret key) = h @ CHR ''.'' # b @ CHR ''.'' # m"
    by (simp add: sign_def Let_def h_def b_def m_def)
  then have "split_on CHR ''.'' (sign mac c (key_alg key) (key_secret key)) = [h, b, m]"
    using b64_encode_nodot by (simp add: split_on_append split_on_nosep h_def b_def m_def)
  moreover obtain gh where "json_unmarshal [(''alg'', KString)] (json_print (json_map [(''alg'', jstr (key_alg key)), (''typ'', jstr ''JWT'')])) = (gh, None)"
    "gstr gh ''alg'' = key_alg key" using header_roundtrip [OF assms(4)] by blast
  moreover obtain g where "json_unmarshal claim_fields (json_print (claims_json c)) = (g, None)" "claims_of g = c"
    using claims_roundtrip [OF assms(1)] by blast
  ultimately show ?thesis using assms(2-8)
    by (simp add: verify_def h_def b_def verify_claims_def m_def)
qed

text \<open>C12: a token signed for a registered audience verifies, with exactly the claims it was signed with, as long as its
  issuer is allowed and its time is not over.\<close>

theorem sign_verify:
  assumes "claims_ok c" "c_sub c \<noteq> []" "c_aud c \<noteq> []" "has_hasher (key_alg key)" "map_of (audiences k) (c_aud c) = Some key"
    and "c_iss c \<in> set (issuers k)" "c_exp c \<noteq> 0" "before now (time_unix (c_exp c))"
  shows "verify mac k (sign mac c (key_alg key) (key_secret key)) now = Inr c"
  by (rule sign_verified [OF assms])

text \<open>A token of a toy authentication code, for the examples.\<close>

definition sample_mac :: mac where
  "sample_mac alg secret text = alg @ secret @ show_nat (length text)"

definition sample_keyring :: keyring where
  "sample_keyring = \<lparr>audiences = [(''web'', \<lparr>key_alg = ''HS256'', key_secret = ''s''\<rparr>)], issuers = [''accounts'']\<rparr>"

definition sample_claims :: claims where
  "sample_claims = \<lparr>c_iss = ''accounts'', c_aud = ''web'', c_sub = ''code'', c_iat = 0, c_exp = 100\<rparr>"

theorem sign_verify_witness:
  "verify sample_mac sample_keyring (sign sample_mac sample_claims ''HS256'' ''s'') (time_unix 50) = Inr sample_claims"
proof -
  have "claims_ok sample_claims" "has_hasher ''HS256''" "before (time_unix 50) (time_unix (c_exp sample_claims))"
    by (simp_all add: claims_ok_def sample_claims_def int64_ok_def has_hasher_def before_def time_unix_def wrap64_def unix_to_internal_def ord_of_def)
  with sign_verify [of sample_claims "\<lparr>key_alg = ''HS256'', key_secret = ''s''\<rparr>" sample_keyring "time_unix 50" sample_mac]
  show ?thesis by (simp add: sample_claims_def sample_keyring_def)
qed

theorem verify_sound_witness:
  "verify sample_mac sample_keyring (sign sample_mac sample_claims ''HS256'' ''s'') (time_unix 50) = Inr sample_claims
   \<and> signed_for sample_mac sample_keyring (sign sample_mac sample_claims ''HS256'' ''s'') sample_claims"
proof -
  have v: "verify sample_mac sample_keyring (sign sample_mac sample_claims ''HS256'' ''s'') (time_unix 50) = Inr sample_claims"
    by code_simp
  with verify_sound [OF v] show ?thesis by blast
qed

end
