(* ===== verification/Mux.thy ===== *)
theory Mux
  imports Access
begin

text \<open>
  The routing of \<open>net/http\<close> as \<open>src/module.go\<close> uses it: \<open>path.Clean\<close> on rooted paths, and \<open>ServeMux\<close> for the patterns of this
  repository, a method and a path of literal segments and one-segment wildcards. The mux splits the escaped path, unescapes each
  segment, tries a literal child before the wildcard and serves HEAD where GET is registered. Patterns that end in a slash, hosts
  and redirects do not occur: a path the mux would redirect is not canonical and is refused before it.
\<close>

section \<open>Canonical paths\<close>

text \<open>\<open>path.Clean\<close> of a rooted path, segment by segment; the segments kept so far are in reverse.\<close>

fun clean_segs :: "string list \<Rightarrow> string list \<Rightarrow> string list" where
  "clean_segs kept [] = rev kept"
| "clean_segs kept (s # ss) = (if s = [] \<or> s = ''.'' then clean_segs kept ss
     else if s = ''..'' then clean_segs (drop 1 kept) ss
     else clean_segs (s # kept) ss)"

definition path_clean :: "string \<Rightarrow> string" where
  "path_clean p = CHR ''/'' # join ''/'' (clean_segs [] (split_on CHR ''/'' p))"

definition canonical :: "string \<Rightarrow> bool" where
  "canonical p = (if p = [] \<or> hd p \<noteq> CHR ''/'' then False
     else let c = path_clean p; c' = (if has_suffix p ''/'' \<and> \<not> has_suffix c ''/'' then c @ ''/'' else c) in c' = p)"

section \<open>Segments\<close>

fun unescape :: "string \<Rightarrow> string option" where
  "unescape [] = Some []"
| "unescape (c # cs) = (if c \<noteq> CHR ''%'' then (case unescape cs of None \<Rightarrow> None | Some t \<Rightarrow> Some (c # t))
     else (case cs of a # b # ds \<Rightarrow> if is_hex a \<and> is_hex b
             then (case unescape ds of None \<Rightarrow> None | Some t \<Rightarrow> Some (char_of (16 * hex_val a + hex_val b) # t)) else None
           | _ \<Rightarrow> None))"

definition path_unescape :: "string \<Rightarrow> string" where
  "path_unescape s = (case unescape s of None \<Rightarrow> s | Some t \<Rightarrow> t)"

definition segments :: "string \<Rightarrow> string list" where
  "segments p = map path_unescape (split_on CHR ''/'' (drop 1 p))"

definition wild :: "string \<Rightarrow> bool" where
  "wild s \<longleftrightarrow> has_prefix s ''{'' \<and> has_suffix s ''}''"

definition wild_names :: "string \<Rightarrow> string list" where
  "wild_names p = map (\<lambda>s. butlast (tl s)) (filter wild (split_on CHR ''/'' (drop 1 p)))"

section \<open>Matching\<close>

text \<open>\<open>routingNode.matchPath\<close> on the set of patterns below a node: what is left of each pattern, and what it leads to.\<close>

type_synonym 'h node = "(string list \<times> 'h) list"

definition children :: "string \<Rightarrow> 'h node \<Rightarrow> 'h node" where
  "children s n = map (\<lambda>(ps, h). (tl ps, h)) (filter (\<lambda>(ps, h). ps \<noteq> [] \<and> \<not> wild (hd ps) \<and> hd ps = s) n)"

definition wild_children :: "'h node \<Rightarrow> 'h node" where
  "wild_children n = map (\<lambda>(ps, h). (tl ps, h)) (filter (\<lambda>(ps, h). ps \<noteq> [] \<and> wild (hd ps)) n)"

fun match_path :: "'h node \<Rightarrow> string list \<Rightarrow> ('h \<times> string list) option" where
  "match_path n [] = (case filter (\<lambda>(ps, h). ps = []) n of [] \<Rightarrow> None | (_, h) # _ \<Rightarrow> Some (h, []))"
| "match_path n (s # ss) = (case match_path (children s n) ss of Some m \<Rightarrow> Some m
     | None \<Rightarrow> if s = [] then None
         else (case match_path (wild_children n) ss of None \<Rightarrow> None | Some (h, vs) \<Rightarrow> Some (h, s # vs)))"

definition node_of :: "string \<Rightarrow> route list \<Rightarrow> route node" where
  "node_of m rs = map (\<lambda>(m', p, f). (split_on CHR ''/'' (drop 1 p), (m', p, f))) (filter (\<lambda>(m', p, f). m' = m) rs)"

text \<open>The pattern found, its handler and the values of its wildcards.\<close>

definition mux_find :: "route list \<Rightarrow> string \<Rightarrow> string \<Rightarrow> (route \<times> (string \<times> string) list) option" where
  "mux_find rs m path =
     (let named = (\<lambda>((m', p, f), vs). ((m', p, f), zip (wild_names p) vs)) in
      case match_path (node_of m rs) (segments path) of Some x \<Rightarrow> Some (named x)
      | None \<Rightarrow> if m = ''HEAD'' then map_option named (match_path (node_of ''GET'' rs) (segments path)) else None)"

section \<open>Facts\<close>

text \<open>A pattern fits a path segment by segment; what a wildcard stands for is not empty.\<close>

definition fits :: "string list \<Rightarrow> string list \<Rightarrow> bool" where
  "fits ps ss \<longleftrightarrow> list_all2 (\<lambda>p s. if wild p then s \<noteq> [] else p = s) ps ss"

definition fit_values :: "string list \<Rightarrow> string list \<Rightarrow> string list" where
  "fit_values ps ss = map snd (filter (\<lambda>(p, s). wild p) (zip ps ss))"

lemma match_path_sound: "match_path n ss = Some (h, vs) \<Longrightarrow> \<exists>ps. (ps, h) \<in> set n \<and> fits ps ss \<and> vs = fit_values ps ss"
proof (induction n ss arbitrary: vs rule: match_path.induct)
  case (1 n)
  then have "([], h) \<in> set n" "vs = []" by (auto split: list.splits dest!: filter_eq_ConsD)
  then show ?case by (auto simp: fits_def fit_values_def)
next
  case (2 n s ss)
  show ?case
  proof (cases "match_path (children s n) ss")
    case (Some m)
    with 2 obtain ps where "(ps, h) \<in> set (children s n)" "fits ps ss" "vs = fit_values ps ss" by auto
    then obtain p where "(p # ps, h) \<in> set n" "\<not> wild p" "p = s" by (auto simp: children_def neq_Nil_conv)
    with \<open>fits ps ss\<close> \<open>vs = _\<close> show ?thesis by (intro exI [of _ "p # ps"]) (auto simp: fits_def fit_values_def)
  next
    case None
    with 2(3) obtain ws where "s \<noteq> []" "match_path (wild_children n) ss = Some (h, ws)" "vs = s # ws"
      by (auto split: if_splits option.splits)
    with 2(2) None obtain ps where "(ps, h) \<in> set (wild_children n)" "fits ps ss" "ws = fit_values ps ss" by blast
    then obtain p where "(p # ps, h) \<in> set n" "wild p" by (auto simp: wild_children_def neq_Nil_conv)
    with \<open>fits ps ss\<close> \<open>ws = _\<close> \<open>vs = _\<close> \<open>s \<noteq> []\<close> show ?thesis by (intro exI [of _ "p # ps"]) (auto simp: fits_def fit_values_def)
  qed
qed

lemma match_path_complete: "(ps, h) \<in> set n \<Longrightarrow> fits ps ss \<Longrightarrow> match_path n ss \<noteq> None"
proof (induction n ss arbitrary: ps rule: match_path.induct)
  case (1 n)
  then have "([], h) \<in> set n" by (simp add: fits_def)
  then have "filter (\<lambda>(ps, h). ps = []) n \<noteq> []" by (auto simp: filter_empty_conv)
  then show ?case by (auto split: list.splits)
next
  case (2 n s ss)
  from 2(4) obtain p qs where ps: "ps = p # qs" "if wild p then s \<noteq> [] else p = s" "fits qs ss"
    by (auto simp: fits_def list_all2_Cons2)
  show ?case
  proof (cases "wild p")
    case True
    with 2(3) ps have "(qs, h) \<in> set (wild_children n)" by (force simp: wild_children_def)
    with 2(2) ps True show ?thesis by (cases "match_path (children s n) ss") (auto split: option.splits)
  next
    case False
    with 2(3) ps have "(qs, h) \<in> set (children s n)" by (force simp: children_def)
    with 2(1) ps(3) have "match_path (children s n) ss \<noteq> None" by blast
    then show ?thesis by auto
  qed
qed

lemma mux_find_sound:
  assumes "mux_find rs m path = Some ((m', p, f), vs)"
  shows "(m', p, f) \<in> set rs \<and> (m' = m \<or> m' = ''GET'' \<and> m = ''HEAD'')
     \<and> fits (split_on CHR ''/'' (drop 1 p)) (segments path)
     \<and> vs = zip (wild_names p) (fit_values (split_on CHR ''/'' (drop 1 p)) (segments path))"
  using assms by (auto simp: mux_find_def node_of_def Let_def dest!: match_path_sound split: option.splits if_splits prod.splits)

lemma mux_find_none:
  assumes "mux_find rs m path = None" "(m', p, f) \<in> set rs" "m' = m \<or> m' = ''GET'' \<and> m = ''HEAD''"
  shows "\<not> fits (split_on CHR ''/'' (drop 1 p)) (segments path)"
proof
  assume c: "fits (split_on CHR ''/'' (drop 1 p)) (segments path)"
  have "match_path (node_of m' rs) (segments path) \<noteq> None"
    by (rule match_path_complete [OF _ c]) (use assms(2) in \<open>force simp: node_of_def\<close>)
  with assms(1,3) show False by (auto simp: mux_find_def Let_def split: option.splits if_splits)
qed

section \<open>What a canonical path is\<close>

definition proper :: "string \<Rightarrow> bool" where
  "proper s \<longleftrightarrow> s \<noteq> [] \<and> s \<noteq> ''.'' \<and> s \<noteq> ''..'' \<and> CHR ''/'' \<notin> set s"

lemma clean_segs_proper: "\<forall>s\<in>set kept. proper s \<Longrightarrow> \<forall>s\<in>set ss. CHR ''/'' \<notin> set s \<Longrightarrow> \<forall>s\<in>set (clean_segs kept ss). proper s"
proof (induction kept ss rule: clean_segs.induct)
  case (2 kept s ss)
  have "\<forall>t\<in>set (drop 1 kept). proper t" using 2(4) by (auto dest: in_set_dropD)
  note dots = this
  have free: "\<forall>t\<in>set ss. CHR ''/'' \<notin> set t" and "CHR ''/'' \<notin> set s" using 2(5) by simp_all
  then have keep: "\<forall>t\<in>set (s # kept). proper t" if "\<not> (s = [] \<or> s = ''.'')" "s \<noteq> ''..''"
    using that 2(4) \<open>CHR ''/'' \<notin> set s\<close> by (simp only: proper_def set_simps insert_iff ball_simps) blast
  show ?case unfolding clean_segs.simps using 2(1) [OF _ 2(4) free] 2(2) [OF _ _ dots free] 2(3) [OF _ _ keep free] by (simp only: if_True if_False split: if_split) blast
qed simp

lemma clean_segs_id: "\<forall>s\<in>set ss. proper s \<Longrightarrow> clean_segs kept (ss @ ts) = clean_segs (rev ss @ kept) ts"
proof (induction ss arbitrary: kept)
  case (Cons s ss)
  from Cons(2) have "s \<noteq> []" "s \<noteq> ''.''" "s \<noteq> ''..''" "\<forall>s\<in>set ss. proper s" by (simp_all add: proper_def)
  with Cons(1) [of "s # kept"] show ?case by simp
qed simp

lemma split_join: "xs \<noteq> [] \<Longrightarrow> \<forall>x\<in>set xs. c \<notin> set x \<Longrightarrow> split_on c (join [c] xs) = xs"
proof (induction "[c]" xs rule: join.induct)
  case (3 x y ys)
  then show ?case by (simp add: split_on_append)
qed (auto simp: split_on_nosep)

lemma join_snoc: "join [c] (xs @ [[]]) = (if xs = [] then [] else join [c] xs @ [c])"
  by (induction "[c]" xs rule: join.induct) auto

lemma join_last: "xs \<noteq> [] \<Longrightarrow> \<forall>x\<in>set xs. proper x \<Longrightarrow> join ''/'' xs \<noteq> [] \<and> last (join ''/'' xs) \<noteq> CHR ''/''"
proof (induction "''/''" xs rule: join.induct)
  case (2 x)
  then show ?case by (auto simp: proper_def dest: last_in_set)
next
  case (3 x y ys)
  then show ?case by simp
qed simp

lemma suffix_slash: "has_suffix s ''/'' \<longleftrightarrow> s \<noteq> [] \<and> last s = CHR ''/''"
  by (cases s rule: rev_cases) (auto simp: has_suffix_def)

lemma canonical_rooted:
  assumes "ss = split_on CHR ''/'' q"
  shows "canonical (CHR ''/'' # q) \<longleftrightarrow> (\<exists>xs. list_all proper xs \<and> (ss = xs \<or> ss = xs @ [[]]))"
proof -
  have q: "q = join ''/'' ss" and free: "\<forall>s\<in>set ss. CHR ''/'' \<notin> set s"
    using assms split_on_set [of _ "CHR ''/''" q] by (auto simp: join_split)
  define xs where "xs = clean_segs [] ss"
  have xs: "\<forall>s\<in>set xs. proper s" unfolding xs_def by (rule clean_segs_proper) (use free in auto)
  let ?c = "CHR ''/'' # join ''/'' xs"
  have c: "path_clean (CHR ''/'' # q) = ?c" by (simp add: path_clean_def xs_def assms)
  have s: "has_suffix ?c ''/'' \<longleftrightarrow> xs = []" using join_last [of xs] xs by (auto simp: suffix_slash)
  have k: "canonical (CHR ''/'' # q) \<longleftrightarrow> (if has_suffix (CHR ''/'' # q) ''/'' \<and> xs \<noteq> [] then join ''/'' xs @ ''/'' = q else join ''/'' xs = q)"
    by (simp add: canonical_def Let_def c s)
  have ne: "ss \<noteq> []" using assms by simp
  show ?thesis
  proof
    assume "canonical (CHR ''/'' # q)"
    then have "q = join ''/'' xs \<or> xs \<noteq> [] \<and> q = join ''/'' (xs @ [[]])" using k by (auto simp: join_snoc split: if_splits)
    then consider "xs = []" "q = []" | "xs \<noteq> []" "ss = xs" | "ss = xs @ [[]]"
    proof (elim disjE)
      assume "q = join ''/'' xs"
      then show ?thesis using that(1,2) split_join [of xs "CHR ''/''"] xs unfolding assms by (cases "xs = []") (simp_all add: proper_def)
    next
      assume "xs \<noteq> [] \<and> q = join ''/'' (xs @ [[]])"
      then show ?thesis using that(3) split_join [of "xs @ [[]]" "CHR ''/''"] xs unfolding assms by (simp add: proper_def)
    qed
    then show "\<exists>xs. list_all proper xs \<and> (ss = xs \<or> ss = xs @ [[]])"
    proof cases
      case 1
      then show ?thesis by (intro exI [of _ "[]"]) (simp add: assms)
    qed (use xs in \<open>auto simp: list_all_iff\<close>)
  next
    assume "\<exists>xs. list_all proper xs \<and> (ss = xs \<or> ss = xs @ [[]])"
    then obtain ys where ys: "\<forall>y\<in>set ys. proper y" "ss = ys \<or> ss = ys @ [[]]" by (auto simp: list_all_iff)
    then have "xs = ys" using clean_segs_id [of ys "[]" "[]"] clean_segs_id [of ys "[]" "[[]]"] by (auto simp: xs_def)
    from ys(2) show "canonical (CHR ''/'' # q)"
    proof
      assume ss: "ss = ys"
      then have "ys \<noteq> []" "q = join ''/'' ys" using ne q by simp_all
      with join_last [OF _ ys(1)] \<open>xs = ys\<close> show ?thesis unfolding k by (simp add: suffix_slash)
    next
      assume "ss = ys @ [[]]"
      then have "q = (if ys = [] then [] else join ''/'' ys @ ''/'')" using q by (simp add: join_snoc)
      with \<open>xs = ys\<close> show ?thesis unfolding k by (simp add: suffix_slash)
    qed
  qed
qed

text \<open>A path is canonical exactly when it is rooted and its segments are neither empty nor \<open>.\<close> nor \<open>..\<close>, a slash at the end
  apart: what is refused as not found is what the mux would have redirected.\<close>

lemma canonical_iff:
  "canonical p \<longleftrightarrow> (\<exists>xs. list_all proper xs \<and> (p = CHR ''/'' # join ''/'' xs \<or> p = CHR ''/'' # join ''/'' (xs @ [[]])))"
proof (cases p)
  case (Cons a q)
  show ?thesis
  proof (cases "a = CHR ''/''")
    case True
    have "(split_on CHR ''/'' q = xs \<or> split_on CHR ''/'' q = xs @ [[]]) \<longleftrightarrow> (xs \<noteq> [] \<and> q = join ''/'' xs \<or> q = join ''/'' (xs @ [[]]))"
      if xs: "list_all proper xs" for xs
    proof -
      have f: "\<forall>x\<in>set xs. CHR ''/'' \<notin> set x" using xs by (simp add: list_all_iff proper_def)
      then have "split_on CHR ''/'' q = xs \<longleftrightarrow> xs \<noteq> [] \<and> q = join ''/'' xs"
        using split_join [of xs "CHR ''/''"] join_split [of "CHR ''/''" q] split_on_ne [of "CHR ''/''" q] by metis
      moreover have "split_on CHR ''/'' (join ''/'' (xs @ [[]])) = xs @ [[]]" by (rule split_join) (use f in auto)
      then have "split_on CHR ''/'' q = xs @ [[]] \<longleftrightarrow> q = join ''/'' (xs @ [[]])"
        using join_split [of "CHR ''/''" q] by metis
      ultimately show ?thesis by simp
    qed
    then have "canonical (CHR ''/'' # q) \<longleftrightarrow> (\<exists>xs. list_all proper xs \<and> (xs \<noteq> [] \<and> q = join ''/'' xs \<or> q = join ''/'' (xs @ [[]])))"
      unfolding canonical_rooted [OF refl, of q] by blast
    also have "\<dots> \<longleftrightarrow> (\<exists>xs. list_all proper xs \<and> (q = join ''/'' xs \<or> q = join ''/'' (xs @ [[]])))"
    proof (intro iffI; elim exE conjE disjE)
      fix xs assume "list_all proper xs" "q = join ''/'' xs"
      then show "\<exists>xs. list_all proper xs \<and> (xs \<noteq> [] \<and> q = join ''/'' xs \<or> q = join ''/'' (xs @ [[]]))"
        by (cases "xs = []") (auto intro: exI [of _ "[]"])
    qed blast+
    finally show ?thesis unfolding Cons True by simp
  qed (auto simp: canonical_def Cons)
qed (auto simp: canonical_def)

end
