(* ===== verification/Steps.thy ===== *)
theory Steps
  imports Main
begin

text \<open>
  Step systems: reachable states, invariants, and systems that come to rest. The concurrent parts of the gateway client
  (\<open>Load\<close>, \<open>Status\<close>), concurrent requests of one idempotency key (\<open>Idem_Race\<close>) and the double of the gateway (\<open>Stub\<close>) interpret the locales on their
  own steps.
\<close>

definition reach :: "('s \<Rightarrow> bool) \<Rightarrow> ('s \<Rightarrow> 's \<Rightarrow> bool) \<Rightarrow> 's \<Rightarrow> bool" where
  "reach start step s \<longleftrightarrow> (\<exists>s0. start s0 \<and> step\<^sup>*\<^sup>* s0 s)"

lemma reach_start: "start s \<Longrightarrow> reach start step s"
  by (auto simp: reach_def)

lemma reach_run: "reach start step s \<Longrightarrow> step\<^sup>*\<^sup>* s s' \<Longrightarrow> reach start step s'"
  by (auto simp: reach_def intro: rtranclp_trans)

text \<open>A property that holds at the start and is kept by every step.\<close>

locale invariant =
  fixes start :: "'s \<Rightarrow> bool" and step :: "'s \<Rightarrow> 's \<Rightarrow> bool" and inv :: "'s \<Rightarrow> bool"
  assumes starts: "start s \<Longrightarrow> inv s"
    and keeps: "step s s' \<Longrightarrow> inv s \<Longrightarrow> inv s'"
begin

lemma run_inv: "step\<^sup>*\<^sup>* s s' \<Longrightarrow> inv s \<Longrightarrow> inv s'"
  by (induction rule: rtranclp_induct) (auto intro: keeps)

lemma reach_inv: "reach start step s \<Longrightarrow> inv s"
  by (auto simp: reach_def intro: run_inv starts)

end

text \<open>A system in which some step always finishes a part of the work under way, without touching what \<open>kept\<close> looks at, until it is
  quiet.\<close>

locale resting = invariant +
  fixes quiet :: "'s \<Rightarrow> bool" and work :: "'s \<Rightarrow> nat" and kept :: "'s \<Rightarrow> 'k"
  assumes progress: "\<not> quiet s \<Longrightarrow> \<exists>s'. step s s' \<and> work s' < work s \<and> kept s' = kept s"
begin

lemma rests: "\<exists>s'. step\<^sup>*\<^sup>* s s' \<and> quiet s' \<and> kept s' = kept s"
proof (induction s rule: measure_induct_rule [of work])
  case (less s)
  show ?case
  proof (cases "quiet s")
    case False
    then obtain s1 where s1: "step s s1" "work s1 < work s" "kept s1 = kept s" using progress by blast
    with less obtain s' where "step\<^sup>*\<^sup>* s1 s'" "quiet s'" "kept s' = kept s1" by blast
    with s1 show ?thesis by (metis converse_rtranclp_into_rtranclp)
  qed auto
qed

lemma rests_inv: "reach start step s \<Longrightarrow> \<exists>s'. step\<^sup>*\<^sup>* s s' \<and> quiet s' \<and> inv s' \<and> kept s' = kept s"
  using rests [of s] reach_inv [of s] run_inv [of s] by blast

end

end
