(* ===== verification/Idem_Race.thy ===== *)
theory Idem_Race
  imports Idem Steps
begin

text \<open>
  POSTs under an \<open>Idempotency-Key\<close> that are served at the same time (\<open>Once\<close>, \<open>Lookup\<close> and \<open>Store\<close> of \<open>lib/rest/rest.go\<close>). Each of the two
  operations on the store holds its mutex, but nothing is held between them while the handler runs: a step here is one look, the end of one handler or
  one store, and any number of requests take their steps in any order. Requests are numbered; the clock never goes back.
\<close>

section \<open>Steps of a request\<close>

record post =
  po_req :: request
  po_user :: string
  po_body :: bytes

text \<open>The scope and the key under which \<open>Once\<close> looks and stores.\<close>

definition po_scope :: "post \<Rightarrow> string" where
  "po_scope p = idem_scope (po_req p) (po_user p)"

definition po_key :: "post \<Rightarrow> string" where
  "po_key p = hdr_get (rheader (po_req p)) ''Idempotency-Key''"

text \<open>Where a request is: it has not looked yet; it found another body under its key; it was answered from the store; its handler runs, since the look at
  an instant; its handler is done; its answer was stored at an instant.\<close>

datatype once_pc = Waiting | Refused_key | Replayed int stored | Running int | Answered int capture | Kept int int capture

definition once_look :: "(bytes \<Rightarrow> string) \<Rightarrow> int \<Rightarrow> idempotency \<Rightarrow> post \<Rightarrow> once_pc" where
  "once_look hash now i p = (case idem_lookup hash now i (po_scope p) (po_key p) (po_body p) of
       (_, True) \<Rightarrow> Refused_key
     | (Some rec, False) \<Rightarrow> Replayed now rec
     | (None, False) \<Rightarrow> Running now)"

definition once_keep :: "(bytes \<Rightarrow> string) \<Rightarrow> int \<Rightarrow> idempotency \<Rightarrow> post \<Rightarrow> capture \<Rightarrow> idempotency" where
  "once_keep hash now i p c = (if cap_status c < 500 then idem_store hash now i (po_scope p) (po_key p) (po_body p) c else i)"

record race =
  ra_store :: idempotency
  ra_now :: int
  ra_pc :: "nat \<Rightarrow> once_pc"

inductive race_step :: "(bytes \<Rightarrow> string) \<Rightarrow> (nat \<Rightarrow> post) \<Rightarrow> race \<Rightarrow> race \<Rightarrow> bool" for hash posts where
  tick: "0 \<le> d \<Longrightarrow> race_step hash posts s (s\<lparr>ra_now := ra_now s + d\<rparr>)"
| look: "ra_pc s n = Waiting \<Longrightarrow> po_key (posts n) \<noteq> [] \<Longrightarrow>
    race_step hash posts s (s\<lparr>ra_pc := (ra_pc s)(n := once_look hash (ra_now s) (ra_store s) (posts n))\<rparr>)"
| answer: "ra_pc s n = Running t \<Longrightarrow> race_step hash posts s (s\<lparr>ra_pc := (ra_pc s)(n := Answered t c)\<rparr>)"
| keep: "ra_pc s n = Answered t c \<Longrightarrow> cap_status c < 500 \<Longrightarrow>
    race_step hash posts s (s\<lparr>ra_store := once_keep hash (ra_now s) (ra_store s) (posts n) c, ra_pc := (ra_pc s)(n := Kept t (ra_now s) c)\<rparr>)"

definition race_start :: "int \<Rightarrow> race \<Rightarrow> bool" where
  "race_start ttl s \<longleftrightarrow> ra_store s = new_idempotency ttl \<and> (\<forall>n. ra_pc s n = Waiting)"

text \<open>The steps of one request, with nothing in between, are \<open>Once\<close>.\<close>

lemma once_is_steps:
  assumes "p = \<lparr>po_req = r, po_user = user, po_body = raw\<rparr>" "po_key p \<noteq> []"
  shows "once hash t1 t2 r (Some i) user raw run w s = (case once_look hash t1 i p of
       Running t \<Rightarrow> (case run w s of (w', s') \<Rightarrow> (w', s', Some (once_keep hash t2 i p (captured w w'))))
     | Replayed t rec \<Rightarrow> (replay rec w, s, Some i)
     | _ \<Rightarrow> (fail r (EProblem (problem_new 409 ''conflict'' ''Conflict'' ''Idempotency-Key reused with a different body'')) w, s, Some i))"
  using assms by (simp add: once_def once_look_def once_keep_def po_scope_def po_key_def Let_def split: prod.splits option.splits bool.splits)

section \<open>The store of concurrent requests\<close>

definition slot :: "post \<Rightarrow> string" where
  "slot p = idem_key (po_scope p) (po_key p)"

definition record_of :: "(bytes \<Rightarrow> string) \<Rightarrow> post \<Rightarrow> int \<Rightarrow> capture \<Rightarrow> stored" where
  "record_of hash p t c = \<lparr>st_hash = hash (po_body p), st_status = cap_status c, st_header = cap_header c, st_body = cap_body c, st_at = t\<rparr>"

text \<open>The instant of the look of a request whose handler was run.\<close>

fun ran_since :: "once_pc \<Rightarrow> int option" where
  "ran_since (Running t) = Some t"
| "ran_since (Answered t c) = Some t"
| "ran_since (Kept t t' c) = Some t"
| "ran_since _ = None"

lemma look_cases:
  obtains "once_look hash now i p = Refused_key"
  | rec where "once_look hash now i p = Replayed now rec" "(slot p, rec) \<in> set (id_m i)" "st_hash rec = hash (po_body p)" "now - st_at rec \<le> id_ttl i"
  | "once_look hash now i p = Running now" "\<And>rec. map_of (id_m i) (slot p) = Some rec \<Longrightarrow> id_ttl i < now - st_at rec"
proof (cases "map_of (id_m i) (slot p)")
  case None
  then show thesis using that(3) by (simp add: once_look_def idem_lookup_def slot_def)
next
  case (Some rec)
  then have "(slot p, rec) \<in> set (id_m i)" by (rule map_of_SomeD)
  with Some that show thesis
    by (cases "id_ttl i < now - st_at rec"; cases "st_hash rec = hash (po_body p)") (auto simp: once_look_def idem_lookup_def slot_def)
qed

lemma update_set: "set (AList.update k v m) \<subseteq> insert (k, v) (set m)"
  by (induction m) auto

lemma keep_set: "set (id_m (once_keep hash now i p c)) \<subseteq> insert (slot p, record_of hash p now c) (set (id_m i))"
  unfolding once_keep_def idem_store_def slot_def record_of_def Let_def
  using update_set by (fastforce split: if_splits)

lemma keep_ttl: "id_ttl (once_keep hash now i p c) = id_ttl i"
  by (simp add: once_keep_def idem_store_def Let_def)

lemma map_of_filter_Some: "map_of m k = Some v \<Longrightarrow> P (k, v) \<Longrightarrow> map_of (filter P m) k = Some v"
  by (induction m) (auto split: if_splits)

lemma keep_map:
  assumes "map_of (id_m i) k = Some rec" "t \<le> st_at rec" "t \<le> now" "now - t \<le> id_ttl i"
  shows "\<exists>rec'. map_of (id_m (once_keep hash now i p c)) k = Some rec' \<and> t \<le> st_at rec'"
  using assms map_of_filter_Some [OF assms(1), of "\<lambda>(k, v). \<not> now - st_at v > id_ttl i"]
  by (auto simp: once_keep_def idem_store_def Let_def update_conv')

section \<open>Invariant\<close>

text \<open>An answer that was stored by a request of the same slot, no earlier than it was given.\<close>

definition kept_by :: "(bytes \<Rightarrow> string) \<Rightarrow> (nat \<Rightarrow> post) \<Rightarrow> race \<Rightarrow> string \<Rightarrow> stored \<Rightarrow> nat \<Rightarrow> bool" where
  "kept_by hash posts s k rec m \<longleftrightarrow> (\<exists>t1 t2 c. ra_pc s m = Kept t1 t2 c \<and> slot (posts m) = k \<and> rec = record_of hash (posts m) t2 c)"

definition race_inv :: "(bytes \<Rightarrow> string) \<Rightarrow> (nat \<Rightarrow> post) \<Rightarrow> int \<Rightarrow> race \<Rightarrow> bool" where
  "race_inv hash posts ttl s \<longleftrightarrow> id_ttl (ra_store s) = ttl
     \<and> (\<forall>n t. ran_since (ra_pc s n) = Some t \<longrightarrow> t \<le> ra_now s)
     \<and> (\<forall>m t1 t2 c. ra_pc s m = Kept t1 t2 c \<longrightarrow> t2 \<le> ra_now s \<and> cap_status c < 500
          \<and> (ra_now s - t2 \<le> ttl \<longrightarrow> (\<exists>rec. map_of (id_m (ra_store s)) (slot (posts m)) = Some rec \<and> t2 \<le> st_at rec)))
     \<and> (\<forall>k rec. (k, rec) \<in> set (id_m (ra_store s)) \<longrightarrow> (\<exists>m. kept_by hash posts s k rec m))
     \<and> (\<forall>n t rec. ra_pc s n = Replayed t rec \<longrightarrow> st_hash rec = hash (po_body (posts n)) \<and> t - st_at rec \<le> ttl
          \<and> (\<exists>m. m \<noteq> n \<and> kept_by hash posts s (slot (posts n)) rec m))
     \<and> (\<forall>m n t1 t2 t3 c. m \<noteq> n \<longrightarrow> slot (posts m) = slot (posts n) \<longrightarrow> ra_pc s m = Kept t1 t2 c \<longrightarrow> ran_since (ra_pc s n) = Some t3 \<longrightarrow>
          t3 \<le> t2 \<or> ttl < t3 - t2)"

lemma race_invD:
  assumes "race_inv hash posts ttl s"
  shows "id_ttl (ra_store s) = ttl"
    and "ran_since (ra_pc s n) = Some t \<Longrightarrow> t \<le> ra_now s"
    and "ra_pc s m = Kept t1 t2 c \<Longrightarrow> t2 \<le> ra_now s"
    and "ra_pc s m = Kept t1 t2 c \<Longrightarrow> cap_status c < 500"
    and "ra_pc s m = Kept t1 t2 c \<Longrightarrow> ra_now s - t2 \<le> ttl \<Longrightarrow> \<exists>rec. map_of (id_m (ra_store s)) (slot (posts m)) = Some rec \<and> t2 \<le> st_at rec"
    and "(k, rec) \<in> set (id_m (ra_store s)) \<Longrightarrow> \<exists>m. kept_by hash posts s k rec m"
    and "ra_pc s n = Replayed t rec \<Longrightarrow> st_hash rec = hash (po_body (posts n)) \<and> t - st_at rec \<le> ttl"
    and "ra_pc s n = Replayed t rec \<Longrightarrow> \<exists>m. m \<noteq> n \<and> kept_by hash posts s (slot (posts n)) rec m"
    and "m \<noteq> n \<Longrightarrow> slot (posts m) = slot (posts n) \<Longrightarrow> ra_pc s m = Kept t1 t2 c \<Longrightarrow> ran_since (ra_pc s n) = Some t3 \<Longrightarrow> t3 \<le> t2 \<or> ttl < t3 - t2"
  using assms unfolding race_inv_def by blast+

lemma kept_by_upd: "(\<And>t t' c. ra_pc s n \<noteq> Kept t t' c) \<Longrightarrow> kept_by hash posts s k rec m \<Longrightarrow> ra_pc s' = (ra_pc s)(n := q) \<Longrightarrow> kept_by hash posts s' k rec m \<and> m \<noteq> n"
  by (auto simp: kept_by_def)

text \<open>A request that moves from a place where nothing of it is in the store to another such place.\<close>

lemma inv_move:
  assumes "race_inv hash posts ttl s" "\<And>t t' c. ra_pc s n \<noteq> Kept t t' c" "\<And>t t' c. q \<noteq> Kept t t' c"
    and "\<And>t. ran_since q = Some t \<Longrightarrow> t \<le> ra_now s"
    and "\<And>m t1 t2 t3 c. m \<noteq> n \<Longrightarrow> slot (posts m) = slot (posts n) \<Longrightarrow> ra_pc s m = Kept t1 t2 c \<Longrightarrow> ran_since q = Some t3 \<Longrightarrow> t3 \<le> t2 \<or> ttl < t3 - t2"
    and "\<And>t rec. q = Replayed t rec \<Longrightarrow> st_hash rec = hash (po_body (posts n)) \<and> t - st_at rec \<le> ttl \<and> (slot (posts n), rec) \<in> set (id_m (ra_store s))"
  shows "race_inv hash posts ttl (s\<lparr>ra_pc := (ra_pc s)(n := q)\<rparr>)" (is "race_inv _ _ _ ?s'")
proof -
  note D = race_invD [OF assms(1)]
  have k: "kept_by hash posts ?s' k rec m \<and> m \<noteq> n" if "kept_by hash posts s k rec m" for k rec m
    using kept_by_upd [where s' = ?s', OF assms(2) that] by simp
  have r: "\<exists>m. m \<noteq> n' \<and> kept_by hash posts ?s' (slot (posts n')) rec m" if "ra_pc ?s' n' = Replayed t rec" for n' t rec
  proof (cases "n' = n")
    case True
    with that have "(slot (posts n), rec) \<in> set (id_m (ra_store s))" using assms(6) by simp
    with D(6) k True show ?thesis by blast
  next
    case False
    with that D(8) k show ?thesis by fastforce
  qed
  show ?thesis unfolding race_inv_def
  proof (intro conjI allI impI)
    fix k rec assume "(k, rec) \<in> set (id_m (ra_store ?s'))"
    then show "\<exists>m. kept_by hash posts ?s' k rec m" using D(6) k by fastforce
  next
    fix m n' t1 t2 t3 c
    assume "m \<noteq> n'" "slot (posts m) = slot (posts n')" "ra_pc ?s' m = Kept t1 t2 c" "ran_since (ra_pc ?s' n') = Some t3"
    then show "t3 \<le> t2 \<or> ttl < t3 - t2" using D(9) [of m n'] assms(3,5) by (cases "n' = n"; cases "m = n") auto
  qed (use assms(3,4,6) D(1-5,7) r in \<open>auto split: if_splits\<close>)
qed

lemma inv_tick: "race_inv hash posts ttl s \<Longrightarrow> 0 \<le> d \<Longrightarrow> race_inv hash posts ttl (s\<lparr>ra_now := ra_now s + d\<rparr>)"
  unfolding race_inv_def kept_by_def by (simp, smt (verit))

lemma inv_look:
  assumes "race_inv hash posts ttl s" "ra_pc s n = Waiting"
  shows "race_inv hash posts ttl (s\<lparr>ra_pc := (ra_pc s)(n := once_look hash (ra_now s) (ra_store s) (posts n))\<rparr>)"
proof -
  note D = race_invD [OF assms(1)]
  show ?thesis
  proof (rule look_cases [of hash "ra_now s" "ra_store s" "posts n"])
    assume l: "once_look hash (ra_now s) (ra_store s) (posts n) = Running (ra_now s)"
      and e: "\<And>rec. map_of (id_m (ra_store s)) (slot (posts n)) = Some rec \<Longrightarrow> id_ttl (ra_store s) < ra_now s - st_at rec"
    have "ttl < ra_now s - t2" if "slot (posts m) = slot (posts n)" "ra_pc s m = Kept t1 t2 c" for m t1 t2 c
      using D(1) D(5) [OF that(2)] that(1) e by fastforce
    then show ?thesis unfolding l using assms by (intro inv_move) auto
  qed (use assms D(1) in \<open>auto intro!: inv_move\<close>)
qed

lemma inv_keep:
  assumes "race_inv hash posts ttl s" "ra_pc s n = Answered t c" "cap_status c < 500"
  shows "race_inv hash posts ttl (s\<lparr>ra_store := once_keep hash (ra_now s) (ra_store s) (posts n) c, ra_pc := (ra_pc s)(n := Kept t (ra_now s) c)\<rparr>)"
    (is "race_inv _ _ _ ?s'")
proof -
  note D = race_invD [OF assms(1)]
  have k: "kept_by hash posts ?s' k rec m \<and> m \<noteq> n" if "kept_by hash posts s k rec m" for k rec m
    using kept_by_upd [where s' = ?s', OF _ that] assms(2) by simp
  have new: "kept_by hash posts ?s' (slot (posts n)) (record_of hash (posts n) (ra_now s) c) n" by (simp add: kept_by_def)
  have live: "\<exists>rec. map_of (id_m (ra_store ?s')) (slot (posts m)) = Some rec \<and> t2 \<le> st_at rec"
    if m: "ra_pc ?s' m = Kept t1 t2 c'" "ra_now s - t2 \<le> ttl" for m t1 t2 c'
  proof (cases "m = n")
    case True
    with m assms(3) show ?thesis by (simp add: once_keep_def idem_store_def Let_def slot_def update_conv')
  next
    case False
    with m D(3) D(5) [of m t1 t2 c'] D(1) show ?thesis using keep_map [where i = "ra_store s" and t = t2] by fastforce
  qed
  show ?thesis unfolding race_inv_def
  proof (intro conjI allI impI)
    fix k rec assume "(k, rec) \<in> set (id_m (ra_store ?s'))"
    then have "(k, rec) = (slot (posts n), record_of hash (posts n) (ra_now s) c) \<or> (k, rec) \<in> set (id_m (ra_store s))" using keep_set by fastforce
    then show "\<exists>m. kept_by hash posts ?s' k rec m" using new D(6) k by blast
  next
    fix m n' t1 t2 t3 c'
    assume a: "m \<noteq> n'" "slot (posts m) = slot (posts n')" "ra_pc ?s' m = Kept t1 t2 c'" "ran_since (ra_pc ?s' n') = Some t3"
    then have "ran_since (ra_pc s n') = Some t3" using assms(2) by (auto split: if_splits)
    with a D(2) D(9) [of m n' t1 t2 c' t3] show "t3 \<le> t2 \<or> ttl < t3 - t2" by (auto split: if_splits)
  next
    fix n' t' rec assume "ra_pc ?s' n' = Replayed t' rec"
    then show "\<exists>m. m \<noteq> n' \<and> kept_by hash posts ?s' (slot (posts n')) rec m" using D(8) k by (fastforce split: if_splits)
  next
    fix m t1 t2 c' assume "ra_pc ?s' m = Kept t1 t2 c'" "ra_now ?s' - t2 \<le> ttl"
    then show "\<exists>rec. map_of (id_m (ra_store ?s')) (slot (posts m)) = Some rec \<and> t2 \<le> st_at rec" using live by simp
  qed (use assms(2,3) D(1-4,7) D(2) [of n t] in \<open>auto simp: keep_ttl split: if_splits\<close>)
qed

interpretation races: invariant "race_start ttl" "race_step hash posts" "race_inv hash posts ttl"
  for hash :: "bytes \<Rightarrow> string" and posts ttl
proof unfold_locales
  show "race_inv hash posts ttl s" if "race_start ttl s" for s
    using that by (simp add: race_start_def race_inv_def new_idempotency_def)
  show "race_inv hash posts ttl s'" if "race_step hash posts s s'" "race_inv hash posts ttl s" for s s'
    using that
  proof (induction rule: race_step.induct)
    case (answer s n t c)
    then show ?case using race_invD(2) [OF answer(2), of n t] race_invD(9) [OF answer(2), where n = n] by (intro inv_move) auto
  qed (auto intro: inv_tick inv_look inv_keep)
qed

section \<open>Properties\<close>

text \<open>C15: however requests overlap, an answer is replayed to a request only if another request of the same user, the same path and the same
  \<open>Idempotency-Key\<close>, with a body of the same hash, was run and answered with it below 500, no longer ago than the time answers are kept.
  No user name and no key holds a NUL, which separates the parts of a slot.\<close>

theorem replay_genuine:
  assumes "reach (race_start ttl) (race_step hash posts) s" "ra_pc s n = Replayed t rec"
    and nul: "\<And>k. no_nul (po_user (posts k)) \<and> no_nul (hdr_get (rheader (po_req (posts k))) ''Idempotency-Key'')"
  shows "\<exists>m t1 t2 c. m \<noteq> n \<and> ra_pc s m = Kept t1 t2 c \<and> po_user (posts m) = po_user (posts n) \<and> rpath (po_req (posts m)) = rpath (po_req (posts n))
     \<and> hdr_get (rheader (po_req (posts m))) ''Idempotency-Key'' = hdr_get (rheader (po_req (posts n))) ''Idempotency-Key''
     \<and> hash (po_body (posts m)) = hash (po_body (posts n))
     \<and> cap_status c < 500 \<and> t - t2 \<le> ttl \<and> st_status rec = cap_status c \<and> st_header rec = cap_header c \<and> st_body rec = cap_body c"
proof -
  note D = race_invD [OF races.reach_inv [OF assms(1)]]
  from D(8) [OF assms(2)] obtain m t1 t2 c where m: "m \<noteq> n" "ra_pc s m = Kept t1 t2 c" "slot (posts m) = slot (posts n)" "rec = record_of hash (posts m) t2 c"
    unfolding kept_by_def by blast
  note same = idem_slot_injective [OF m(3) [unfolded slot_def po_scope_def po_key_def], OF conjunct1 [OF nul] conjunct1 [OF nul] conjunct2 [OF nul] conjunct2 [OF nul]]
  from m same D(4) D(7) [OF assms(2)] show ?thesis
    by (intro exI [of _ m] exI [of _ t1] exI [of _ t2] exI [of _ c]) (auto simp: record_of_def)
qed

text \<open>C16: of two requests of one user, path and key, whatever their bodies, the second runs its handler only if it looked before the answer of the
  first was stored, or when the answer was kept no more: a retry that comes after the answer never reaches the database.\<close>

theorem runs_overlap:
  assumes "reach (race_start ttl) (race_step hash posts) s" "m \<noteq> n" "slot (posts m) = slot (posts n)"
    and "ra_pc s m = Kept t1 t2 c" "ran_since (ra_pc s n) = Some t3"
  shows "t3 \<le> t2 \<or> ttl < t3 - t2"
  using race_invD(9) [OF races.reach_inv [OF assms(1)]] assms(2-5) by blast

section \<open>Runs\<close>

text \<open>A retry that comes while the first request is still served finds nothing: the handler of both runs, and both answers are given.\<close>

definition race_zero :: "int \<Rightarrow> race" where
  "race_zero ttl = \<lparr>ra_store = new_idempotency ttl, ra_now = 0, ra_pc = (\<lambda>_. Waiting)\<rparr>"

lemma race_zero_reached: "reach (race_start ttl) (race_step hash posts) (race_zero ttl)"
  by (rule reach_start) (simp add: race_start_def race_zero_def)

lemmas race_on = reach_run [OF _ r_into_rtranclp]

lemma look_empty: "once_look hash now (new_idempotency ttl) p = Running now"
  by (simp add: once_look_def idem_lookup_def new_idempotency_def)

definition first_running :: "int \<Rightarrow> race" where
  "first_running ttl = (race_zero ttl)\<lparr>ra_pc := (\<lambda>_. Waiting)(0 := Running 0)\<rparr>"

lemma first_running_reached:
  assumes "po_key (posts 0) \<noteq> []"
  shows "reach (race_start ttl) (race_step hash posts) (first_running ttl)"
proof -
  have "race_step hash posts (race_zero ttl) (first_running ttl)"
    using race_step.look [of "race_zero ttl" 0 posts hash] assms by (simp add: race_zero_def first_running_def look_empty)
  with race_zero_reached show ?thesis by (rule race_on)
qed

lemma retry_in_flight_runs:
  assumes "po_key p \<noteq> []"
  shows "\<exists>s. reach (race_start ttl) (race_step hash (\<lambda>_. p)) s \<and> ra_pc s 0 = Answered 0 c \<and> ra_pc s 1 = Answered 0 c'"
proof -
  let ?f = "first_running ttl"
  have "race_step hash (\<lambda>_. p) ?f (?f\<lparr>ra_pc := (ra_pc ?f)(1 := Running 0)\<rparr>)" (is "race_step _ _ _ ?s1")
    using race_step.look [of ?f 1 "\<lambda>_. p" hash] assms by (simp add: first_running_def race_zero_def look_empty)
  with first_running_reached [where posts = "\<lambda>_. p"] assms have r1: "reach (race_start ttl) (race_step hash (\<lambda>_. p)) ?s1" by (metis race_on)
  have "race_step hash (\<lambda>_. p) ?s1 (?s1\<lparr>ra_pc := (ra_pc ?s1)(0 := Answered 0 c)\<rparr>)" (is "race_step _ _ _ ?s2")
    by (rule race_step.answer) (simp add: first_running_def)
  with r1 have r2: "reach (race_start ttl) (race_step hash (\<lambda>_. p)) ?s2" by (rule race_on)
  have "race_step hash (\<lambda>_. p) ?s2 (?s2\<lparr>ra_pc := (ra_pc ?s2)(1 := Answered 0 c')\<rparr>)" (is "race_step _ _ _ ?s3")
    by (rule race_step.answer) simp
  with r2 have r3: "reach (race_start ttl) (race_step hash (\<lambda>_. p)) ?s3" by (rule race_on)
  then show ?thesis by (intro exI [of _ ?s3]) simp
qed

definition first_kept :: "(bytes \<Rightarrow> string) \<Rightarrow> post \<Rightarrow> capture \<Rightarrow> int \<Rightarrow> race" where
  "first_kept hash p c ttl = \<lparr>ra_store = once_keep hash 0 (new_idempotency ttl) p c, ra_now = 0, ra_pc = (\<lambda>_. Waiting)(0 := Kept 0 0 c)\<rparr>"

lemma first_kept_reached:
  assumes "cap_status c < 500" "po_key p \<noteq> []"
  shows "reach (race_start ttl) (race_step hash (\<lambda>_. p)) (first_kept hash p c ttl)"
proof -
  let ?f = "first_running ttl"
  have "race_step hash (\<lambda>_. p) ?f (?f\<lparr>ra_pc := (ra_pc ?f)(0 := Answered 0 c)\<rparr>)" (is "race_step _ _ _ ?s1")
    by (rule race_step.answer) (simp add: first_running_def)
  with first_running_reached [where posts = "\<lambda>_. p"] assms have r1: "reach (race_start ttl) (race_step hash (\<lambda>_. p)) ?s1" by (metis race_on)
  have "race_step hash (\<lambda>_. p) ?s1 (first_kept hash p c ttl)"
    using race_step.keep [of ?s1 0 0 c hash "\<lambda>_. p"] assms by (simp add: first_running_def race_zero_def first_kept_def)
  with r1 show ?thesis by (rule race_on)
qed

definition created :: capture where
  "created = \<lparr>cap_status = 201, cap_header = [], cap_body = ''1''\<rparr>"

definition sample_po :: post where
  "sample_po = \<lparr>po_req = sample_post, po_user = ''u'', po_body = ''b''\<rparr>"

lemma sample_po_key: "po_key sample_po = ''k''"
  by (simp add: po_key_def sample_po_def sample_key)

lemma sample_po_nul: "no_nul (po_user sample_po) \<and> no_nul (hdr_get (rheader (po_req sample_po)) ''Idempotency-Key'')"
  by (simp add: sample_po_def sample_key no_nul_def)

lemma sample_kept_reached: "reach (race_start 10) (race_step (\<lambda>b. b) (\<lambda>_. sample_po)) (first_kept (\<lambda>b. b) sample_po created 10)"
  by (rule first_kept_reached) (simp_all add: created_def sample_po_key)

text \<open>A retry in the same instant as the store of the first answer.\<close>

definition second_replayed :: race where
  "second_replayed = (first_kept (\<lambda>b. b) sample_po created 10)
     \<lparr>ra_pc := (\<lambda>_. Waiting)(0 := Kept 0 0 created, 1 := Replayed 0 (record_of (\<lambda>b. b) sample_po 0 created))\<rparr>"

lemma second_replayed_reached: "reach (race_start 10) (race_step (\<lambda>b. b) (\<lambda>_. sample_po)) second_replayed"
proof -
  let ?f = "first_kept (\<lambda>b. b) sample_po created 10"
  have "race_step (\<lambda>b. b) (\<lambda>_. sample_po) ?f second_replayed"
    using race_step.look [of ?f 1 "\<lambda>_. sample_po" "\<lambda>b. b"] sample_po_key
    by (simp add: first_kept_def once_look_def once_keep_def created_def record_of_def second_replayed_def new_idempotency_def)
  with sample_kept_reached show ?thesis by (rule race_on)
qed

theorem replay_genuine_witness:
  "\<exists>m t1 t2 c. m \<noteq> 1 \<and> ra_pc second_replayed m = Kept t1 t2 c \<and> cap_status c < 500 \<and> st_body (record_of (\<lambda>b. b) sample_po 0 created) = cap_body c"
proof -
  have "ra_pc second_replayed 1 = Replayed 0 (record_of (\<lambda>b. b) sample_po 0 created)" by (simp add: second_replayed_def)
  from replay_genuine [OF second_replayed_reached this sample_po_nul] show ?thesis by blast
qed

text \<open>The answer of the first request, given at 0, is kept for 10; the second request comes at 11.\<close>

definition second_runs :: race where
  "second_runs = (first_kept (\<lambda>b. b) sample_po created 10)\<lparr>ra_now := 11, ra_pc := (\<lambda>_. Waiting)(0 := Kept 0 0 created, 1 := Running 11)\<rparr>"

lemma second_runs_reached: "reach (race_start 10) (race_step (\<lambda>b. b) (\<lambda>_. sample_po)) second_runs"
proof -
  let ?f = "first_kept (\<lambda>b. b) sample_po created 10"
  have "race_step (\<lambda>b. b) (\<lambda>_. sample_po) ?f (?f\<lparr>ra_now := 11\<rparr>)"
    using race_step.tick [of 11 "\<lambda>b. b" "\<lambda>_. sample_po" ?f] by (simp add: first_kept_def)
  with sample_kept_reached have r1: "reach (race_start 10) (race_step (\<lambda>b. b) (\<lambda>_. sample_po)) (?f\<lparr>ra_now := 11\<rparr>)" by (rule race_on)
  have "race_step (\<lambda>b. b) (\<lambda>_. sample_po) (?f\<lparr>ra_now := 11\<rparr>) second_runs"
    using race_step.look [of "?f\<lparr>ra_now := 11\<rparr>" 1 "\<lambda>_. sample_po" "\<lambda>b. b"] sample_po_key
    by (simp add: first_kept_def once_look_def once_keep_def created_def second_runs_def new_idempotency_def)
  with r1 show ?thesis by (rule race_on)
qed

text \<open>A run with a second handler in it: it began at 11, and by the property in none of the ten instants in which the answer was kept.\<close>

theorem runs_overlap_witness:
  "reach (race_start 10) (race_step (\<lambda>b. b) (\<lambda>_. sample_po)) second_runs \<and> ra_pc second_runs 0 = Kept 0 0 created
   \<and> ran_since (ra_pc second_runs 1) = Some 11 \<and> ran_since (ra_pc second_runs 1) \<notin> Some ` {1..10}"
proof -
  have k: "ra_pc second_runs 0 = Kept 0 0 created" and r: "ran_since (ra_pc second_runs 1) = Some 11" by (simp_all add: second_runs_def)
  have "t \<le> 0 \<or> 10 < t - 0" if "ran_since (ra_pc second_runs 1) = Some t" for t
    using runs_overlap [OF second_runs_reached _ _ k that] by simp
  then have "ran_since (ra_pc second_runs 1) \<notin> Some ` {1..10}" by fastforce
  with k r second_runs_reached show ?thesis by blast
qed

end
