(* ===== verification/Frame.thy ===== *)
theory Frame
  imports Problem
begin

text \<open>
  \<open>lib/gateway/frame/frame.go\<close>: the RPC frame of the gateway's control plane. A payload is the syntax tree of
  its JSON text (\<open>None\<close> a nil one), so what is read is exact up to white space between tokens. The codec
  is stated as the locale \<open>frame_codec\<close> and interpreted on \<open>Encode\<close> and \<open>Parse\<close>.
\<close>

record frame =
  f_type :: int
  f_id :: string
  f_action :: string
  f_payload :: "json option"
  f_code :: int
  f_message :: string

definition t_call :: int where "t_call = 2"
definition t_result :: int where "t_result = 3"
definition t_error :: int where "t_error = 4"

definition max_size :: nat where
  "max_size = 64 * 1024"

datatype frame_error =
    FTooLarge
  | FJson jerr
  | FMissingT
  | FBadID
  | FBadAction
  | FNeedsCode
  | FType int
  | FPayload

definition wire_fields :: "(string \<times> jkind) list" where
  "wire_fields = [(''t'', KPInt), (''u'', KString), (''a'', KString), (''p'', KRaw), (''c'', KPInt), (''m'', KString)]"

definition empty_object :: json where
  "empty_object = JObj []"

text \<open>The switch on the payload: nil or null is the empty object, an object is kept, anything else refused.\<close>

definition payload_switch :: "json option \<Rightarrow> json option" where
  "payload_switch p = (case p of None \<Rightarrow> Some empty_object
     | Some j \<Rightarrow> (case j of JNull \<Rightarrow> Some empty_object | JObj _ \<Rightarrow> Some j | _ \<Rightarrow> None))"

definition frame_parse :: "bytes \<Rightarrow> frame_error + frame" where
  "frame_parse b =
     (if max_size < length b then Inl FTooLarge
      else (case json_unmarshal wire_fields b of (w, err) \<Rightarrow>
        (case err of Some e \<Rightarrow> Inl (FJson e)
         | None \<Rightarrow>
           (case gpint w ''t'' of None \<Rightarrow> Inl FMissingT
            | Some t \<Rightarrow>
              (if \<not> uuid_shape (gstr w ''u'') then Inl FBadID
               else if t = t_call \<and> \<not> has_prefix (gstr w ''a'') ''/'' then Inl FBadAction
               else if t = t_error \<and> gpint w ''c'' = None then Inl FNeedsCode
               else if t \<noteq> t_call \<and> t \<noteq> t_result \<and> t \<noteq> t_error then Inl (FType t)
               else (case payload_switch (graw w ''p'') of None \<Rightarrow> Inl FPayload
                 | Some j \<Rightarrow> Inr \<lparr>f_type = t, f_id = gstr w ''u'', f_action = gstr w ''a'', f_payload = Some j,
                     f_code = (if t = t_error then gint w ''c'' else 0), f_message = gstr w ''m''\<rparr>))))))"

definition wire_json :: "int \<Rightarrow> string \<Rightarrow> string \<Rightarrow> json option \<Rightarrow> int option \<Rightarrow> string \<Rightarrow> json" where
  "wire_json t u a p c m = JObj ([(''t'', jint t), (''u'', jstr u)] @ omitempty ''a'' a
     @ (case p of None \<Rightarrow> [] | Some j \<Rightarrow> [(''p'', j)]) @ (case c of None \<Rightarrow> [] | Some i \<Rightarrow> [(''c'', jint i)])
     @ omitempty ''m'' m)"

definition frame_json :: "frame \<Rightarrow> (int + json)" where
  "frame_json f =
     (let p = (case f_payload f of None \<Rightarrow> Some empty_object | Some j \<Rightarrow> Some j) in
      if f_type f = t_call then Inr (wire_json t_call (f_id f) (f_action f) p None [])
      else if f_type f = t_result then Inr (wire_json t_result (f_id f) [] p None [])
      else if f_type f = t_error then Inr (wire_json t_error (f_id f) [] None (Some (f_code f)) (f_message f))
      else Inl (f_type f))"

definition frame_encode :: "frame \<Rightarrow> frame_error + bytes" where
  "frame_encode f = (case frame_json f of Inl t \<Rightarrow> Inl (FType t) | Inr j \<Rightarrow> Inr (json_print j))"

text \<open>\<open>NewID\<close> on the sixteen random bytes it drew; \<open>%x\<close> writes two lower-case digits per byte.\<close>

definition hex_byte :: "nat \<Rightarrow> string" where
  "hex_byte n = [hex_char (n div 16), hex_char (n mod 16)]"

definition hex_bytes :: "nat list \<Rightarrow> string" where
  "hex_bytes bs = concat (map hex_byte bs)"

definition new_id :: "nat list \<Rightarrow> string" where
  "new_id b0 =
     (let b = b0[6 := b0 ! 6 mod 16 + 64, 8 := b0 ! 8 mod 64 + 128] in
      hex_bytes (take 4 b) @ ''-'' @ hex_bytes (take 2 (drop 4 b)) @ ''-'' @ hex_bytes (take 2 (drop 6 b)) @ ''-''
        @ hex_bytes (take 2 (drop 8 b)) @ ''-'' @ hex_bytes (take 6 (drop 10 b)))"

definition new_call :: "nat list \<Rightarrow> string \<Rightarrow> json option \<Rightarrow> frame" where
  "new_call rnd action payload = \<lparr>f_type = t_call, f_id = new_id rnd, f_action = action,
     f_payload = Some (case payload of None \<Rightarrow> empty_object | Some j \<Rightarrow> j), f_code = 0, f_message = []\<rparr>"

definition frame_result :: "frame \<Rightarrow> json option \<Rightarrow> frame" where
  "frame_result f payload = \<lparr>f_type = t_result, f_id = f_id f, f_action = [],
     f_payload = Some (case payload of None \<Rightarrow> empty_object | Some j \<Rightarrow> j), f_code = 0, f_message = []\<rparr>"

definition frame_error :: "frame \<Rightarrow> int \<Rightarrow> string \<Rightarrow> frame" where
  "frame_error f code msg = \<lparr>f_type = t_error, f_id = f_id f, f_action = [], f_payload = None, f_code = code, f_message = msg\<rparr>"

section \<open>What a parsed frame is\<close>

definition frame_valid :: "frame \<Rightarrow> bool" where
  "frame_valid f \<longleftrightarrow> uuid_shape (f_id f) \<and> f_type f \<in> {t_call, t_result, t_error}
     \<and> (f_type f = t_call \<longrightarrow> has_prefix (f_action f) ''/'') \<and> (\<exists>ms. f_payload f = Some (JObj ms))"

lemma payload_switch_obj: "payload_switch p = Some j \<Longrightarrow> \<exists>ms. j = JObj ms"
  by (auto simp: payload_switch_def empty_object_def split: option.splits json.splits)

text \<open>A frame \<open>Parse\<close> accepts is at most 64 KiB, has one of the three types of the channel, a UUID, an object as
  payload and, when it is a CALL, an action that starts with a slash.\<close>

lemma frame_parse_valid:
  assumes "frame_parse b = Inr f"
  shows "length b \<le> max_size \<and> frame_valid f"
  using assms
  by (auto simp: frame_parse_def frame_valid_def dest: payload_switch_obj split: if_splits prod.splits option.splits)

section \<open>Reading back a frame\<close>

text \<open>A codec: what \<open>dec\<close> reads from the text of a valid value is its normal form.\<close>

locale codec =
  fixes enc :: "'a \<Rightarrow> 'e + bytes" and dec :: "bytes \<Rightarrow> 'f + 'a" and valid :: "'a \<Rightarrow> bool" and norm :: "'a \<Rightarrow> 'a"
  assumes dec_enc: "valid x \<Longrightarrow> enc x = Inr b \<Longrightarrow> dec b = Inr (norm x)"
begin

lemma enc_inj: "valid x \<Longrightarrow> valid y \<Longrightarrow> enc x = Inr b \<Longrightarrow> enc y = Inr b \<Longrightarrow> norm x = norm y"
  using dec_enc [of x b] dec_enc [of y b] by simp

end

text \<open>A frame that can be sent: what its type does not use is empty, the texts are ASCII, the payload an object.\<close>

definition payload_ok :: "json option \<Rightarrow> bool" where
  "payload_ok p = (case p of None \<Rightarrow> True | Some j \<Rightarrow> (case j of JObj _ \<Rightarrow> json_ok j \<and> jdepth j < max_nesting | _ \<Rightarrow> False))"

definition sendable :: "frame \<Rightarrow> bool" where
  "sendable f \<longleftrightarrow> uuid_shape (f_id f) \<and> payload_ok (f_payload f) \<and> ascii (f_action f) \<and> ascii (f_message f) \<and> int64_ok (f_code f)
     \<and> (if f_type f = t_call then has_prefix (f_action f) ''/'' \<and> f_code f = 0 \<and> f_message f = []
        else if f_type f = t_result then f_action f = [] \<and> f_code f = 0 \<and> f_message f = []
        else f_type f = t_error \<and> f_action f = [] \<and> f_payload f = None)
     \<and> (case frame_encode f of Inl _ \<Rightarrow> False | Inr b \<Rightarrow> length b \<le> max_size)"

definition frame_norm :: "frame \<Rightarrow> frame" where
  "frame_norm f = f\<lparr>f_payload := Some (case f_payload f of None \<Rightarrow> empty_object | Some j \<Rightarrow> j)\<rparr>"

lemma uuid_from_ascii: "uuid_from i s \<Longrightarrow> ascii s"
proof (induction s arbitrary: i)
  case (Cons c s)
  have "ord_of (CHR ''-'') < 128" by (simp add: ord_of_def)
  with Cons show ?case by (auto simp: is_hex_def is_digit_def split: if_splits)
qed simp

lemma uuid_ascii: "uuid_shape s \<Longrightarrow> ascii s"
  by (auto simp: uuid_shape_def intro: uuid_from_ascii split: if_splits)

lemma wire_names [simp]: "unquote ''t'' = ''t''" "unquote ''u'' = ''u''" "unquote ''a'' = ''a''" "unquote ''p'' = ''p''"
    "unquote ''c'' = ''c''" "unquote ''m'' = ''m''"
  by code_simp+

lemma wire_names_ok: "raw_ok ''t'' \<and> html_esc ''t'' = ''t''" "raw_ok ''u'' \<and> html_esc ''u'' = ''u''"
    "raw_ok ''a'' \<and> html_esc ''a'' = ''a''" "raw_ok ''p'' \<and> html_esc ''p'' = ''p''"
    "raw_ok ''c'' \<and> html_esc ''c'' = ''c''" "raw_ok ''m'' \<and> html_esc ''m'' = ''m''"
  by code_simp+

lemma wire_field [simp]: "field_for wire_fields ''t'' = Some (''t'', KPInt)" "field_for wire_fields ''u'' = Some (''u'', KString)"
    "field_for wire_fields ''a'' = Some (''a'', KString)" "field_for wire_fields ''p'' = Some (''p'', KRaw)"
    "field_for wire_fields ''c'' = Some (''c'', KPInt)" "field_for wire_fields ''m'' = Some (''m'', KString)"
  by (simp_all add: field_for_def wire_fields_def)

lemma decode_wire [simp]: "ascii s \<Longrightarrow> decode_field KString cur (jstr s) = Some (Some (GStr s))"
    "int64_ok i \<Longrightarrow> decode_field KPInt cur (jint i) = Some (Some (GInt i))"
  by (simp_all add: jstr_def unquote_quote jint_def parse_int_show_int)

lemma wire_ok:
  assumes "int64_ok t" "ascii u" "ascii a" "ascii m" "payload_ok p" "case c of None \<Rightarrow> True | Some i \<Rightarrow> int64_ok i"
  shows "json_ok (wire_json t u a p c m) \<and> jdepth (wire_json t u a p c m) \<le> max_nesting"
proof -
  have j: "json_ok j \<and> jdepth j < max_nesting" if "p = Some j" for j
    using assms(5) that by (auto simp: payload_ok_def split: json.splits)
  have "0 < max_nesting" by (simp add: max_nesting_def)
  then show ?thesis using assms j wire_names_ok
    by (cases p; cases c; cases "a = []"; cases "m = []") (simp_all add: wire_json_def omitempty_def Suc_le_eq)
qed

text \<open>The fields read back from a frame on the wire.\<close>

definition wire_struct :: "int \<Rightarrow> string \<Rightarrow> string \<Rightarrow> json option \<Rightarrow> int option \<Rightarrow> string \<Rightarrow> gstruct" where
  "wire_struct t u a p c m = [''t'' \<mapsto> GInt t, ''u'' \<mapsto> GStr u](''a'' := (if a = [] then None else Some (GStr a)),
     ''p'' := map_option GRaw p, ''c'' := map_option GInt c, ''m'' := (if m = [] then None else Some (GStr m)))"

lemma wire_unmarshal:
  assumes "int64_ok t" "ascii u" "ascii a" "ascii m" "payload_ok p" "case c of None \<Rightarrow> True | Some i \<Rightarrow> int64_ok i"
  shows "json_unmarshal wire_fields (json_print (wire_json t u a p c m)) = (wire_struct t u a p c m, None)"
proof -
  have ok: "json_ok (wire_json t u a p c m)" "jdepth (wire_json t u a p c m) \<le> max_nesting" using wire_ok [OF assms] by simp_all
  show ?thesis unfolding json_unmarshal_def json_parse_print [OF ok] using assms
    by (cases p; cases c; cases "a = []"; cases "m = []")
      (auto simp: wire_json_def omitempty_def decode_struct_def wire_struct_def fun_eq_iff)
qed

lemma frame_roundtrip:
  assumes "sendable f" "frame_encode f = Inr b"
  shows "frame_parse b = Inr (frame_norm f)"
proof -
  have s: "uuid_shape (f_id f)" "payload_ok (f_payload f)" "ascii (f_action f)" "ascii (f_message f)" "int64_ok (f_code f)"
    "length b \<le> max_size" using assms by (auto simp: sendable_def)
  let ?p = "Some (case f_payload f of None \<Rightarrow> empty_object | Some j \<Rightarrow> j)"
  have p: "payload_ok ?p" using s(2) by (auto simp: payload_ok_def empty_object_def max_nesting_def split: option.splits)
  then have sw: "payload_switch ?p = ?p" by (auto simp: payload_ok_def payload_switch_def split: json.splits)
  have c: "int64_ok t_call" "int64_ok t_result" "int64_ok t_error" by (simp_all add: int64_ok_def t_call_def t_result_def t_error_def)
  have n: "t_call \<noteq> t_result" "t_call \<noteq> t_error" "t_result \<noteq> t_error" by (simp_all add: t_call_def t_result_def t_error_def)
  have pe: "(case f_payload f of None \<Rightarrow> Some empty_object | Some j \<Rightarrow> Some j) = ?p" by (simp split: option.splits)
  note u = wire_unmarshal [OF _ uuid_ascii [OF s(1)] s(3)] wire_unmarshal [OF _ uuid_ascii [OF s(1)]]
  note rd = gpint_def gstr_def graw_def gint_def wire_struct_def frame_norm_def
  consider "f_type f = t_call" | "f_type f = t_result" | "f_type f = t_error" using assms(1) by (auto simp: sendable_def split: if_splits)
  then show ?thesis
  proof cases
    case 1
    then have "b = json_print (wire_json t_call (f_id f) (f_action f) ?p None [])" "has_prefix (f_action f) ''/''" "f_code f = 0" "f_message f = []"
      using assms by (auto simp: frame_encode_def frame_json_def Let_def pe sendable_def)
    then show ?thesis using s 1 u(1) [OF c(1) _ p, of "[]" None] n sw by (auto simp: frame_parse_def rd has_prefix_def)
  next
    case 2
    then have "b = json_print (wire_json t_result (f_id f) [] ?p None [])" "f_action f = []" "f_code f = 0" "f_message f = []"
      using assms n by (auto simp: frame_encode_def frame_json_def Let_def pe sendable_def)
    then show ?thesis using s 2 u(2) [OF c(2) _ _ p, of "[]" "[]" None] n sw by (auto simp: frame_parse_def rd)
  next
    case 3
    then have "b = json_print (wire_json t_error (f_id f) [] None (Some (f_code f)) (f_message f))" "f_action f = []" "f_payload f = None"
      using assms n by (auto simp: frame_encode_def frame_json_def Let_def sendable_def)
    then show ?thesis using s 3 u(2) [OF c(3) _ s(4), of "[]" None "Some (f_code f)"] n
      by (auto simp: frame_parse_def rd payload_switch_def payload_ok_def)
  qed
qed

interpretation frames: codec frame_encode frame_parse sendable frame_norm
  by unfold_locales (rule frame_roundtrip)

text \<open>C14: what one side encodes the other side parses: \<open>Parse\<close> reads from the text of a sendable frame the frame itself,
  its missing payload as the empty object.\<close>

theorem frame_parse_encode:
  assumes "sendable f" "frame_encode f = Inr b"
  shows "frame_parse b = Inr (frame_norm f)"
  by (rule frames.dec_enc [OF assms])

theorem frame_parse_encode_witness:
  "case frame_encode \<lparr>f_type = 2, f_id = ''7f000000-0000-4000-8000-00000000000A'', f_action = ''/register'', f_payload = None, f_code = 0, f_message = []\<rparr> of
     Inl _ \<Rightarrow> False
   | Inr b \<Rightarrow> frame_parse b = Inr \<lparr>f_type = 2, f_id = ''7f000000-0000-4000-8000-00000000000A'', f_action = ''/register'',
       f_payload = Some (JObj []), f_code = 0, f_message = []\<rparr>"
proof -
  let ?f = "\<lparr>f_type = 2, f_id = ''7f000000-0000-4000-8000-00000000000A'', f_action = ''/register'', f_payload = None, f_code = 0, f_message = []\<rparr>"
  let ?b = "CHR 0x7B # CHR 0x22 # ''t'' @ CHR 0x22 # '':2,'' @ CHR 0x22 # ''u'' @ CHR 0x22 # '':'' @ CHR 0x22 # ''7f000000-0000-4000-8000-00000000000A'' @ CHR 0x22 # '','' @ CHR 0x22 # ''a'' @ CHR 0x22 # '':'' @ CHR 0x22 # ''/register'' @ CHR 0x22 # '','' @ CHR 0x22 # ''p'' @ CHR 0x22 # '':'' @ [CHR 0x7B, CHR 0x7D, CHR 0x7D]"
  have e: "frame_encode ?f = Inr ?b" by code_simp
  have "uuid_shape (f_id ?f)" by code_simp
  moreover have "length ?b \<le> max_size" by (simp add: max_size_def)
  ultimately have "sendable ?f" using e
    by (simp add: sendable_def payload_ok_def int64_ok_def t_call_def has_prefix_def ord_of_def)
  from frame_parse_encode [OF this e] show ?thesis unfolding e by (simp add: frame_norm_def empty_object_def)
qed

section \<open>Identifiers\<close>

lemma hex_byte_ok [simp]: "n < 256 \<Longrightarrow> is_hex (hex_char (n div 16))" "is_hex (hex_char (n mod 16))"
  by (simp_all add: div_less_iff_less_mult)

text \<open>\<open>NewID\<close> always gives a UUID of version 4 and of the RFC 9562 variant, whatever the random bytes are, so a frame
  built with it passes the identifier check of \<open>Parse\<close>.\<close>

lemma new_id_v4:
  assumes "length b = 16" "list_all (\<lambda>x. x < 256) b"
  shows "uuid_shape (new_id b) \<and> new_id b ! 14 = CHR ''4'' \<and> new_id b ! 19 \<in> set ''89ab''"
proof -
  obtain x0 x1 x2 x3 x4 x5 x6 x7 x8 x9 xa xb xc xd xe xf where
    b: "b = [x0, x1, x2, x3, x4, x5, x6, x7, x8, x9, xa, xb, xc, xd, xe, xf]"
    using assms(1) by (auto simp: numeral_eq_Suc length_Suc_conv)
  have v: "(x6 mod 16 + 64) div 16 = 4" "x6 mod 16 + 64 < 256" "x8 mod 64 + 128 < 256" by simp_all
  have w: "(x8 mod 64 + 128) div 16 = 8 + x8 mod 64 div 16" "x8 mod 64 div 16 < 4" by (simp_all add: div_less_iff_less_mult)
  have h4: "hex_char 4 = CHR ''4''" by code_simp
  have h8: "hex_char (8 + k) \<in> set ''89ab''" if "k < 4" for k
  proof -
    have "k = 0 \<or> k = 1 \<or> k = 2 \<or> k = 3" using that by auto
    moreover have "hex_char 8 = CHR ''8''" "hex_char 9 = CHR ''9''" "hex_char 10 = CHR ''a''" "hex_char 11 = CHR ''b''" by code_simp+
    ultimately show ?thesis by auto
  qed
  have "new_id b ! 14 = CHR ''4''" "new_id b ! 19 \<in> set ''89ab''"
    using h4 h8 [OF w(2)] by (simp_all add: b new_id_def Let_def hex_bytes_def hex_byte_def v w(1))
  moreover have "uuid_shape (new_id b)"
    using assms(2) v(2,3) by (simp add: b new_id_def Let_def hex_bytes_def hex_byte_def uuid_shape_def)
  ultimately show ?thesis by blast
qed

end
