(* ===== verification/Load.thy ===== *)
theory Load
  imports Prelude Steps
begin

text \<open>
  The counter of requests in flight and the watcher that keeps the overloaded flag in step with it (\<open>src/lib/gatewayclient/load.go\<close>).
  The operations are functions on \<open>int32\<close> values. Their interleaving is the step relation \<open>load_step\<close>, one step per atomic
  access: an \<open>Add\<close> changes the count and checks the marks later, the watcher takes the wake-up, reads the capacity, then the count,
  and only then calls \<open>SetOverloaded\<close>; a \<open>/reload\<close> stores a capacity and the registration that follows pokes the watcher.
\<close>

section \<open>Operations\<close>

text \<open>Division of \<open>int32\<close> truncates.\<close>

definition quarter :: "int \<Rightarrow> int" where
  "quarter c = (if 0 \<le> c then c div 4 else - ((- c) div 4))"

definition low :: "int \<Rightarrow> int" where
  "low capacity = wrap32 (capacity - max 1 (quarter capacity))"

definition at_mark :: "int \<Rightarrow> int \<Rightarrow> bool" where
  "at_mark capacity n \<longleftrightarrow> n \<ge> capacity \<or> n \<le> low capacity"

definition watch :: "bool \<Rightarrow> int \<Rightarrow> int \<Rightarrow> bool option" where
  "watch on capacity n = (if \<not> on \<and> n \<ge> capacity then Some True else if on \<and> n \<le> low capacity then Some False else None)"

section \<open>Interleaving\<close>

datatype watcher = Waiting | Taken | Got_capacity int | Setting bool

record load_state =
  l_n :: int
  l_capacity :: int
  l_wake :: bool
  l_on :: bool
  l_overloaded :: bool
  l_watcher :: watcher
  l_adds :: "int list"
  l_stored :: bool

text \<open>\<open>l_adds\<close> are the results of the \<open>Add\<close>s whose check of the marks is still to come; \<open>l_stored\<close> says that a capacity was
  stored and the registration with it has not yet happened.\<close>

definition load_init :: "int \<Rightarrow> load_state" where
  "load_init c = \<lparr>l_n = 0, l_capacity = c, l_wake = False, l_on = False, l_overloaded = False, l_watcher = Waiting, l_adds = [], l_stored = False\<rparr>"

inductive load_step :: "load_state \<Rightarrow> load_state \<Rightarrow> bool" where
  add: "load_step s (s\<lparr>l_n := wrap32 (l_n s + d), l_adds := wrap32 (l_n s + d) # l_adds s\<rparr>)"
| store: "0 < c \<Longrightarrow> c < 2 ^ 31 \<Longrightarrow> load_step s (s\<lparr>l_capacity := c, l_stored := True\<rparr>)"
| check: "v \<in> set (l_adds s) \<Longrightarrow>
    load_step s (s\<lparr>l_adds := remove1 v (l_adds s), l_wake := l_wake s \<or> at_mark (l_capacity s) v\<rparr>)"
| registered: "load_step s (s\<lparr>l_stored := False, l_wake := True\<rparr>)"
| take: "l_watcher s = Waiting \<Longrightarrow> l_wake s \<Longrightarrow> load_step s (s\<lparr>l_wake := False, l_watcher := Taken\<rparr>)"
| read_capacity: "l_watcher s = Taken \<Longrightarrow> load_step s (s\<lparr>l_watcher := Got_capacity (l_capacity s)\<rparr>)"
| turn: "l_watcher s = Got_capacity c \<Longrightarrow> watch (l_on s) c (l_n s) = Some b \<Longrightarrow> load_step s (s\<lparr>l_on := b, l_watcher := Setting b\<rparr>)"
| keep: "l_watcher s = Got_capacity c \<Longrightarrow> watch (l_on s) c (l_n s) = None \<Longrightarrow> load_step s (s\<lparr>l_watcher := Waiting\<rparr>)"
| set_overloaded: "l_watcher s = Setting b \<Longrightarrow> load_step s (s\<lparr>l_overloaded := b, l_watcher := Waiting\<rparr>)"

text \<open>The capacity is the one that is stored, \<open>int32(capacity)\<close>. From 1 to \<open>2 ^ 31 - 1\<close> that is the capacity itself; \<open>New\<close> and \<open>/reload\<close>
  accept larger ones too, for which the conversion gives another number (\<open>capacity_truncated\<close>): the runs here start and are reloaded within the
  range. \<open>SetOverloaded\<close>, which waits for the gateway, is one step.\<close>

definition load_start :: "load_state \<Rightarrow> bool" where
  "load_start s \<longleftrightarrow> (\<exists>c. 0 < c \<and> c < 2 ^ 31 \<and> s = load_init c)"

lemma load_startI: "0 < c \<Longrightarrow> c < 2 ^ 31 \<Longrightarrow> load_start (load_init c)"
  by (auto simp: load_start_def)

text \<open>Nothing is under way.\<close>

definition load_quiet :: "load_state \<Rightarrow> bool" where
  "load_quiet s \<longleftrightarrow> l_watcher s = Waiting \<and> \<not> l_wake s \<and> l_adds s = [] \<and> \<not> l_stored s"

section \<open>The marks\<close>

lemma low_range: "0 < c \<Longrightarrow> c < 2 ^ 31 \<Longrightarrow> 0 \<le> low c \<and> low c < c"
  by (auto simp: low_def quarter_def wrap32_def max_def)

lemma low_value: "0 < c \<Longrightarrow> c < 2 ^ 31 \<Longrightarrow> low c = c - max 1 (c div 4)"
  by (auto simp: low_def quarter_def wrap32_def max_def)

section \<open>The invariant\<close>

definition unsettled :: "load_state \<Rightarrow> bool" where
  "unsettled s \<longleftrightarrow> watch (l_on s) (l_capacity s) (l_n s) \<noteq> None"

definition load_inv :: "load_state \<Rightarrow> bool" where
  "load_inv s \<longleftrightarrow> 0 < l_capacity s \<and> l_capacity s < 2 ^ 31
     \<and> (unsettled s \<longrightarrow> l_wake s \<or> l_n s \<in> set (l_adds s) \<or> l_stored s \<or> l_watcher s = Taken \<or> l_watcher s = Got_capacity (l_capacity s))
     \<and> (\<forall>c. l_watcher s = Got_capacity c \<longrightarrow> c = l_capacity s \<or> l_stored s \<or> l_wake s)
     \<and> (case l_watcher s of Setting b \<Rightarrow> b = l_on s | _ \<Rightarrow> l_overloaded s = l_on s)"

lemma load_inv_init: "0 < c \<Longrightarrow> c < 2 ^ 31 \<Longrightarrow> load_inv (load_init c)"
  by (simp add: load_inv_def load_init_def unsettled_def watch_def)

lemma watch_settles: "0 < c \<Longrightarrow> c < 2 ^ 31 \<Longrightarrow> watch on c n = Some b \<Longrightarrow> watch b c n = None"
  using low_range [of c] by (auto simp: watch_def split: if_splits)

lemma watch_mark: "watch on c n \<noteq> None \<Longrightarrow> at_mark c n"
  by (auto simp: watch_def at_mark_def split: if_splits)

lemma load_inv_step: "load_step s s' \<Longrightarrow> load_inv s \<Longrightarrow> load_inv s'"
proof (induction rule: load_step.induct)
  case (check v s)
  show ?case
  proof (cases "v = l_n s \<and> unsettled s")
    case True
    then have "at_mark (l_capacity s) v" using watch_mark by (auto simp: unsettled_def)
    with check show ?thesis by (auto simp: load_inv_def unsettled_def split: watcher.splits)
  next
    case False
    with check show ?thesis by (auto simp: load_inv_def unsettled_def split: watcher.splits)
  qed
next
  case (turn s c b)
  show ?case
  proof (cases "c = l_capacity s")
    case True
    with turn have "watch b (l_capacity s) (l_n s) = None" using watch_settles [of c] by (auto simp: load_inv_def)
    with turn show ?thesis by (auto simp: load_inv_def unsettled_def)
  next
    case False
    with turn show ?thesis by (auto simp: load_inv_def unsettled_def)
  qed
qed (auto simp: load_inv_def unsettled_def split: watcher.splits)

text \<open>With a capacity of \<open>2 ^ 31\<close> a process that serves nothing reports itself overloaded.\<close>

lemma capacity_truncated: "watch False (wrap32 (2 ^ 31)) 0 = Some True"
  by (simp add: watch_def wrap32_def)

interpretation load: invariant load_start load_step load_inv
  by unfold_locales (auto simp: load_start_def intro: load_inv_init load_inv_step)

text \<open>C27: however the requests, the watcher and a reload interleave, once nothing is under way the flag the client has been given is
  the right one: set only above three quarters of the capacity, clear only below the capacity. No wake-up is lost.\<close>

theorem load_settled:
  assumes "reach load_start load_step s" "load_quiet s"
  shows "(if l_overloaded s then l_capacity s - max 1 (l_capacity s div 4) < l_n s else l_n s < l_capacity s)"
proof -
  note inv = load.reach_inv [OF assms(1)]
  with assms(2) have "\<not> unsettled s" "l_overloaded s = l_on s" "0 < l_capacity s" "l_capacity s < 2 ^ 31"
    by (auto simp: load_inv_def load_quiet_def)
  then show ?thesis using low_value [of "l_capacity s"] by (auto simp: unsettled_def watch_def split: if_splits)
qed

section \<open>The watcher comes to rest\<close>

text \<open>The steps that finish what is under way, no new request and no reload among them.\<close>

definition load_work :: "load_state \<Rightarrow> nat" where
  "load_work s = 5 * length (l_adds s) + (if l_stored s then 5 else 0) + (if l_wake s then 4 else 0)
     + (case l_watcher s of Waiting \<Rightarrow> 0 | Setting _ \<Rightarrow> 1 | Got_capacity _ \<Rightarrow> 2 | Taken \<Rightarrow> 3)"

lemma load_progress: "\<not> load_quiet s \<Longrightarrow> \<exists>s'. load_step s s' \<and> load_work s' < load_work s \<and> l_n s' = l_n s \<and> l_capacity s' = l_capacity s"
proof (cases "l_watcher s")
  case Waiting
  assume q: "\<not> load_quiet s"
  show ?thesis
  proof (cases "l_wake s")
    case True
    with Waiting show ?thesis by (intro exI [of _ "s\<lparr>l_wake := False, l_watcher := Taken\<rparr>"]) (auto simp: load_work_def intro: load_step.take)
  next
    case False
    with q Waiting consider v where "v \<in> set (l_adds s)" | "l_stored s" by (cases "l_adds s") (auto simp: load_quiet_def)
    then show ?thesis
    proof cases
      case 1
      then have "length (remove1 v (l_adds s)) < length (l_adds s)" using length_pos_if_in_set [OF 1] by (simp add: length_remove1)
      with False Waiting load_step.check [OF 1] show ?thesis
        by (intro exI [of _ "s\<lparr>l_adds := remove1 v (l_adds s), l_wake := l_wake s \<or> at_mark (l_capacity s) v\<rparr>"])
          (simp add: load_work_def)
    next
      case 2
      with False Waiting show ?thesis by (intro exI [of _ "s\<lparr>l_stored := False, l_wake := True\<rparr>"]) (auto simp: load_work_def intro: load_step.registered)
    qed
  qed
next
  case Taken
  then show ?thesis by (intro exI [of _ "s\<lparr>l_watcher := Got_capacity (l_capacity s)\<rparr>"]) (auto simp: load_work_def intro: load_step.read_capacity)
next
  case (Got_capacity c)
  show ?thesis
  proof (cases "watch (l_on s) c (l_n s)")
    case None
    with Got_capacity show ?thesis by (intro exI [of _ "s\<lparr>l_watcher := Waiting\<rparr>"]) (auto simp: load_work_def intro: load_step.keep)
  next
    case (Some b)
    with Got_capacity show ?thesis by (intro exI [of _ "s\<lparr>l_on := b, l_watcher := Setting b\<rparr>"]) (auto simp: load_work_def intro: load_step.turn)
  qed
next
  case (Setting b)
  then show ?thesis by (intro exI [of _ "s\<lparr>l_overloaded := b, l_watcher := Waiting\<rparr>"]) (auto simp: load_work_def intro: load_step.set_overloaded)
qed

interpretation load_rest: resting load_start load_step load_inv load_quiet load_work "\<lambda>s. (l_n s, l_capacity s)"
  by unfold_locales (use load_progress in auto)

text \<open>C28: from every state the pending checks and the watcher can come to rest, and there the flag is right for the count and the
  capacity as they were: the watcher never blocks on what it has itself to do.\<close>

theorem load_comes_to_rest:
  assumes "reach load_start load_step s"
  shows "\<exists>s'. load_step\<^sup>*\<^sup>* s s' \<and> load_quiet s' \<and> l_n s' = l_n s \<and> l_capacity s' = l_capacity s
     \<and> (l_overloaded s' \<longrightarrow> low (l_capacity s) < l_n s) \<and> (\<not> l_overloaded s' \<longrightarrow> l_n s < l_capacity s)"
proof -
  from load_rest.rests_inv [OF assms] obtain s' where s': "load_step\<^sup>*\<^sup>* s s'" "load_quiet s'" "load_inv s'" "l_n s' = l_n s"
    "l_capacity s' = l_capacity s" by blast
  then have "\<not> unsettled s'" "l_overloaded s' = l_on s'" by (auto simp: load_inv_def load_quiet_def)
  with s' show ?thesis by (intro exI [of _ s']) (auto simp: unsettled_def watch_def split: if_splits)
qed

text \<open>One request at a capacity of one: counted, checked, and announced.\<close>

lemma sample_run: "load_step\<^sup>*\<^sup>* (load_init 1) ((load_init 1)\<lparr>l_n := 1, l_on := True, l_overloaded := True\<rparr>)"
proof -
  let ?i = "load_init 1"
  note [trans] = rtranclp.rtrancl_into_rtrancl
  have "load_step\<^sup>*\<^sup>* ?i ?i" by simp
  also have "load_step \<dots> (?i\<lparr>l_n := 1, l_adds := [1]\<rparr>)" using add [of ?i 1] by (simp add: load_init_def wrap32_def)
  also have "load_step \<dots> (?i\<lparr>l_n := 1, l_wake := True\<rparr>)"
    using check [of 1 "?i\<lparr>l_n := 1, l_adds := [1]\<rparr>"] by (simp add: load_init_def at_mark_def)
  also have "load_step \<dots> (?i\<lparr>l_n := 1, l_watcher := Taken\<rparr>)"
    using take [of "?i\<lparr>l_n := 1, l_wake := True\<rparr>"] by (simp add: load_init_def)
  also have "load_step \<dots> (?i\<lparr>l_n := 1, l_watcher := Got_capacity 1\<rparr>)"
    using read_capacity [of "?i\<lparr>l_n := 1, l_watcher := Taken\<rparr>"] by (simp add: load_init_def)
  also have "load_step \<dots> (?i\<lparr>l_n := 1, l_on := True, l_watcher := Setting True\<rparr>)"
    using turn [of "?i\<lparr>l_n := 1, l_watcher := Got_capacity 1\<rparr>" 1 True] by (simp add: load_init_def watch_def)
  also have "load_step \<dots> (?i\<lparr>l_n := 1, l_on := True, l_overloaded := True\<rparr>)"
    using set_overloaded [of "?i\<lparr>l_n := 1, l_on := True, l_watcher := Setting True\<rparr>" True] by (simp add: load_init_def)
  finally show ?thesis .
qed

theorem load_settled_witness:
  "reach load_start load_step ((load_init 1)\<lparr>l_n := 1, l_on := True, l_overloaded := True\<rparr>) \<and> (1 :: int) - max 1 (1 div 4) < 1"
proof -
  let ?s = "(load_init 1)\<lparr>l_n := 1, l_on := True, l_overloaded := True\<rparr>"
  have r: "reach load_start load_step ?s" using reach_run [OF reach_start [where start = load_start] sample_run] by (simp add: load_startI)
  have q: "load_quiet ?s" by (simp add: load_quiet_def load_init_def)
  from load_settled [OF r q] r show ?thesis by (simp add: load_init_def)
qed

theorem load_comes_to_rest_witness: "\<exists>s'. load_step\<^sup>*\<^sup>* (load_init 4) s' \<and> load_quiet s'"
proof -
  have "reach load_start load_step (load_init 4)" by (rule reach_start) (simp add: load_startI)
  from load_comes_to_rest [OF this] show ?thesis by blast
qed

end
