(* ===== verification/Status.thy ===== *)
theory Status
  imports Prelude Steps
begin

text \<open>
  The \<open>/status\<close> calls of the gateway client (\<open>SetOverloaded\<close>, \<open>syncStatus\<close> in \<open>src/lib/gatewayclient/client.go\<close>, the
  registration in \<open>runSession\<close> and the beginning of \<open>drain\<close> in \<open>src/lib/gatewayclient/session.go\<close>), as a step relation over
  any number of threads. One step is one section under a mutex, or one access outside of any. \<open>statusMu\<close> is held across the
  call to the gateway; a call may be heard or lost. Sessions are numbered in the order of their registration.
\<close>

section \<open>State and steps\<close>

datatype spc = Idle | Registered nat | Asked nat | Holding nat | Sending nat string | Heard nat string
  | Drain_asked nat | Drain_held nat

record status_state =
  c_overloaded :: bool
  c_active :: "nat option"
  c_sessions :: nat
  c_lock :: "nat option"
  v_draining :: "nat \<Rightarrow> bool"
  v_said :: "nat \<Rightarrow> string"
  v_sent :: "nat \<Rightarrow> string list"
  t_pc :: "nat \<Rightarrow> spc"

text \<open>\<open>v_said\<close> is \<open>session.said\<close>; \<open>v_sent\<close> is what the gateway heard on the session, in order.\<close>

definition want :: "status_state \<Rightarrow> string" where
  "want s = (if c_overloaded s then ''overloaded'' else ''ready'')"

definition status_init :: status_state where
  "status_init = \<lparr>c_overloaded = False, c_active = None, c_sessions = 0, c_lock = None, v_draining = (\<lambda>_. False), v_said = (\<lambda>_. []),
     v_sent = (\<lambda>_. []), t_pc = (\<lambda>_. Idle)\<rparr>"

definition goto :: "nat \<Rightarrow> spc \<Rightarrow> status_state \<Rightarrow> status_state" where
  "goto t p s = s\<lparr>t_pc := (t_pc s)(t := p)\<rparr>"

inductive status_step :: "status_state \<Rightarrow> status_state \<Rightarrow> bool" where
  set_overloaded: "t_pc s t = Idle \<Longrightarrow>
    status_step s (goto t (case c_active s of None \<Rightarrow> Idle | Some v \<Rightarrow> Asked v) (s\<lparr>c_overloaded := on\<rparr>))"
| connect: "t_pc s t = Idle \<Longrightarrow> c_active s = None \<Longrightarrow>
    status_step s (goto t (Registered (c_sessions s)) (s\<lparr>c_active := Some (c_sessions s), c_sessions := Suc (c_sessions s)\<rparr>))"
| say_ready: "t_pc s t = Registered v \<Longrightarrow> status_step s (goto t (Asked v) (s\<lparr>v_said := (v_said s)(v := ''ready'')\<rparr>))"
| acquire: "t_pc s t = Asked v \<Longrightarrow> c_lock s = None \<Longrightarrow> status_step s (goto t (Holding v) (s\<lparr>c_lock := Some t\<rparr>))"
| skip: "t_pc s t = Holding v \<Longrightarrow> c_active s \<noteq> Some v \<or> v_draining s v \<or> v_said s v = want s \<Longrightarrow>
    status_step s (goto t Idle (s\<lparr>c_lock := None\<rparr>))"
| decide: "t_pc s t = Holding v \<Longrightarrow> c_active s = Some v \<Longrightarrow> \<not> v_draining s v \<Longrightarrow> v_said s v \<noteq> want s \<Longrightarrow>
    status_step s (goto t (Sending v (want s)) s)"
| hear: "t_pc s t = Sending v w \<Longrightarrow> status_step s (goto t (Heard v w) (s\<lparr>v_sent := (v_sent s)(v := v_sent s v @ [w])\<rparr>))"
| lose: "t_pc s t = Sending v w \<Longrightarrow> status_step s (goto t (Heard v w) s)"
| settle: "t_pc s t = Heard v w \<Longrightarrow> status_step s (goto t Idle (s\<lparr>v_said := (v_said s)(v := w), c_lock := None\<rparr>))"
| drain: "t_pc s t = Idle \<Longrightarrow> c_active s = Some v \<Longrightarrow> status_step s (goto t (Drain_asked v) s)"
| drain_acquire: "t_pc s t = Drain_asked v \<Longrightarrow> c_lock s = None \<Longrightarrow>
    status_step s (goto t (Drain_held v) (s\<lparr>c_lock := Some t, v_draining := (v_draining s)(v := True)\<rparr>))"
| drain_hear: "t_pc s t = Drain_held v \<Longrightarrow>
    status_step s (goto t Idle (s\<lparr>c_lock := None, v_sent := (v_sent s)(v := v_sent s v @ [''draining''])\<rparr>))"
| drain_lose: "t_pc s t = Drain_held v \<Longrightarrow> status_step s (goto t Idle (s\<lparr>c_lock := None\<rparr>))"
| disconnect: "c_active s = Some v \<Longrightarrow> status_step s (s\<lparr>c_active := None\<rparr>)"

section \<open>Invariants\<close>

fun holds :: "spc \<Rightarrow> bool" where
  "holds (Holding v) = True"
| "holds (Sending v w) = True"
| "holds (Heard v w) = True"
| "holds (Drain_held v) = True"
| "holds p = False"

text \<open>\<open>statusMu\<close> is held by exactly the thread whose counter says so.\<close>

definition mutex :: "status_state \<Rightarrow> bool" where
  "mutex s \<longleftrightarrow> (\<forall>t. holds (t_pc s t) \<longleftrightarrow> c_lock s = Some t)"

definition not_after :: "string list \<Rightarrow> bool" where
  "not_after xs \<longleftrightarrow> (\<forall>as bs. xs = as @ ''draining'' # bs \<longrightarrow> set bs \<subseteq> {''draining''})"

definition drain_inv :: "status_state \<Rightarrow> bool" where
  "drain_inv s \<longleftrightarrow> (\<forall>t v w. t_pc s t = Sending v w \<longrightarrow> \<not> v_draining s v \<and> w \<noteq> ''draining'')
     \<and> (\<forall>t v. t_pc s t = Drain_held v \<longrightarrow> v_draining s v)
     \<and> (\<forall>v. ''draining'' \<in> set (v_sent s v) \<longrightarrow> v_draining s v) \<and> (\<forall>v. not_after (v_sent s v))"

text \<open>Whoever still has to compare the flag with what was said.\<close>

definition due :: "status_state \<Rightarrow> nat \<Rightarrow> bool" where
  "due s v \<longleftrightarrow> (\<exists>t. t_pc s t \<in> {Registered v, Asked v, Holding v})"

definition in_step :: "status_state \<Rightarrow> nat \<Rightarrow> bool" where
  "in_step s v \<longleftrightarrow> due s v \<or> (\<exists>t. t_pc s t \<in> {Sending v (want s), Heard v (want s)})
     \<or> (\<forall>t w. t_pc s t \<noteq> Sending v w \<and> t_pc s t \<noteq> Heard v w) \<and> v_said s v = want s"

definition sync_inv :: "status_state \<Rightarrow> bool" where
  "sync_inv s \<longleftrightarrow> (\<forall>v. c_active s = Some v \<and> \<not> v_draining s v \<longrightarrow> in_step s v)"

lemma goto_sel [simp]: "c_overloaded (goto t p s) = c_overloaded s" "c_active (goto t p s) = c_active s" "c_sessions (goto t p s) = c_sessions s"
    "c_lock (goto t p s) = c_lock s" "v_draining (goto t p s) = v_draining s" "v_said (goto t p s) = v_said s" "v_sent (goto t p s) = v_sent s"
    "t_pc (goto t p s) = (t_pc s)(t := p)" "want (goto t p s) = want s"
  by (simp_all add: goto_def want_def)

lemma want_upd [simp]: "want (s\<lparr>c_active := a\<rparr>) = want s" "want (s\<lparr>c_lock := l\<rparr>) = want s" "want (s\<lparr>v_said := d\<rparr>) = want s"
    "want (s\<lparr>v_sent := e\<rparr>) = want s" "want (s\<lparr>v_draining := f\<rparr>) = want s" "want (s\<lparr>c_sessions := n\<rparr>) = want s"
  by (simp_all add: want_def)

lemma mutex_keep: "mutex s \<Longrightarrow> holds p = holds (t_pc s t) \<Longrightarrow> c_lock s' = c_lock s \<Longrightarrow> t_pc s' = t_pc s \<Longrightarrow> mutex (goto t p s')"
  by (auto simp: mutex_def)

lemma mutex_take: "mutex s \<Longrightarrow> c_lock s = None \<Longrightarrow> holds p \<Longrightarrow> c_lock s' = Some t \<Longrightarrow> t_pc s' = t_pc s \<Longrightarrow> mutex (goto t p s')"
  by (auto simp: mutex_def)

lemma mutex_free: "mutex s \<Longrightarrow> holds (t_pc s t) \<Longrightarrow> \<not> holds p \<Longrightarrow> c_lock s' = None \<Longrightarrow> t_pc s' = t_pc s \<Longrightarrow> mutex (goto t p s')"
  by (auto simp: mutex_def)

lemma mutex_step: "status_step s s' \<Longrightarrow> mutex s \<Longrightarrow> mutex s'"
proof (induction rule: status_step.induct)
  case (set_overloaded s t on)
  then show ?case by (intro mutex_keep [of s]) (auto split: option.splits)
next
  case (connect s t)
  then show ?case by (intro mutex_keep [of s]) auto
next
  case (say_ready s t v)
  then show ?case by (intro mutex_keep [of s]) auto
next
  case (acquire s t v)
  then show ?case by (intro mutex_take [of s]) auto
next
  case (skip s t v)
  then show ?case by (intro mutex_free [of s]) auto
next
  case (decide s t v)
  then show ?case by (intro mutex_keep [of s]) auto
next
  case (hear s t v w)
  then show ?case by (intro mutex_keep [of s]) auto
next
  case (lose s t v w)
  then show ?case by (intro mutex_keep [of s]) auto
next
  case (settle s t v w)
  then show ?case by (intro mutex_free [of s]) auto
next
  case (drain s t v)
  then show ?case by (intro mutex_keep [of s]) auto
next
  case (drain_acquire s t v)
  then show ?case by (intro mutex_take [of s]) auto
next
  case (drain_hear s t v)
  then show ?case by (intro mutex_free [of s]) auto
next
  case (drain_lose s t v)
  then show ?case by (intro mutex_free [of s]) auto
next
  case (disconnect s v)
  then show ?case by (simp add: mutex_def)
qed

lemma not_after_snoc: "''draining'' \<notin> set xs \<Longrightarrow> not_after (xs @ [w])"
proof -
  assume n: "''draining'' \<notin> set xs"
  have "set bs \<subseteq> {''draining''}" if "xs @ [w] = as @ ''draining'' # bs" for as bs
  proof (cases bs rule: rev_cases)
    case (snoc cs c)
    with that have "xs = as @ ''draining'' # cs" by (simp flip: append_assoc)
    with n show ?thesis by simp
  qed simp
  then show ?thesis by (simp add: not_after_def)
qed

lemma not_after_draining: "not_after xs \<Longrightarrow> not_after (xs @ [''draining''])"
proof -
  assume x: "not_after xs"
  have "set bs \<subseteq> {''draining''}" if "xs @ [''draining''] = as @ ''draining'' # bs" for as bs
  proof (cases bs rule: rev_cases)
    case (snoc cs c)
    with that have "xs = as @ ''draining'' # cs" "c = ''draining''" by (simp_all flip: append_assoc)
    with x snoc show ?thesis by (auto simp: not_after_def)
  qed simp
  then show ?thesis by (simp add: not_after_def)
qed

lemma mutex_none: "mutex s \<Longrightarrow> c_lock s = None \<Longrightarrow> \<not> holds (t_pc s t)"
  by (simp add: mutex_def)

lemma mutex_one: "mutex s \<Longrightarrow> holds (t_pc s t) \<Longrightarrow> holds (t_pc s t') \<Longrightarrow> t' = t"
  by (auto simp: mutex_def)

lemma drain_inv_upd:
  assumes "drain_inv s" "v_draining s' = v_draining s" "v_sent s' = v_sent s" "t_pc s' = t_pc s"
    and "\<And>v w. p = Sending v w \<Longrightarrow> \<not> v_draining s v \<and> w \<noteq> ''draining''" "\<And>v. p = Drain_held v \<Longrightarrow> v_draining s v"
  shows "drain_inv (goto t p s')"
  using assms unfolding drain_inv_def by auto

lemma drain_inv_step: "status_step s s' \<Longrightarrow> mutex s \<Longrightarrow> drain_inv s \<Longrightarrow> drain_inv s'"
proof (induction rule: status_step.induct)
  case (set_overloaded s t on)
  then show ?case by (intro drain_inv_upd [of s]) (auto split: option.splits)
next
  case (connect s t)
  then show ?case by (intro drain_inv_upd [of s]) auto
next
  case (say_ready s t v)
  then show ?case by (intro drain_inv_upd [of s]) auto
next
  case (acquire s t v)
  then show ?case by (intro drain_inv_upd [of s]) auto
next
  case (skip s t v)
  then show ?case by (intro drain_inv_upd [of s]) auto
next
  case (decide s t v)
  then show ?case by (intro drain_inv_upd [of s]) (auto simp: want_def)
next
  case (hear s t v w)
  then have "\<not> v_draining s v" "w \<noteq> ''draining''" by (auto simp: drain_inv_def)
  moreover from this hear have n: "''draining'' \<notin> set (v_sent s v)" by (auto simp: drain_inv_def)
  ultimately show ?case using hear not_after_snoc [OF n, of w] by (auto simp: drain_inv_def)
next
  case (lose s t v w)
  then show ?case by (intro drain_inv_upd [of s]) auto
next
  case (settle s t v w)
  then show ?case by (intro drain_inv_upd [of s]) auto
next
  case (drain s t v)
  then show ?case by (intro drain_inv_upd [of s]) auto
next
  case (drain_acquire s t v)
  have "t_pc s t' \<noteq> Sending u w" for t' u w using mutex_none [OF drain_acquire(3,2), of t'] by auto
  with drain_acquire show ?case by (auto simp: drain_inv_def)
next
  case (drain_hear s t v)
  then have "v_draining s v" by (auto simp: drain_inv_def)
  with drain_hear not_after_draining [of "v_sent s v"] show ?case by (auto simp: drain_inv_def)
next
  case (drain_lose s t v)
  then show ?case by (intro drain_inv_upd [of s]) auto
next
  case (disconnect s v)
  then show ?case by (simp add: drain_inv_def)
qed

fun about :: "spc \<Rightarrow> nat option" where
  "about (Registered v) = Some v"
| "about (Asked v) = Some v"
| "about (Holding v) = Some v"
| "about (Sending v w) = Some v"
| "about (Heard v w) = Some v"
| "about p = None"

lemma in_step_other:
  assumes "in_step s v" "about (t_pc s t) \<noteq> Some v" "about p \<noteq> Some v" "t_pc s' = t_pc s" "v_said s' v = v_said s v" "want s' = want s"
  shows "in_step (goto t p s') v"
proof -
  have k: "t_pc (goto t p s') t' = q \<longleftrightarrow> t_pc s t' = q" if "about q = Some v" for t' q using assms(2-4) that by (cases "t' = t") auto
  show ?thesis using assms(1,5,6) unfolding in_step_def due_def by (simp add: k del: goto_sel(8))
qed

lemma in_step_due: "p \<in> {Registered v, Asked v, Holding v} \<Longrightarrow> in_step (goto t p s) v"
  unfolding in_step_def due_def by (intro disjI1 exI [of _ t]) simp

lemma in_step_heard:
  assumes "in_step s v" "t_pc s t = Sending v w" "t_pc s' = t_pc s" "v_said s' = v_said s" "want s' = want s"
  shows "in_step (goto t (Heard v w) s') v"
  using assms(1) [unfolded in_step_def]
proof (elim disjE)
  assume "due s v"
  then obtain t' where "t_pc s t' \<in> {Registered v, Asked v, Holding v}" by (auto simp: due_def)
  moreover from this assms(2) have "t' \<noteq> t" by auto
  ultimately show ?thesis unfolding in_step_def due_def using assms(3) by (intro disjI1 exI [of _ t']) simp
next
  assume "\<exists>t'. t_pc s t' \<in> {Sending v (want s), Heard v (want s)}"
  then obtain t' where "t_pc s t' \<in> {Sending v (want s), Heard v (want s)}" by blast
  with assms show ?thesis unfolding in_step_def by (intro disjI2 disjI1 exI [of _ t']) auto
qed (use assms(2) in blast)

lemma in_step_settled:
  assumes "in_step s v" "t_pc s t = Heard v w" "mutex s"
  shows "in_step (goto t Idle (s\<lparr>v_said := (v_said s)(v := w), c_lock := None\<rparr>)) v"
  using assms(1) [unfolded in_step_def]
proof (elim disjE)
  assume "due s v"
  then obtain t' where "t_pc s t' \<in> {Registered v, Asked v, Holding v}" by (auto simp: due_def)
  moreover from this assms(2) have "t' \<noteq> t" by auto
  ultimately show ?thesis unfolding in_step_def due_def by (intro disjI1 exI [of _ t']) simp
next
  have one: "t' = t" if "t_pc s t' = Sending v u \<or> t_pc s t' = Heard v u" for t' u using mutex_one [OF assms(3), of t t'] assms(2) that by auto
  assume "\<exists>t'. t_pc s t' \<in> {Sending v (want s), Heard v (want s)}"
  then obtain t' where t': "t_pc s t' = Sending v (want s) \<or> t_pc s t' = Heard v (want s)" by blast
  with one have "t' = t" by blast
  with t' assms(2) have "w = want s" by auto
  then show ?thesis unfolding in_step_def using one by (intro disjI2) auto
qed (use assms(2) in blast)

lemma sync_inv_step: "status_step s s' \<Longrightarrow> mutex s \<Longrightarrow> sync_inv s \<Longrightarrow> sync_inv s'"
  unfolding sync_inv_def
proof (induction rule: status_step.induct)
  case (set_overloaded s t on)
  then show ?case by (auto intro: in_step_due)
next
  case (connect s t)
  then show ?case by (auto intro: in_step_due)
next
  case (say_ready s t v)
  have "in_step (goto t (Asked v) (s\<lparr>v_said := (v_said s)(v := ''ready'')\<rparr>)) u" if "in_step s u" for u
    using that say_ready(1) by (cases "u = v") (auto intro: in_step_due in_step_other [of s])
  with say_ready(3) show ?case by simp
next
  case (acquire s t v)
  have "in_step (goto t (Holding v) (s\<lparr>c_lock := Some t\<rparr>)) u" if "in_step s u" for u
    using that acquire(1) by (cases "u = v") (auto intro: in_step_due in_step_other [of s])
  with acquire(4) show ?case by simp
next
  case (skip s t v)
  have "in_step (goto t Idle (s\<lparr>c_lock := None\<rparr>)) u" if u: "c_active s = Some u" "\<not> v_draining s u" for u
  proof (cases "u = v")
    case True
    have "t_pc s t' \<noteq> Sending v w \<and> t_pc s t' \<noteq> Heard v w" for t' w using mutex_one [OF skip(3), of t t'] skip(1) by (cases "t' = t") auto
    with True u skip(2) show ?thesis by (auto simp: in_step_def)
  next
    case False
    with skip u show ?thesis by (intro in_step_other [of s]) auto
  qed
  then show ?case by simp
next
  case (decide s t v)
  have "in_step (goto t (Sending v (want s)) s) u" if u: "c_active s = Some u" for u
    using u decide(2) unfolding in_step_def by (intro disjI2 disjI1 exI [of _ t]) simp
  then show ?case by simp
next
  case (hear s t v w)
  have "in_step (goto t (Heard v w) (s\<lparr>v_sent := (v_sent s)(v := v_sent s v @ [w])\<rparr>)) u" if "in_step s u" for u
    using that hear(1) by (cases "u = v") (auto intro: in_step_heard [of s] in_step_other [of s])
  with hear(3) show ?case by simp
next
  case (lose s t v w)
  have "in_step (goto t (Heard v w) s) u" if "in_step s u" for u
    using that lose(1) by (cases "u = v") (auto intro: in_step_heard [of s] in_step_other [of s])
  with lose(3) show ?case by simp
next
  case (settle s t v w)
  have "in_step (goto t Idle (s\<lparr>v_said := (v_said s)(v := w), c_lock := None\<rparr>)) u" if "in_step s u" for u
    using that settle(1,2) by (cases "u = v") (auto intro: in_step_settled in_step_other [of s])
  with settle(3) show ?case by simp
next
  case (drain s t v)
  then show ?case by (auto intro: in_step_other [of s])
next
  case (drain_acquire s t v)
  then show ?case by (auto intro: in_step_other [of s])
next
  case (drain_hear s t v)
  then show ?case by (auto intro: in_step_other [of s])
next
  case (drain_lose s t v)
  then show ?case by (auto intro: in_step_other [of s])
next
  case (disconnect s v)
  then show ?case by simp
qed

interpretation status: invariant "\<lambda>s. s = status_init" status_step "\<lambda>s. mutex s \<and> drain_inv s \<and> sync_inv s"
proof
  fix s assume "s = status_init"
  then show "mutex s \<and> drain_inv s \<and> sync_inv s"
    by (auto simp: status_init_def mutex_def drain_inv_def sync_inv_def not_after_def)
next
  fix s s' assume "status_step s s'" "mutex s \<and> drain_inv s \<and> sync_inv s"
  then show "mutex s' \<and> drain_inv s' \<and> sync_inv s'" using mutex_step drain_inv_step sync_inv_step by blast
qed

section \<open>Properties\<close>

text \<open>C25: on one socket the gateway never hears ready or overloaded after draining, whatever threads race the drain: the transition the
  gateway would refuse is never sent.\<close>

theorem nothing_after_draining:
  assumes "reach (\<lambda>s. s = status_init) status_step s" "v_sent s v = as @ ''draining'' # bs"
  shows "set bs \<subseteq> {''draining''}"
  using status.reach_inv [OF assms(1)] assms(2) unfolding drain_inv_def not_after_def by blast

text \<open>C29: when no status call is under way, what the client believes to have said on its live session is the overloaded flag as it is.\<close>

theorem said_in_step:
  assumes "reach (\<lambda>s. s = status_init) status_step s" "\<And>t. t_pc s t = Idle" "c_active s = Some v" "\<not> v_draining s v"
  shows "v_said s v = (if c_overloaded s then ''overloaded'' else ''ready'')"
  using status.reach_inv [OF assms(1)] assms(2-4) by (auto simp: sync_inv_def in_step_def due_def want_def)

section \<open>The race of the registration\<close>

text \<open>A step in which no call to the gateway is lost, and one that leaves no gap between the session becoming active and the first write
  of its \<open>said\<close>: whoever has registered takes that very step.\<close>

definition lossless :: "status_state \<Rightarrow> status_state \<Rightarrow> bool" where
  "lossless s s' \<longleftrightarrow> status_step s s'
     \<and> (\<forall>t v w. t_pc s t = Sending v w \<and> t_pc s' t \<noteq> Sending v w \<longrightarrow> v_sent s' v = v_sent s v @ [w])
     \<and> (\<forall>t v. t_pc s t = Drain_held v \<and> t_pc s' t \<noteq> Drain_held v \<longrightarrow> v_sent s' v = v_sent s v @ [''draining''])"

definition gapless :: "status_state \<Rightarrow> status_state \<Rightarrow> bool" where
  "gapless s s' \<longleftrightarrow> lossless s s' \<and> (\<forall>t v. t_pc s t = Registered v \<longrightarrow> t_pc s' t = Asked v)"

text \<open>The last word the gateway heard on a session; a session starts as ready.\<close>

definition last_word :: "status_state \<Rightarrow> nat \<Rightarrow> string" where
  "last_word s v = (if v_sent s v = [] then ''ready'' else last (v_sent s v))"

definition at_rest :: "status_state \<Rightarrow> nat \<Rightarrow> bool" where
  "at_rest s v \<longleftrightarrow> (\<forall>t. t_pc s t = Idle) \<and> c_active s = Some v \<and> \<not> v_draining s v"

fun session_of :: "spc \<Rightarrow> nat option" where
  "session_of Idle = None"
| "session_of (Registered v) = Some v"
| "session_of (Asked v) = Some v"
| "session_of (Holding v) = Some v"
| "session_of (Sending v w) = Some v"
| "session_of (Heard v w) = Some v"
| "session_of (Drain_asked v) = Some v"
| "session_of (Drain_held v) = Some v"

text \<open>Sessions that are yet to come have no traces.\<close>

definition numbered :: "status_state \<Rightarrow> bool" where
  "numbered s \<longleftrightarrow> (\<forall>v. c_active s = Some v \<longrightarrow> v < c_sessions s) \<and> (\<forall>t v. session_of (t_pc s t) = Some v \<longrightarrow> v < c_sessions s)
     \<and> (\<forall>v. c_sessions s \<le> v \<longrightarrow> v_sent s v = [])"

lemma numberedD:
  assumes "numbered s"
  shows "c_active s = Some v \<Longrightarrow> v < c_sessions s" "session_of (t_pc s t) = Some v \<Longrightarrow> v < c_sessions s" "c_sessions s \<le> v \<Longrightarrow> v_sent s v = []"
  using assms unfolding numbered_def by blast+

lemma numbered_upd:
  assumes "numbered s" "\<And>v. session_of p = Some v \<Longrightarrow> v < c_sessions s'" "t_pc s' = t_pc s" "c_sessions s \<le> c_sessions s'"
    and "\<And>v. c_active s' = Some v \<Longrightarrow> v < c_sessions s'" "\<And>v. c_sessions s' \<le> v \<Longrightarrow> v_sent s' v = []"
  shows "numbered (goto t p s')"
proof -
  have "v < c_sessions s'" if "session_of (((t_pc s)(t := p)) u) = Some v" for u v
    using that assms(2,4) numberedD(2) [OF assms(1), of u v] by (cases "u = t") auto
  with assms(3,5,6) show ?thesis unfolding numbered_def by simp
qed

lemma numbered_same:
  assumes "numbered s" "session_of p \<in> {None, session_of (t_pc s t), c_active s}" "t_pc s' = t_pc s" "c_sessions s' = c_sessions s" "c_active s' = c_active s"
    and "\<And>v. c_sessions s \<le> v \<Longrightarrow> v_sent s' v = v_sent s v"
  shows "numbered (goto t p s')"
proof (rule numbered_upd [OF assms(1)])
  show "v < c_sessions s'" if "session_of p = Some v" for v using that assms(2,4) numberedD(1,2) [OF assms(1)] by (metis empty_iff insert_iff option.distinct(1))
qed (use assms numberedD [OF assms(1)] in simp_all)

lemma numbered_step: "status_step s s' \<Longrightarrow> numbered s \<Longrightarrow> numbered s'"
proof (induction rule: status_step.induct)
  case (set_overloaded s t on)
  then show ?case by (intro numbered_same [of s]) (simp_all split: option.splits)
next
  case (connect s t)
  then show ?case using numberedD(3) [OF connect(3)] by (intro numbered_upd [of s]) simp_all
next
  case (hear s t v w)
  then show ?case using numberedD(2) [OF hear(2), of t v] by (intro numbered_same [of s]) auto
next
  case (drain_hear s t v)
  then show ?case using numberedD(2) [OF drain_hear(2), of t v] by (intro numbered_same [of s]) auto
next
  case (disconnect s v)
  then show ?case by (simp add: numbered_def)
qed (intro numbered_same; simp)+

text \<open>What is believed to be said is what was heard, or is about to be written.\<close>

definition told :: "status_state \<Rightarrow> nat \<Rightarrow> bool" where
  "told s v \<longleftrightarrow> (\<exists>t. t_pc s t = Heard v (last_word s v)) \<or> (\<forall>t w. t_pc s t \<noteq> Heard v w) \<and> last_word s v = v_said s v"

definition told_inv :: "status_state \<Rightarrow> bool" where
  "told_inv s \<longleftrightarrow> (\<forall>t v. t_pc s t = Registered v \<longrightarrow> v_sent s v = [] \<and> (\<forall>t' w. t_pc s t' \<noteq> Heard v w))
     \<and> (\<forall>v < c_sessions s. v_draining s v \<or> (\<exists>t. t_pc s t = Registered v) \<or> told s v)"

lemma told_invD:
  assumes "told_inv s"
  shows "t_pc s t = Registered v \<Longrightarrow> v_sent s v = []" "t_pc s t = Registered v \<Longrightarrow> t_pc s t' \<noteq> Heard v w"
    "v < c_sessions s \<Longrightarrow> \<not> v_draining s v \<Longrightarrow> (\<And>t. t_pc s t \<noteq> Registered v) \<Longrightarrow> told s v"
  using assms unfolding told_inv_def by blast+

lemma told_keep:
  assumes "told s v" "\<And>w. t_pc s t \<noteq> Heard v w" "\<And>w. p \<noteq> Heard v w" "t_pc s' = t_pc s" "v_sent s' v = v_sent s v" "v_said s' v = v_said s v"
  shows "told (goto t p s') v"
proof -
  have "t_pc (goto t p s') u = Heard v w \<longleftrightarrow> t_pc s u = Heard v w" for u w using assms(2-4) by auto
  moreover have "last_word (goto t p s') v = last_word s v" using assms(5) by (simp add: last_word_def)
  ultimately show ?thesis using assms(1,6) by (simp add: told_def del: goto_sel(8))
qed

text \<open>A step of a thread that is not registering, with nobody else registering: it keeps what is told of every session but one.\<close>

lemma told_inv_move:
  assumes "told_inv s" "\<And>u v. t_pc s u \<noteq> Registered v" "\<And>v. p \<noteq> Registered v" "t_pc s' = t_pc s" "c_sessions s' = c_sessions s"
    and "\<And>v. v < c_sessions s \<Longrightarrow> \<not> v_draining s v \<Longrightarrow> \<not> v_draining s' v \<Longrightarrow> told s v \<Longrightarrow> told (goto t p s') v" "\<And>v. v_draining s v \<Longrightarrow> v_draining s' v"
  shows "told_inv (goto t p s')"
proof -
  have "t_pc (goto t p s') u \<noteq> Registered v" for u v using assms(2-4) by simp
  moreover have "v_draining s' v \<or> told (goto t p s') v" if "v < c_sessions s" for v
    using told_invD(3) [OF assms(1) that _ assms(2)] assms(6) [OF that] assms(7) by blast
  ultimately show ?thesis using assms(5) unfolding told_inv_def by auto
qed

lemma told_step:
  assumes "gapless s s'" "mutex s" "drain_inv s" "numbered s" "told_inv s"
  shows "told_inv s'"
proof (cases "\<exists>t v. t_pc s t = Registered v")
  case True
  then obtain t v where r: "t_pc s t = Registered v" by blast
  with assms(1) have p: "t_pc s' t = Asked v" and st: "status_step s s'" by (auto simp: gapless_def lossless_def)
  from st have s': "s' = goto t (Asked v) (s\<lparr>v_said := (v_said s)(v := ''ready'')\<rparr>)"
    by cases (use r p in \<open>auto split: if_splits option.splits\<close>)
  have "t_pc s' u \<noteq> Registered x" for u x
  proof
    assume u: "t_pc s' u = Registered x"
    then have "t_pc s u = Registered x" using s' by (auto split: if_splits)
    with assms(1) have "t_pc s' u = Asked x" by (simp add: gapless_def)
    with u show False by simp
  qed
  moreover have "told s' v" using told_invD(1,2) [OF assms(5) r] s' by (auto simp: told_def last_word_def)
  moreover have "told s' x" if "x \<noteq> v" "told s x" for x unfolding s' using that r by (intro told_keep [of s]) auto
  moreover have "t_pc s u \<noteq> Registered x" if "x \<noteq> v" for u x
  proof
    assume u: "t_pc s u = Registered x"
    with assms(1) have "t_pc s' u = Asked x" by (simp add: gapless_def)
    with u that r s' show False by (cases "u = t") auto
  qed
  then have "v_draining s x \<or> told s x" if "x \<noteq> v" "x < c_sessions s" for x using told_invD(3) [OF assms(5) that(2)] that(1) by blast
  ultimately have "v_draining s x \<or> told s' x" if "x < c_sessions s" for x using that by (cases "x = v") auto
  moreover have "v_draining s' = v_draining s" "c_sessions s' = c_sessions s" using s' by simp_all
  ultimately show ?thesis using \<open>\<And>u x. t_pc s' u \<noteq> Registered x\<close> unfolding told_inv_def by simp
next
  case False
  then have n: "t_pc s t \<noteq> Registered v" for t v by blast
  from assms(1) have st: "status_step s s'" and lo: "t_pc s t = Sending v w \<Longrightarrow> t_pc s' t \<noteq> Sending v w \<Longrightarrow> v_sent s' v = v_sent s v @ [w]" for t v w
    by (auto simp: gapless_def lossless_def)
  note move = told_inv_move [OF assms(5) n]
  have one: "u = t" if "holds (t_pc s t)" "holds (t_pc s u)" for t u using mutex_one [OF assms(2) that] .
  from st show ?thesis
  proof cases
    case (set_overloaded t on)
    have "told_inv (goto t p (s\<lparr>c_overloaded := on\<rparr>))" if "p = Idle \<or> (\<exists>v. p = Asked v)" for p
      using that set_overloaded(2) by (intro move) (auto intro!: told_keep [of s])
    with set_overloaded(1) show ?thesis by (simp split: option.splits)
  next
    case (connect t)
    have k: "told s' v" if "told s v" for v unfolding connect(1) using that connect(2) by (intro told_keep [of s]) auto
    have h: "t_pc s u \<noteq> Heard (c_sessions s) w" for u w using numberedD(2) [OF assms(4), of u "c_sessions s"] by auto
    have "t_pc s' u = Registered v \<longleftrightarrow> u = t \<and> v = c_sessions s" for u v using n connect(1) by auto
    moreover have "v_sent s' (c_sessions s) = []" "\<And>u w. t_pc s' u \<noteq> Heard (c_sessions s) w" using numberedD(3) [OF assms(4)] h connect(1) by auto
    moreover have "v_draining s' v \<or> told s' v" if "v < c_sessions s" for v
      using told_invD(3) [OF assms(5) that _ n] k connect(1) by auto
    moreover have "c_sessions s' = Suc (c_sessions s)" using connect(1) by simp
    ultimately show ?thesis unfolding told_inv_def by (metis less_antisym)
  next
    case (say_ready t v)
    with n show ?thesis by blast
  next
    case (acquire t v)
    then show ?thesis by (auto intro!: move told_keep [of s])
  next
    case (skip t v)
    then show ?thesis by (auto intro!: move told_keep [of s])
  next
    case (decide t v)
    then show ?thesis by (auto intro!: move told_keep [of s])
  next
    case (hear t v w)
    have "told s' x" if "told s x" for x
    proof (cases "x = v")
      case True
      have "t_pc s' t = Heard v (last_word s' v)" using hear(1) by (simp add: last_word_def)
      with True show ?thesis unfolding told_def by blast
    next
      case False
      with that hear show ?thesis by (auto intro!: told_keep [of s])
    qed
    then show ?thesis unfolding hear(1) by (intro move) auto
  next
    case (lose t v w)
    then have "v_sent s' v = v_sent s v @ [w]" by (intro lo [of t]) auto
    with lose(1) show ?thesis by simp
  next
    case (settle t v w)
    have "told s' x" if "told s x" for x
    proof (cases "x = v")
      case True
      have u: "u = t" if "t_pc s u = Heard v w'" for u w' using one [of t u] settle(2) that by simp
      then have "t_pc s' u \<noteq> Heard v w'" for u w' using settle(1) by auto
      moreover from \<open>told s x\<close> True settle(2) obtain u where "t_pc s u = Heard v (last_word s v)" unfolding told_def by blast
      with u [of u] settle(2) have "last_word s v = w" by auto
      ultimately show ?thesis using True settle(1) by (auto simp: told_def last_word_def)
    next
      case False
      with that settle show ?thesis by (auto intro!: told_keep [of s])
    qed
    then show ?thesis unfolding settle(1) by (intro move) auto
  next
    case (drain t v)
    then show ?thesis by (auto intro!: move told_keep [of s])
  next
    case (drain_acquire t v)
    then show ?thesis by (auto intro!: move told_keep [of s] split: if_splits)
  next
    case (drain_hear t v)
    then have "v_draining s v" using assms(3) by (auto simp: drain_inv_def)
    with drain_hear show ?thesis by (auto intro!: move told_keep [of s])
  next
    case (drain_lose t v)
    then show ?thesis by (auto intro!: move told_keep [of s])
  next
    case (disconnect v)
    have "told (s\<lparr>c_active := None\<rparr>) x = told s x" for x by (simp add: told_def last_word_def)
    with disconnect(1) assms(5) show ?thesis by (simp add: told_inv_def)
  qed
qed

interpretation gapless: invariant "\<lambda>s. s = status_init" gapless "\<lambda>s. (mutex s \<and> drain_inv s \<and> sync_inv s) \<and> numbered s \<and> told_inv s"
proof
  fix s assume "s = status_init"
  then show "(mutex s \<and> drain_inv s \<and> sync_inv s) \<and> numbered s \<and> told_inv s"
    using status.starts by (auto simp: status_init_def numbered_def told_inv_def)
next
  fix s s' assume g: "gapless s s'" and i: "(mutex s \<and> drain_inv s \<and> sync_inv s) \<and> numbered s \<and> told_inv s"
  then have "status_step s s'" by (simp add: gapless_def lossless_def)
  with g i status.keeps numbered_step told_step show "(mutex s' \<and> drain_inv s' \<and> sync_inv s') \<and> numbered s' \<and> told_inv s'" by blast
qed

lemma gapless_agrees:
  assumes "reach (\<lambda>s. s = status_init) gapless s" "at_rest s v"
  shows "last_word s v = want s"
proof -
  note i = gapless.reach_inv [OF assms(1)]
  have r: "\<And>t. t_pc s t = Idle" "c_active s = Some v" "\<not> v_draining s v" using assms(2) by (auto simp: at_rest_def)
  have "v_said s v = want s" using i r by (auto simp: sync_inv_def in_step_def due_def)
  moreover have "told s v" using told_invD(3) [of s v] numberedD(1) [of s v] i r by auto
  ultimately show ?thesis using r(1) by (auto simp: told_def)
qed

text \<open>A schedule of two threads, thread 0 registering and thread 1 the watcher: it names who takes which step.\<close>

lemma lossless_step: "status_step s s' \<Longrightarrow> (\<And>t. t_pc s t \<notin> range (case_prod Sending) \<union> range Drain_held) \<Longrightarrow> lossless s s'"
  by (auto simp: lossless_def image_iff)

lemma set_over: "t_pc s t = Idle \<Longrightarrow> c_active s = Some v \<Longrightarrow> status_step s (goto t (Asked v) (s\<lparr>c_overloaded := on\<rparr>))"
  using set_overloaded [of s t on] by simp

definition race_end :: status_state where
  "race_end = status_init\<lparr>c_active := Some 0, c_sessions := 1, v_said := (v_said status_init)(0 := ''ready''), v_sent := (v_sent status_init)(0 := [''overloaded''])\<rparr>"

lemma race: "lossless\<^sup>*\<^sup>* status_init race_end"
proof -
  note [trans] = rtranclp.rtrancl_into_rtrancl
  let ?i = status_init
  define s1 where "s1 = goto 0 (Registered 0) (?i\<lparr>c_active := Some 0, c_sessions := 1\<rparr>)"
  define s2 where "s2 = goto 1 (Asked 0) (s1\<lparr>c_overloaded := True\<rparr>)"
  define s3 where "s3 = goto 1 (Holding 0) (s2\<lparr>c_lock := Some 1\<rparr>)"
  define s4 where "s4 = goto 1 (Sending 0 ''overloaded'') s3"
  define s5 where "s5 = goto 1 (Heard 0 ''overloaded'') (s4\<lparr>v_sent := (v_sent s4)(0 := v_sent s4 0 @ [''overloaded''])\<rparr>)"
  define s6 where "s6 = goto 1 Idle (s5\<lparr>v_said := (v_said s5)(0 := ''overloaded''), c_lock := None\<rparr>)"
  define s7 where "s7 = goto 0 (Asked 0) (s6\<lparr>v_said := (v_said s6)(0 := ''ready'')\<rparr>)"
  define s8 where "s8 = goto 1 (Asked 0) (s7\<lparr>c_overloaded := False\<rparr>)"
  define s9 where "s9 = goto 1 (Holding 0) (s8\<lparr>c_lock := Some 1\<rparr>)"
  define s10 where "s10 = goto 1 Idle (s9\<lparr>c_lock := None\<rparr>)"
  define s11 where "s11 = goto 0 (Holding 0) (s10\<lparr>c_lock := Some 0\<rparr>)"
  define s12 where "s12 = goto 0 Idle (s11\<lparr>c_lock := None\<rparr>)"
  note d = s1_def s2_def s3_def s4_def s5_def s6_def s7_def s8_def s9_def s10_def s11_def status_init_def want_def
  have "lossless\<^sup>*\<^sup>* ?i ?i" by simp
  also have "lossless ?i s1" using connect [of ?i 0] by (intro lossless_step) (auto simp: d)
  also have "lossless s1 s2" by (intro lossless_step, unfold s2_def, rule set_over) (auto simp: d)
  also have "lossless s2 s3" by (intro lossless_step, unfold s3_def, rule acquire) (auto simp: d)
  also have "lossless s3 s4" using decide [of s3 1 0] by (intro lossless_step) (auto simp: d)
  also have "lossless s4 s5" using hear [of s4 1 0 "''overloaded''"] by (auto simp: lossless_def s5_def s4_def)
  also have "lossless s5 s6" by (intro lossless_step, unfold s6_def, rule settle) (auto simp: d)
  also have "lossless s6 s7" by (intro lossless_step, unfold s7_def, rule say_ready) (auto simp: d)
  also have "lossless s7 s8" by (intro lossless_step, unfold s8_def, rule set_over) (auto simp: d)
  also have "lossless s8 s9" by (intro lossless_step, unfold s9_def, rule acquire) (auto simp: d)
  also have "lossless s9 s10" by (intro lossless_step, unfold s10_def, rule skip [where v = 0]) (auto simp: d)
  also have "lossless s10 s11" by (intro lossless_step, unfold s11_def, rule acquire) (auto simp: d)
  also have "lossless s11 s12" by (intro lossless_step, unfold s12_def, rule skip [where v = 0]) (auto simp: d)
  also have "s12 = race_end" unfolding race_end_def by (rule status_state.equality) (simp_all add: s12_def d fun_eq_iff)
  finally show ?thesis .
qed

lemma race_steps: "status_step\<^sup>*\<^sup>* status_init race_end"
  using race by (rule rtranclp_mono [THEN predicate2D, rotated]) (auto simp: lossless_def)

text \<open>C40: \<open>runSession\<close> writes \<open>said\<close> without \<open>statusMu\<close> after it made the session active. Even when the gateway hears every call, a
  watcher that turns the flag on and off around that write leaves the gateway with overloaded as the last word while the client is
  ready, believes to have said so, and has nothing more to send. The gap is the cause: where every registration writes \<open>said\<close> in the
  step after its session became active, and no call is lost, the gateway's last word at rest is the flag.\<close>

theorem registration_race:
  "(\<exists>s. reach (\<lambda>s. s = status_init) lossless s \<and> at_rest s 0 \<and> \<not> c_overloaded s \<and> v_said s 0 = ''ready'' \<and> v_sent s 0 = [''overloaded''])
   \<and> (\<forall>s v. reach (\<lambda>s. s = status_init) gapless s \<and> at_rest s v \<longrightarrow> last_word s v = (if c_overloaded s then ''overloaded'' else ''ready''))"
proof
  show "\<exists>s. reach (\<lambda>s. s = status_init) lossless s \<and> at_rest s 0 \<and> \<not> c_overloaded s \<and> v_said s 0 = ''ready'' \<and> v_sent s 0 = [''overloaded'']"
    using race by (intro exI [of _ race_end]) (simp add: reach_def at_rest_def race_end_def status_init_def)
  show "\<forall>s v. reach (\<lambda>s. s = status_init) gapless s \<and> at_rest s v \<longrightarrow> last_word s v = (if c_overloaded s then ''overloaded'' else ''ready'')"
    using gapless_agrees unfolding want_def by blast
qed

definition ready_end :: status_state where
  "ready_end = status_init\<lparr>c_active := Some 0, c_sessions := 1, v_said := (v_said status_init)(0 := ''overloaded''), v_sent := (v_sent status_init)(0 := [''overloaded'']),
     c_overloaded := True\<rparr>"

text \<open>A registration without a gap, then the flag is turned on and the gateway hears it.\<close>

lemma calm: "gapless\<^sup>*\<^sup>* status_init ready_end"
proof -
  note [trans] = rtranclp.rtrancl_into_rtrancl
  let ?i = status_init
  define s1 where "s1 = goto 0 (Registered 0) (?i\<lparr>c_active := Some 0, c_sessions := 1\<rparr>)"
  define s2 where "s2 = goto 0 (Asked 0) (s1\<lparr>v_said := (v_said s1)(0 := ''ready'')\<rparr>)"
  define s3 where "s3 = goto 0 (Holding 0) (s2\<lparr>c_lock := Some 0\<rparr>)"
  define s4 where "s4 = goto 0 Idle (s3\<lparr>c_lock := None\<rparr>)"
  define s5 where "s5 = goto 1 (Asked 0) (s4\<lparr>c_overloaded := True\<rparr>)"
  define s6 where "s6 = goto 1 (Holding 0) (s5\<lparr>c_lock := Some 1\<rparr>)"
  define s7 where "s7 = goto 1 (Sending 0 ''overloaded'') s6"
  define s8 where "s8 = goto 1 (Heard 0 ''overloaded'') (s7\<lparr>v_sent := (v_sent s7)(0 := v_sent s7 0 @ [''overloaded''])\<rparr>)"
  define s9 where "s9 = goto 1 Idle (s8\<lparr>v_said := (v_said s8)(0 := ''overloaded''), c_lock := None\<rparr>)"
  note d = s1_def s2_def s3_def s4_def s5_def s6_def s7_def s8_def status_init_def want_def
  have g: "gapless s s'" if "lossless s s'" "\<And>t v. t_pc s t = Registered v \<Longrightarrow> t_pc s' t = Asked v" for s s'
    using that by (simp add: gapless_def)
  have "gapless\<^sup>*\<^sup>* ?i ?i" by simp
  also have "gapless ?i s1" using connect [of ?i 0] by (intro g lossless_step) (auto simp: d)
  also have "gapless s1 s2" by (intro g lossless_step, unfold s2_def, rule say_ready) (auto simp: d split: if_splits)
  also have "gapless s2 s3" by (intro g lossless_step, unfold s3_def, rule acquire) (auto simp: d split: if_splits)
  also have "gapless s3 s4" by (intro g lossless_step, unfold s4_def, rule skip [where v = 0]) (auto simp: d split: if_splits)
  also have "gapless s4 s5" by (intro g lossless_step, unfold s5_def, rule set_over) (auto simp: d split: if_splits)
  also have "gapless s5 s6" by (intro g lossless_step, unfold s6_def, rule acquire) (auto simp: d split: if_splits)
  also have "gapless s6 s7" using decide [of s6 1 0] by (intro g lossless_step) (auto simp: d split: if_splits)
  also have "gapless s7 s8" using hear [of s7 1 0 "''overloaded''"] by (intro g) (auto simp: lossless_def s8_def s7_def, auto simp: d split: if_splits)
  also have "gapless s8 s9" by (intro g lossless_step, unfold s9_def, rule settle) (auto simp: d split: if_splits)
  also have "s9 = ready_end" unfolding ready_end_def by (rule status_state.equality) (simp_all add: s9_def d fun_eq_iff)
  finally show ?thesis .
qed

theorem registration_race_witness: "at_rest ready_end 0 \<and> last_word ready_end 0 = ''overloaded''"
proof -
  have r: "reach (\<lambda>s. s = status_init) gapless ready_end" using calm by (simp add: reach_def)
  have a: "at_rest ready_end 0" "c_overloaded ready_end" by (simp_all add: at_rest_def ready_end_def status_init_def)
  from registration_race [THEN conjunct2, rule_format, OF conjI [OF r a(1)]] a show ?thesis by simp
qed

theorem said_in_step_witness: "v_said race_end 0 = ''ready''"
proof -
  have r: "reach (\<lambda>s. s = status_init) status_step race_end" using race_steps by (simp add: reach_def)
  from said_in_step [OF r, of 0] show ?thesis by (simp add: race_end_def status_init_def)
qed

definition drained_end :: status_state where
  "drained_end = status_init\<lparr>c_active := Some 0, c_sessions := 1, v_said := (v_said status_init)(0 := ''ready''), v_draining := (v_draining status_init)(0 := True),
     v_sent := (v_sent status_init)(0 := [''draining''])\<rparr>"

lemma sample_drain: "status_step\<^sup>*\<^sup>* status_init drained_end"
proof -
  note [trans] = rtranclp.rtrancl_into_rtrancl
  let ?i = status_init
  define s1 where "s1 = goto 0 (Registered 0) (?i\<lparr>c_active := Some 0, c_sessions := 1\<rparr>)"
  define s2 where "s2 = goto 0 (Asked 0) (s1\<lparr>v_said := (v_said s1)(0 := ''ready'')\<rparr>)"
  define s3 where "s3 = goto 0 (Holding 0) (s2\<lparr>c_lock := Some 0\<rparr>)"
  define s4 where "s4 = goto 0 Idle (s3\<lparr>c_lock := None\<rparr>)"
  define s5 where "s5 = goto 0 (Drain_asked 0) s4"
  define s6 where "s6 = goto 0 (Drain_held 0) (s5\<lparr>c_lock := Some 0, v_draining := (v_draining s5)(0 := True)\<rparr>)"
  define s7 where "s7 = goto 0 Idle (s6\<lparr>c_lock := None, v_sent := (v_sent s6)(0 := v_sent s6 0 @ [''draining''])\<rparr>)"
  note d = s1_def s2_def s3_def s4_def s5_def s6_def status_init_def want_def
  have "status_step\<^sup>*\<^sup>* ?i ?i" by simp
  also have "status_step ?i s1" using connect [of ?i 0] by (simp add: d)
  also have "status_step s1 s2" unfolding s2_def by (rule say_ready) (simp add: d)
  also have "status_step s2 s3" unfolding s3_def by (rule acquire) (simp_all add: d)
  also have "status_step s3 s4" unfolding s4_def by (rule skip [where v = 0]) (simp_all add: d)
  also have "status_step s4 s5" unfolding s5_def by (rule drain) (simp_all add: d)
  also have "status_step s5 s6" unfolding s6_def by (rule drain_acquire) (simp_all add: d)
  also have "status_step s6 s7" unfolding s7_def by (rule drain_hear) (simp add: d)
  also have "s7 = drained_end" unfolding drained_end_def by (rule status_state.equality) (simp_all add: s7_def d fun_eq_iff)
  finally show ?thesis .
qed

theorem nothing_after_draining_witness: "v_sent drained_end 0 = [''draining''] \<and> set ([] :: string list) \<subseteq> {''draining''}"
proof -
  have r: "reach (\<lambda>s. s = status_init) status_step drained_end" using sample_drain by (simp add: reach_def)
  have e: "v_sent drained_end 0 = [] @ ''draining'' # []" by (simp add: drained_end_def)
  from nothing_after_draining [OF r e] e show ?thesis by simp
qed

end
