(* ===== verification/Gateway.thy ===== *)
theory Gateway
  imports Complex_Main Frame Load Status
begin

text \<open>
  The control plane of the gateway client (\<open>src/lib/gatewayclient/client.go\<close>, \<open>session.go\<close>): the checks of \<open>New\<close>, the
  reconnection loop of \<open>Run\<close>, one session from the token to the registration, its heartbeat loop, the commands of the gateway, the
  calls in flight and how the end of a socket is read. What the network does (tokens, dials, answers, closes, the passage of time) is
  the input of these functions, in the order in which the code meets it. The counter of requests is in \<open>Load\<close>, the
  interleaving of the \<open>/status\<close> calls in \<open>Status\<close>.
\<close>

section \<open>Configuration\<close>

datatype cstate = Offline | Connecting | Ready | Overloaded | Draining

datatype gevent = Ev_connect_failed | Ev_handshake_rejected | Ev_refused | Ev_registered | Ev_disconnected | Ev_replaced | Ev_drained

record registration =
  reg_address :: string
  reg_prefixes :: "string list"
  reg_capacity :: int

record gconfig =
  g_url :: string
  g_module :: string
  g_instance :: string
  g_version :: string
  g_build :: string
  g_address :: string
  g_listen_port :: int
  g_prefixes :: "string list"
  g_capacity :: int
  g_token :: bool
  g_http_client :: bool
  g_drain_deadline :: int

text \<open>\<open>g_token\<close> and \<open>g_http_client\<close> say whether the hook was given; durations are in nanoseconds.\<close>

record gclient =
  gc_cfg :: gconfig
  gc_state :: cstate
  gc_reg :: registration
  gc_capacity :: int

datatype cfg_error = No_URL | Bad_segment | No_version | No_prefix | Bad_capacity | No_token | No_address | Cannot_capture | Bad_prefix string

definition seg_char :: "char \<Rightarrow> bool" where
  "seg_char c \<longleftrightarrow> is_lower c \<or> is_digit c \<or> c = CHR ''_'' \<or> c = CHR ''-''"

definition segment_re :: "string \<Rightarrow> bool" where
  "segment_re s \<longleftrightarrow> s \<noteq> [] \<and> (is_lower (hd s) \<or> is_digit (hd s)) \<and> list_all seg_char (tl s) \<and> length s \<le> 63"

definition prefix_re :: "string \<Rightarrow> bool" where
  "prefix_re s \<longleftrightarrow> has_prefix s ''/api/v2/'' \<and> drop 8 s \<noteq> [] \<and> list_all (\<lambda>c. seg_char c \<or> c = CHR ''/'') (drop 8 s)"

definition seconds :: "int \<Rightarrow> int" where
  "seconds n = n * 1000000000"

definition client_new :: "gconfig \<Rightarrow> cfg_error + gclient" where
  "client_new cfg =
     (if g_url cfg = [] then Inl No_URL
      else if \<not> segment_re (g_module cfg) \<or> \<not> segment_re (g_instance cfg) then Inl Bad_segment
      else if g_version cfg = [] then Inl No_version
      else if g_prefixes cfg = [] then Inl No_prefix
      else if g_capacity cfg < 1 then Inl Bad_capacity
      else if \<not> g_token cfg then Inl No_token
      else if g_address cfg = [] \<and> g_listen_port cfg = 0 then Inl No_address
      else if g_address cfg = [] \<and> g_http_client cfg then Inl Cannot_capture
      else case find (\<lambda>p. \<not> prefix_re p) (g_prefixes cfg) of Some p \<Rightarrow> Inl (Bad_prefix p)
        | None \<Rightarrow> let cfg' = (if g_drain_deadline cfg = 0 then cfg\<lparr>g_drain_deadline := seconds 30\<rparr> else cfg) in
            Inr \<lparr>gc_cfg = cfg', gc_state = Offline,
              gc_reg = \<lparr>reg_address = g_address cfg, reg_prefixes = g_prefixes cfg, reg_capacity = g_capacity cfg\<rparr>,
              gc_capacity = wrap32 (g_capacity cfg)\<rparr>)"

section \<open>How a session ends\<close>

datatype ended = Drained | Going_away | Refused int string bool | Dial_failed | Lost string

text \<open>The error the reader stopped with: a close frame of the peer, or any other error.\<close>

datatype close_error = Closed int string | Broken string

definition handshake_reasons :: "string list" where
  "handshake_reasons = [''unauthorized'', ''forbidden'', ''not-found'', ''bad-request'']"

definition end_error :: "bool \<Rightarrow> close_error option \<Rightarrow> string option \<Rightarrow> ended" where
  "end_error draining ce err = (if draining then Drained
     else case ce of
       Some (Closed code r) \<Rightarrow> if code = 1001 then Going_away
         else if code = 1008 then Refused 1008 r (r \<in> set handshake_reasons)
         else Lost (case err of Some e \<Rightarrow> e | None \<Rightarrow> r)
     | Some (Broken e') \<Rightarrow> Lost (case err of Some e \<Rightarrow> e | None \<Rightarrow> e')
     | None \<Rightarrow> Lost (case err of Some e \<Rightarrow> e | None \<Rightarrow> ''socket closed''))"

section \<open>The reconnection loop\<close>

definition base_delay :: "int \<Rightarrow> int" where
  "base_delay attempt = min (seconds (2 ^ nat (min attempt 5))) (seconds 30)"

text \<open>The random number is a rational in \<open>[0, 1)\<close>; the rounding of \<open>float64\<close> is not modelled.\<close>

definition default_reconnect :: "int \<Rightarrow> rat \<Rightarrow> int" where
  "default_reconnect attempt r = \<lfloor>rat_of_int (base_delay attempt) * (1 + (r * (4 / 10) - 2 / 10))\<rfloor>"

text \<open>What a session gave, whether it ended within 30 s of its beginning, and whether the context was done when it ended or while the
  loop waited.\<close>

record outcome =
  o_registered :: bool
  o_ended :: ended
  o_quick :: bool
  o_cancelled :: bool
  o_cancelled_waiting :: bool

datatype wait = Reconnect int | After_refusal

datatype run_result = Context_done | Done

definition run_case :: "int \<Rightarrow> int \<Rightarrow> outcome \<Rightarrow> gevent \<times> wait \<times> int \<times> int" where
  "run_case attempt replaced out = (case o_ended out of
       Going_away \<Rightarrow> (let replaced' = (if o_quick out then replaced + 1 else 0) in
         (Ev_replaced, Reconnect (max attempt (replaced' - 1)), attempt + 1, replaced'))
     | Refused c m hs \<Rightarrow> (if hs then Ev_handshake_rejected else Ev_refused, After_refusal, attempt, replaced)
     | Dial_failed \<Rightarrow> (Ev_connect_failed, Reconnect attempt, attempt + 1, replaced)
     | _ \<Rightarrow> (Ev_disconnected, Reconnect attempt, attempt + 1, replaced))"

fun run_loop :: "outcome list \<Rightarrow> int \<Rightarrow> int \<Rightarrow> gevent list \<times> wait list \<times> run_result option" where
  "run_loop [] attempt replaced = ([], [], None)"
| "run_loop (out # outs) attempt replaced =
     (let attempt = (if o_registered out then 0 else attempt); ev = (if o_registered out then [Ev_registered] else []) in
      if o_cancelled out then (ev, [], Some Context_done)
      else if o_ended out = Drained then (ev @ [Ev_drained], [], Some Done)
      else case run_case attempt replaced out of (e, w, attempt', replaced') \<Rightarrow>
        if o_cancelled_waiting out then (ev @ [e], [w], Some Context_done)
        else case run_loop outs attempt' replaced' of (es, ws, res) \<Rightarrow> (ev @ e # es, w # ws, res))"

definition client_run :: "outcome list \<Rightarrow> gevent list \<times> wait list \<times> run_result option" where
  "client_run outs = run_loop outs 0 0"

section \<open>Registration\<close>

datatype dial = Dial_refused "int option" string | Dial_ok "string option"

text \<open>\<open>Dial_refused\<close> carries the status of the HTTP answer, if there was one; \<open>Dial_ok\<close> the IPv4 address of the local end, if it is
  one. The answer to \<open>/register\<close> is a frame, or the error of the call after which the reader stopped.\<close>

datatype reg_answer = Call_failed string "close_error option" | Answered frame

definition resolved :: "gclient \<Rightarrow> string option \<Rightarrow> string" where
  "resolved c local = (if reg_address (gc_reg c) \<noteq> [] then reg_address (gc_reg c)
     else (case local of Some ip \<Rightarrow> ip | None \<Rightarrow> ''127.0.0.1'') @ '':'' @ show_int (g_listen_port (gc_cfg c)))"

definition register_payload :: "gclient \<Rightarrow> string \<Rightarrow> json" where
  "register_payload c addr = json_map [(''module'', jstr (g_module (gc_cfg c))), (''instance'', jstr (g_instance (gc_cfg c))),
     (''version'', jstr (g_version (gc_cfg c))), (''build'', jstr (g_build (gc_cfg c))), (''address'', jstr addr),
     (''prefixes'', JArr (map jstr (reg_prefixes (gc_reg c)))), (''capacity'', jint (reg_capacity (gc_reg c)))]"

text \<open>The decoding of a payload; a nil payload does not decode.\<close>

definition decode_payload :: "(string \<times> jkind) list \<Rightarrow> json option \<Rightarrow> gstruct \<times> jerr option" where
  "decode_payload fs p = (case p of None \<Rightarrow> (Map.empty, Some JSyntax) | Some j \<Rightarrow> decode_struct False fs j)"

definition ack_fields :: "(string \<times> jkind) list" where
  "ack_fields = [(''heartbeat_interval'', KInt), (''gateway_node'', KString)]"

text \<open>The session up to the heartbeat loop: how it ended, or the interval of the heartbeats; and the client.\<close>

definition open_session :: "gclient \<Rightarrow> string option \<Rightarrow> dial \<Rightarrow> reg_answer \<Rightarrow> (ended + int) \<times> gclient" where
  "open_session c token d ans = (let c = c\<lparr>gc_state := Connecting\<rparr> in
     case token of None \<Rightarrow> (Inl Dial_failed, c)
     | Some _ \<Rightarrow> (case d of
         Dial_refused status text \<Rightarrow> (case status of
             Some n \<Rightarrow> (Inl (if 400 \<le> n \<and> n < 500 then Refused n text True else Dial_failed), c)
           | None \<Rightarrow> (Inl Dial_failed, c))
       | Dial_ok local \<Rightarrow> (case ans of
           Call_failed e ce \<Rightarrow> (Inl (end_error False ce (Some e)), c)
         | Answered f \<Rightarrow>
             if f_type f = t_error then (Inl (Refused (f_code f) (f_message f) False), c)
             else (case decode_payload ack_fields (f_payload f) of (g, err) \<Rightarrow>
               if err \<noteq> None \<or> gint g ''heartbeat_interval'' < 1 then (Inl (Lost ''bad /register result''), c)
               else (Inr (wrap64 (seconds (gint g ''heartbeat_interval''))),
                 c\<lparr>gc_state := Ready, gc_reg := (gc_reg c)\<lparr>reg_address := resolved c local\<rparr>\<rparr>)))))"

section \<open>Heartbeats\<close>

record drain_req =
  dr_reason :: string
  dr_deadline :: int

text \<open>What the \<open>select\<close> of the loop meets: the end of the reader, a drain, or a tick whose heartbeat is not answered in time, fails, or is
  answered.\<close>

datatype beat = Reader_done "close_error option" | Drain_request drain_req | Unanswered | Beat_failed string "close_error option" | Beat_answer "json option"

datatype loop_end = Ended ended | Start_drain drain_req | Closed_by_us string

fun beats :: "nat \<Rightarrow> beat list \<Rightarrow> loop_end option" where
  "beats n [] = None"
| "beats n (Reader_done ce # bs) = Some (Ended (end_error False ce None))"
| "beats n (Drain_request r # bs) = Some (Start_drain r)"
| "beats n (Unanswered # bs) = (if Suc n \<ge> 2 then Some (Closed_by_us ''gateway silent'') else beats (Suc n) bs)"
| "beats n (Beat_failed e ce # bs) = Some (Ended (end_error False ce (Some e)))"
| "beats n (Beat_answer p # bs) = (if gstr (fst (decode_payload [(''State'', KString)] p)) ''State'' = ''offline''
     then Some (Closed_by_us ''gateway reports offline'') else beats 0 bs)"

section \<open>Commands of the gateway\<close>

text \<open>The registration after a \<open>/reload\<close>: zero values of what the hook gives keep what was.\<close>

definition reload_changed :: "registration \<Rightarrow> registration \<Rightarrow> bool" where
  "reload_changed new cur \<longleftrightarrow> reg_address new \<noteq> [] \<and> reg_address new \<noteq> reg_address cur
     \<or> reg_capacity new \<noteq> 0 \<and> reg_capacity new \<noteq> reg_capacity cur
     \<or> reg_prefixes new \<noteq> [] \<and> reg_prefixes new \<noteq> reg_prefixes cur"

definition reload :: "registration \<Rightarrow> gclient \<Rightarrow> bool \<times> gclient" where
  "reload new c = (let cur = gc_reg c in
     if reload_changed new cur
     then (let cur1 = (if reg_address new \<noteq> [] then cur\<lparr>reg_address := reg_address new\<rparr> else cur);
               cur2 = (if reg_capacity new \<noteq> 0 then cur1\<lparr>reg_capacity := reg_capacity new\<rparr> else cur1);
               cur3 = (if reg_prefixes new \<noteq> [] then cur2\<lparr>reg_prefixes := reg_prefixes new\<rparr> else cur2)
           in (True, c\<lparr>gc_reg := cur3, gc_capacity := wrap32 (reg_capacity cur3)\<rparr>))
     else (False, c))"

datatype command_effect = No_effect | Drains drain_req | Reregisters

definition drain_fields :: "(string \<times> jkind) list" where
  "drain_fields = [(''reason'', KString), (''deadline'', KInt)]"

definition drain_of :: "gconfig \<Rightarrow> json option \<Rightarrow> drain_req" where
  "drain_of cfg p = (let g = fst (decode_payload drain_fields p) in
     \<lparr>dr_reason = (if gstr g ''reason'' = [] then ''drain'' else gstr g ''reason''),
      dr_deadline = (if gint g ''deadline'' > 0 then wrap64 (seconds (gint g ''deadline'')) else g_drain_deadline cfg)\<rparr>)"

definition command :: "int \<Rightarrow> registration option \<Rightarrow> gclient \<Rightarrow> frame \<Rightarrow> frame \<times> command_effect \<times> gclient" where
  "command in_flight on_reload c f =
     (if f_action f = ''/ping'' then (frame_result f (Some (json_map [(''in_flight'', jint in_flight)])), No_effect, c)
      else if f_action f = ''/drain'' then (frame_result f None, Drains (drain_of (gc_cfg c) (f_payload f)), c)
      else if f_action f = ''/reload'' then (case on_reload of None \<Rightarrow> (frame_result f None, No_effect, c)
        | Some new \<Rightarrow> (case reload new c of (changed, c') \<Rightarrow> (frame_result f None, if changed then Reregisters else No_effect, c')))
      else (frame_error f 404 ''unknown action'', No_effect, c))"

section \<open>Calls in flight and the reader\<close>

text \<open>\<open>session.pending\<close> with the calls numbered, and the answers handed to them.\<close>

record calls =
  ca_pending :: "(string \<times> nat) list"
  ca_answers :: "(nat \<times> frame) list"

definition call_send :: "string \<Rightarrow> nat \<Rightarrow> calls \<Rightarrow> calls" where
  "call_send i n c = c\<lparr>ca_pending := (i, n) # filter (\<lambda>p. fst p \<noteq> i) (ca_pending c)\<rparr>"

definition call_expire :: "string \<Rightarrow> calls \<Rightarrow> calls" where
  "call_expire i c = c\<lparr>ca_pending := filter (\<lambda>p. fst p \<noteq> i) (ca_pending c)\<rparr>"

definition call_answer :: "frame \<Rightarrow> calls \<Rightarrow> calls" where
  "call_answer f c = (case map_of (ca_pending c) (f_id f) of None \<Rightarrow> c
     | Some n \<Rightarrow> c\<lparr>ca_pending := filter (\<lambda>p. fst p \<noteq> f_id f) (ca_pending c), ca_answers := (n, f) # ca_answers c\<rparr>)"

datatype read_effect = Ignored | Close_too_big | Send_error frame | Delivered calls | Handle frame

definition reader_step :: "(frame_error \<Rightarrow> string) \<Rightarrow> nat list \<Rightarrow> bool \<Rightarrow> bytes \<Rightarrow> calls \<Rightarrow> read_effect" where
  "reader_step text rnd is_text data c = (if \<not> is_text then Ignored
     else case frame_parse data of
       Inl FTooLarge \<Rightarrow> Close_too_big
     | Inl e \<Rightarrow> Send_error \<lparr>f_type = t_error, f_id = new_id rnd, f_action = [], f_payload = None, f_code = 400, f_message = text e\<rparr>
     | Inr f \<Rightarrow> if f_type f = t_call then Handle f else Delivered (call_answer f c))"

section \<open>Draining\<close>

text \<open>The wait for the requests in flight: what the counter says, and what ends or continues the wait.\<close>

datatype drain_wake = Deadline | Socket_done | Poll

fun drain_wait :: "(int \<times> drain_wake) list \<Rightarrow> bool" where
  "drain_wait [] = False"
| "drain_wait ((n, wk) # ws) = (if n > 0 then (case wk of Poll \<Rightarrow> drain_wait ws | _ \<Rightarrow> True) else True)"

definition status_payload :: "string \<Rightarrow> string \<Rightarrow> json" where
  "status_payload state reason = json_map ((''state'', jstr state) # (if reason = [] then [] else [(''reason'', jstr reason)]))"

text \<open>The calls of \<open>session.drain\<close> in order, before and after the wait.\<close>

definition drain_calls :: "drain_req \<Rightarrow> (string \<times> json) list" where
  "drain_calls r = [(''/status'', status_payload ''draining'' (dr_reason r)), (''/unregister'', json_map [(''reason'', jstr (dr_reason r))])]"

text \<open>The channel \<open>drainCh\<close> of one place and \<open>drained\<close>.\<close>

record drain_chan =
  dc_pending :: "drain_req option"
  dc_drained :: bool

definition drain_ask :: "drain_req \<Rightarrow> drain_chan \<Rightarrow> drain_chan" where
  "drain_ask r d = (case dc_pending d of None \<Rightarrow> d\<lparr>dc_pending := Some r\<rparr> | Some _ \<Rightarrow> d)"

definition drain_take :: "drain_chan \<Rightarrow> drain_req option \<times> drain_chan" where
  "drain_take d = (dc_pending d, d\<lparr>dc_pending := None\<rparr>)"

definition drain_done :: "drain_chan \<Rightarrow> drain_chan" where
  "drain_done d = d\<lparr>dc_drained := True\<rparr>"

definition run_begin :: "drain_chan \<Rightarrow> drain_chan" where
  "run_begin d = d\<lparr>dc_drained := False\<rparr>"

section \<open>Properties\<close>

text \<open>A client that \<open>New\<close> accepted registers under names of one path segment, with prefixes of the API only, a capacity of at least
  one and a way to give its address.\<close>

lemma client_new_ok:
  assumes "client_new cfg = Inr c"
  shows "segment_re (g_module cfg) \<and> segment_re (g_instance cfg) \<and> CHR ''/'' \<notin> set (g_module cfg @ g_instance cfg)
     \<and> list_all prefix_re (reg_prefixes (gc_reg c)) \<and> reg_prefixes (gc_reg c) \<noteq> [] \<and> 1 \<le> reg_capacity (gc_reg c)
     \<and> gc_capacity c = wrap32 (reg_capacity (gc_reg c)) \<and> (reg_address (gc_reg c) \<noteq> [] \<or> g_listen_port (gc_cfg c) \<noteq> 0)
     \<and> g_drain_deadline (gc_cfg c) \<noteq> 0 \<and> gc_state c = Offline"
proof -
  have "\<not> is_lower CHR ''/''" "\<not> is_digit CHR ''/''" by code_simp+
  then have s: "segment_re t \<Longrightarrow> CHR ''/'' \<notin> set t" for t
    by (cases t) (auto simp: segment_re_def seg_char_def list_all_iff)
  show ?thesis using assms s by (auto simp: client_new_def Let_def find_None_iff list_all_iff seconds_def split: if_splits option.splits)
qed

text \<open>The wait before a reconnection is between 0.8 s and 36 s, whatever the attempt and the random number, and its base doubles
  from 1 s to 16 s and stays at 30 s.\<close>

lemma default_reconnect_bounds:
  assumes "0 \<le> attempt" "0 \<le> r" "r < 1"
  shows "800000000 \<le> default_reconnect attempt r \<and> default_reconnect attempt r \<le> 36000000000
     \<and> base_delay attempt = (if attempt < 5 then seconds (2 ^ nat attempt) else seconds 30)"
proof -
  have "attempt = 0 \<or> attempt = 1 \<or> attempt = 2 \<or> attempt = 3 \<or> attempt = 4 \<or> 5 \<le> attempt" using assms(1) by presburger
  then have b: "base_delay attempt = (if attempt < 5 then seconds (2 ^ nat attempt) else seconds 30)"
    by (elim disjE) (simp_all add: base_delay_def seconds_def)
  then have "seconds 1 \<le> base_delay attempt" "base_delay attempt \<le> seconds 30"
    by (simp_all add: base_delay_def seconds_def)
  then have "1000000000 \<le> rat_of_int (base_delay attempt)" "rat_of_int (base_delay attempt) \<le> 30000000000"
    by (simp_all add: seconds_def)
  then have "1000000000 * (8 / 10) \<le> rat_of_int (base_delay attempt) * (1 + (r * (4 / 10) - 2 / 10))"
    "rat_of_int (base_delay attempt) * (1 + (r * (4 / 10) - 2 / 10)) \<le> 30000000000 * (12 / 10)"
    using assms(2,3) by (intro mult_mono; simp)+
  then have "800000000 \<le> default_reconnect attempt r" "default_reconnect attempt r \<le> 36000000000"
    unfolding default_reconnect_def by (simp_all add: le_floor_iff floor_le_iff)
  with b show ?thesis by simp
qed

definition going_on :: "outcome \<Rightarrow> bool" where
  "going_on out \<longleftrightarrow> o_ended out \<noteq> Drained \<and> \<not> o_cancelled out \<and> \<not> o_cancelled_waiting out"

lemma run_on:
  "list_all going_on outs \<Longrightarrow> \<exists>es ws. run_loop outs a r = (es, ws, None) \<and> length ws = length outs"
proof (induction outs arbitrary: a r)
  case (Cons out outs)
  obtain e w a' r' where c: "run_case (if o_registered out then 0 else a) r out = (e, w, a', r')" by (metis prod.collapse)
  obtain es ws where "run_loop outs a' r' = (es, ws, None)" "length ws = length outs" using Cons(1) [of a' r'] Cons(2) by auto
  with Cons(2) c show ?case by (simp add: going_on_def Let_def)
qed simp

lemma run_app: "list_all going_on outs \<Longrightarrow> \<exists>es ws a' r'. (\<forall>outs'. run_loop (outs @ outs') a r =
    (case run_loop outs' a' r' of (es', ws', res) \<Rightarrow> (es @ es', ws @ ws', res)))"
proof (induction outs arbitrary: a r)
  case Nil
  show ?case by (intro exI [of _ "[]"] exI [of _ a] exI [of _ r]) (simp split: prod.splits)
next
  case (Cons out outs)
  obtain e w a1 r1 where c: "run_case (if o_registered out then 0 else a) r out = (e, w, a1, r1)" by (metis prod.collapse)
  obtain es ws a' r' where i: "\<forall>outs'. run_loop (outs @ outs') a1 r1 = (case run_loop outs' a' r' of (es', ws', res) \<Rightarrow> (es @ es', ws @ ws', res))"
    using Cons(1) [of a1 r1] Cons(2) by auto
  show ?case by (rule exI [of _ "(if o_registered out then [Ev_registered] else []) @ e # es"], rule exI [of _ "w # ws"], rule exI [of _ a'], rule exI [of _ r'])
      (use Cons(2) c i in \<open>simp add: going_on_def Let_def split: prod.splits\<close>)
qed

text \<open>The first session after which \<open>Run\<close> does not go on decides what it returns.\<close>

lemma run_first:
  assumes "list_all going_on pre" "\<not> going_on out"
  shows "\<exists>es ws. client_run (pre @ out # rest) = (es, ws, Some (if o_ended out = Drained \<and> \<not> o_cancelled out then Done else Context_done))
     \<and> (o_ended out = Drained \<and> \<not> o_cancelled out \<longrightarrow> (\<exists>es'. es = es' @ [Ev_drained]))"
proof -
  obtain es ws a r where k: "\<And>outs'. run_loop (pre @ outs') 0 0 = (case run_loop outs' a r of (es', ws', res) \<Rightarrow> (es @ es', ws @ ws', res))"
    using run_app [OF assms(1), of 0 0] by blast
  show ?thesis unfolding client_run_def k using assms(2) by (auto simp: going_on_def Let_def split: prod.splits)
qed

lemma run_drained:
  assumes "list_all going_on outs" "o_ended out = Drained" "\<not> o_cancelled out"
  shows "\<exists>es ws. client_run (outs @ out # rest) = (es @ [Ev_drained], ws, Some Done)"
  using run_first [OF assms(1), of out rest] assms(2,3) by (auto simp: going_on_def)

lemma first_stop:
  assumes "\<not> list_all going_on outs"
  obtains pre out rest where "outs = pre @ out # rest" "list_all going_on pre" "\<not> going_on out"
  using assms split_list_first_prop [of outs "\<lambda>x. \<not> going_on x"] unfolding list_all_iff by blast

text \<open>C32: \<open>Run\<close> does not give up: whatever the sessions end with, lost sockets, refusals, rejected handshakes or a close 1001, it waits and
  reconnects, once for every session, and does not return as long as every session ends without a drain and its context lasts; it returns
  nil exactly when the first session that ends otherwise was drained with the context alive, and then drained is the last event; it
  returns the error of its context exactly when in that session, or in the wait after it, the context is done and no drain came first.\<close>

theorem run_keeps_on:
  "(snd (snd (client_run outs)) = None \<longleftrightarrow> list_all going_on outs)
   \<and> (\<exists>es ws. client_run outs = (es, ws, None) \<and> length ws = length outs) = list_all going_on outs
   \<and> (snd (snd (client_run outs)) = Some Done \<longleftrightarrow>
        (\<exists>pre out rest. outs = pre @ out # rest \<and> list_all going_on pre \<and> o_ended out = Drained \<and> \<not> o_cancelled out))
   \<and> (snd (snd (client_run outs)) = Some Done \<longleftrightarrow> (\<exists>es ws. client_run outs = (es @ [Ev_drained], ws, Some Done)))
   \<and> (snd (snd (client_run outs)) = Some Context_done \<longleftrightarrow>
        (\<exists>pre out rest. outs = pre @ out # rest \<and> list_all going_on pre
           \<and> (o_cancelled out \<or> o_ended out \<noteq> Drained \<and> o_cancelled_waiting out)))"
proof (cases "list_all going_on outs")
  case True
  then have "\<not> (\<exists>pre out rest. outs = pre @ out # rest \<and> \<not> going_on out)" by (auto simp: list_all_iff)
  then have n: "\<nexists>pre out rest. outs = pre @ out # rest \<and> list_all going_on pre \<and> o_ended out = Drained \<and> \<not> o_cancelled out"
    "\<nexists>pre out rest. outs = pre @ out # rest \<and> list_all going_on pre \<and> (o_cancelled out \<or> o_ended out \<noteq> Drained \<and> o_cancelled_waiting out)"
    unfolding going_on_def by blast+
  obtain es ws where "client_run outs = (es, ws, None)" "length ws = length outs" using run_on [OF True, of 0 0] by (auto simp: client_run_def)
  then show ?thesis using True n by simp
next
  case False
  then obtain pre out rest where o: "outs = pre @ out # rest" "list_all going_on pre" "\<not> going_on out" by (rule first_stop)
  have same: "pre' = pre \<and> out' = out" if "outs = pre' @ out' # rest'" "list_all going_on pre'" "\<not> going_on out'" for pre' out' rest'
    using o that by (auto simp: append_eq_append_conv2 append_eq_Cons_conv Cons_eq_append_conv)
  have st: "\<not> going_on x" if "o_ended x = Drained \<and> \<not> o_cancelled x \<or> o_cancelled x \<or> o_ended x \<noteq> Drained \<and> o_cancelled_waiting x" for x
    using that by (auto simp: going_on_def)
  have d: "(\<exists>pre' out' rest'. outs = pre' @ out' # rest' \<and> list_all going_on pre' \<and> o_ended out' = Drained \<and> \<not> o_cancelled out')
      \<longleftrightarrow> o_ended out = Drained \<and> \<not> o_cancelled out" using o(1,2) same st by metis
  have c: "(\<exists>pre' out' rest'. outs = pre' @ out' # rest' \<and> list_all going_on pre' \<and> (o_cancelled out' \<or> o_ended out' \<noteq> Drained \<and> o_cancelled_waiting out'))
      \<longleftrightarrow> o_cancelled out \<or> o_ended out \<noteq> Drained \<and> o_cancelled_waiting out" using o(1,2) same st by metis
  from run_first [OF o(2,3), of rest] obtain es ws where
    r: "client_run outs = (es, ws, Some (if o_ended out = Drained \<and> \<not> o_cancelled out then Done else Context_done))"
    and l: "o_ended out = Drained \<and> \<not> o_cancelled out \<Longrightarrow> \<exists>es'. es = es' @ [Ev_drained]" unfolding o(1) [symmetric] by blast
  show ?thesis unfolding d c r using False l o(3) by (auto simp: going_on_def)
qed

lemma waits_cons: "fst (snd (case p of (es, ws, res) \<Rightarrow> (f es, w # ws, res))) = w # fst (snd p)"
  by (cases p) simp

definition replaced_at_once :: outcome where
  "replaced_at_once = \<lparr>o_registered = True, o_ended = Going_away, o_quick = True, o_cancelled = False, o_cancelled_waiting = False\<rparr>"

lemma replaced_waits: "fst (snd (run_loop (replicate n replaced_at_once) a (int k))) = map (\<lambda>i. Reconnect (int (k + i))) [0..<n]"
proof (induction n arbitrary: a k)
  case (Suc n)
  have "fst (snd (run_loop (replicate n replaced_at_once) 1 (int k + 1))) = map (\<lambda>i. Reconnect (int (Suc k + i))) [0..<n]"
    using Suc [of 1 "Suc k"] by (simp add: add.commute)
  then show ?case by (simp add: replaced_at_once_def run_case_def Let_def waits_cons map_upt_Suc del: upt_Suc)
qed simp

definition dial_failing :: outcome where
  "dial_failing = \<lparr>o_registered = False, o_ended = Dial_failed, o_quick = True, o_cancelled = False, o_cancelled_waiting = False\<rparr>"

lemma dial_waits: "fst (snd (run_loop (replicate n dial_failing) (int k) r)) = map (\<lambda>i. Reconnect (int (k + i))) [0..<n]"
proof (induction n arbitrary: k)
  case (Suc n)
  have "fst (snd (run_loop (replicate n dial_failing) (int k + 1) r)) = map (\<lambda>i. Reconnect (int (Suc k + i))) [0..<n]"
    using Suc [of "Suc k"] by (simp add: add.commute)
  then show ?case by (simp add: dial_failing_def run_case_def Let_def waits_cons map_upt_Suc del: upt_Suc)
qed simp

text \<open>The loop slows down along the schedule of attempts 0, 1, 2, \<dots>, both when the dials fail and when two instances of one name
  replace each other at once, although each of their registrations succeeds.\<close>

lemma run_slows_down:
  "fst (snd (client_run (replicate n dial_failing))) = map (\<lambda>i. Reconnect (int i)) [0..<n]
   \<and> fst (snd (client_run (replicate n replaced_at_once))) = map (\<lambda>i. Reconnect (int i)) [0..<n]"
  using dial_waits [of n 0 0] replaced_waits [of n 0 0] by (simp add: client_run_def)

lemma beats_app:
  "beats n as = None \<Longrightarrow> beats n (as @ bs) = beats (if as = [] then n else if last as = Unanswered then 1 else 0) bs"
proof (induction n as rule: beats.induct)
  case (4 n as)
  then have "n = 0" by (auto split: if_splits)
  with 4 show ?case by (cases as) auto
next
  case (6 n p as)
  then show ?case by (cases as) (auto split: if_splits)
qed auto

lemma beats_silent:
  "beats n bs = Some (Closed_by_us ''gateway silent'') \<Longrightarrow> n \<le> 1 \<Longrightarrow>
     n = 1 \<and> bs \<noteq> [] \<and> hd bs = Unanswered
     \<or> (\<exists>as rest. bs = as @ Unanswered # Unanswered # rest \<and> beats n as = None \<and> (as = [] \<longrightarrow> n = 0) \<and> (as \<noteq> [] \<longrightarrow> last as \<noteq> Unanswered))"
proof (induction n bs rule: beats.induct)
  case (4 n bs)
  show ?case
  proof (cases "n = 0")
    case True
    with 4 consider "bs \<noteq> []" "hd bs = Unanswered" | as rest where "bs = as @ Unanswered # Unanswered # rest" "beats 1 as = None" "as \<noteq> []" "last as \<noteq> Unanswered"
      by auto
    then show ?thesis
    proof cases
      case 1
      then obtain rest where "bs = Unanswered # rest" by (cases bs) auto
      with True show ?thesis by (intro disjI2 exI [of _ "[]"] exI [of _ rest]) simp
    next
      case (2 as rest)
      with True show ?thesis by (intro disjI2 exI [of _ "Unanswered # as"] exI [of _ rest]) simp
    qed
  next
    case False
    with 4(3) show ?thesis by simp
  qed
next
  case (6 n p bs)
  then have o: "gstr (fst (decode_payload [(''State'', KString)] p)) ''State'' \<noteq> ''offline''" "beats 0 bs = Some (Closed_by_us ''gateway silent'')"
    by (auto split: if_splits)
  with 6(1) obtain as rest where "bs = as @ Unanswered # Unanswered # rest" "beats 0 as = None" "as \<noteq> [] \<longrightarrow> last as \<noteq> Unanswered" by auto
  with o show ?case by (intro disjI2 exI [of _ "Beat_answer p # as"] exI [of _ rest]) auto
qed (auto simp: end_error_def)

text \<open>A session is given up for silence exactly when two heartbeats in a row go unanswered; one answer in between begins the count
  anew.\<close>

lemma silence_is_two:
  "beats 0 bs = Some (Closed_by_us ''gateway silent'')
   \<longleftrightarrow> (\<exists>as rest. bs = as @ Unanswered # Unanswered # rest \<and> beats 0 as = None \<and> (as = [] \<or> last as \<noteq> Unanswered))"
proof
  assume "beats 0 bs = Some (Closed_by_us ''gateway silent'')"
  from beats_silent [OF this] show "\<exists>as rest. bs = as @ Unanswered # Unanswered # rest \<and> beats 0 as = None \<and> (as = [] \<or> last as \<noteq> Unanswered)" by auto
next
  assume "\<exists>as rest. bs = as @ Unanswered # Unanswered # rest \<and> beats 0 as = None \<and> (as = [] \<or> last as \<noteq> Unanswered)"
  then obtain as rest where a: "bs = as @ Unanswered # Unanswered # rest" "beats 0 as = None" "as = [] \<or> last as \<noteq> Unanswered" by blast
  show "beats 0 bs = Some (Closed_by_us ''gateway silent'')" unfolding a(1) beats_app [OF a(2)] using a(3) by auto
qed

text \<open>Every command is answered once, to the call it came with; a reload changes the registration exactly when it says so, and keeps the
  capacity the counter compares with.\<close>

lemma command_answered:
  assumes "command n rl c f = (g, eff, c')"
  shows "f_id g = f_id f \<and> f_type g \<noteq> t_call \<and> (f_type g = t_error \<longleftrightarrow> f_action f \<notin> {''/ping'', ''/drain'', ''/reload''})"
  using assms by (auto simp: command_def frame_result_def frame_error_def t_call_def t_error_def t_result_def split: if_splits option.splits prod.splits)

text \<open>After a \<open>/reload\<close> the client re-registers exactly when address, capacity or prefixes changed, every value not given is kept, and
  the capacity the counter of requests compares with is the registered one.\<close>

lemma reload_sound:
  assumes "reload new c = (changed, c')" "gc_capacity c = wrap32 (reg_capacity (gc_reg c))"
  shows "(changed \<longleftrightarrow> gc_reg c' \<noteq> gc_reg c) \<and> gc_capacity c' = wrap32 (reg_capacity (gc_reg c'))
     \<and> reg_address (gc_reg c') = (if reg_address new = [] then reg_address (gc_reg c) else reg_address new)
     \<and> reg_capacity (gc_reg c') = (if reg_capacity new = 0 then reg_capacity (gc_reg c) else reg_capacity new)
     \<and> reg_prefixes (gc_reg c') = (if reg_prefixes new = [] then reg_prefixes (gc_reg c) else reg_prefixes new)"
proof -
  obtain a p n where r: "gc_reg c = \<lparr>reg_address = a, reg_prefixes = p, reg_capacity = n\<rparr>" by (cases "gc_reg c") simp
  obtain a' p' n' where new: "new = \<lparr>reg_address = a', reg_prefixes = p', reg_capacity = n'\<rparr>" by (cases new) simp
  show ?thesis
  proof (cases "reload_changed new (gc_reg c)")
    case True
    then have f: "changed" "gc_capacity c' = wrap32 (reg_capacity (gc_reg c'))"
      "gc_reg c' = \<lparr>reg_address = (if a' = [] then a else a'), reg_prefixes = (if p' = [] then p else p'), reg_capacity = (if n' = 0 then n else n')\<rparr>"
      using assms(1) by (cases "a' = []"; cases "n' = 0"; cases "p' = []"; simp add: reload_def Let_def r new; auto)+
    from True show ?thesis unfolding reload_changed_def r new f(2) f(3) using f(1) by auto
  next
    case False
    then have "\<not> changed" "c' = c" using assms(1) by (simp_all add: reload_def Let_def)
    with False assms(2) show ?thesis unfolding reload_changed_def by auto
  qed
qed

section \<open>Calls and answers\<close>

datatype call_op = Op_send string | Op_expire string | Op_answer frame

fun run_calls :: "call_op list \<Rightarrow> string list \<Rightarrow> calls \<Rightarrow> string list \<times> calls" where
  "run_calls [] ids c = (ids, c)"
| "run_calls (Op_send i # os) ids c = run_calls os (ids @ [i]) (call_send i (length ids) c)"
| "run_calls (Op_expire i # os) ids c = run_calls os ids (call_expire i c)"
| "run_calls (Op_answer f # os) ids c = run_calls os ids (call_answer f c)"

definition calls_inv :: "string list \<Rightarrow> calls \<Rightarrow> bool" where
  "calls_inv ids c \<longleftrightarrow> (\<forall>i n. (i, n) \<in> set (ca_pending c) \<longrightarrow> n < length ids \<and> ids ! n = i \<and> n \<notin> fst ` set (ca_answers c))
     \<and> (\<forall>n f. (n, f) \<in> set (ca_answers c) \<longrightarrow> n < length ids \<and> ids ! n = f_id f) \<and> distinct (map fst (ca_answers c))"

lemma calls_inv_send:
  assumes "calls_inv ids c"
  shows "calls_inv (ids @ [i]) (call_send i (length ids) c)"
proof -
  have "length ids \<notin> fst ` set (ca_answers c)" using assms by (force simp: calls_inv_def)
  moreover have "n < length ids \<and> ids ! n = j \<and> n \<notin> fst ` set (ca_answers c)" if "(j, n) \<in> set (ca_pending c)" for j n
    using assms that by (simp add: calls_inv_def)
  moreover have "n < length ids \<and> ids ! n = f_id f" if "(n, f) \<in> set (ca_answers c)" for n f using assms that by (simp add: calls_inv_def)
  moreover have "distinct (map fst (ca_answers c))" using assms by (simp add: calls_inv_def)
  ultimately show ?thesis unfolding calls_inv_def call_send_def by (simp add: nth_append less_Suc_eq) blast
qed

lemma calls_inv_expire: "calls_inv ids c \<Longrightarrow> calls_inv ids (call_expire i c)"
  unfolding calls_inv_def call_expire_def by auto

lemma calls_inv_answer: "calls_inv ids c \<Longrightarrow> calls_inv ids (call_answer f c)"
proof (cases "map_of (ca_pending c) (f_id f)")
  case (Some n)
  assume i: "calls_inv ids c"
  from Some have p: "(f_id f, n) \<in> set (ca_pending c)" by (rule map_of_SomeD)
  have pend: "m < length ids \<and> ids ! m = j \<and> m \<notin> fst ` set (ca_answers c)" if "(j, m) \<in> set (ca_pending c)" for j m
    using i that by (simp add: calls_inv_def)
  have ans: "m < length ids \<and> ids ! m = f_id g" if "(m, g) \<in> set (ca_answers c)" for m g using i that by (simp add: calls_inv_def)
  have "distinct (map fst (ca_answers c))" using i by (simp add: calls_inv_def)
  then show ?thesis unfolding calls_inv_def call_answer_def using pend [OF p]
    by (auto simp: Some dest!: pend ans)
qed (simp add: call_answer_def)

text \<open>C35: whatever order calls, answers and time-outs come in, every call is given at most one answer, and it is one that bears its id: an
  answer that comes too late reaches nobody.\<close>

theorem answered_once:
  assumes "run_calls os [] \<lparr>ca_pending = [], ca_answers = []\<rparr> = (ids, c)"
  shows "distinct (map fst (ca_answers c)) \<and> (\<forall>n f. (n, f) \<in> set (ca_answers c) \<longrightarrow> n < length ids \<and> ids ! n = f_id f)"
proof -
  have "run_calls os i0 c0 = (ids, c) \<Longrightarrow> calls_inv i0 c0 \<Longrightarrow> calls_inv ids c" for i0 c0
    by (induction os i0 c0 rule: run_calls.induct) (auto intro: calls_inv_send calls_inv_expire calls_inv_answer)
  from this [OF assms] show ?thesis by (simp add: calls_inv_def)
qed

text \<open>A drain asked for while another one runs is taken by nobody: it stays in the channel when \<open>Run\<close> has returned and ends the first
  session of the next \<open>Run\<close>.\<close>

lemma stale_drain:
  "dc_pending (run_begin (drain_done (drain_ask second (snd (drain_take (drain_ask first \<lparr>dc_pending = None, dc_drained = False\<rparr>)))))) = Some second"
  by (simp add: drain_ask_def drain_take_def drain_done_def run_begin_def)

text \<open>The wait of a drain is over as soon as a look at the counter finds no request, the deadline has passed or the socket is gone, and
  not before: a request that never ends holds it no longer than the deadline.\<close>

lemma drain_ends:
  "drain_wait ws \<longleftrightarrow> list_ex (\<lambda>(n, wk). n \<le> 0 \<or> wk \<in> {Deadline, Socket_done}) ws"
  by (induction ws rule: drain_wait.induct) (auto split: drain_wake.splits)

section \<open>Examples\<close>

definition sample_gconfig :: gconfig where
  "sample_gconfig = \<lparr>g_url = ''ws://g/gateway'', g_module = ''crm'', g_instance = ''a1'', g_version = ''1'', g_build = [], g_address = [],
     g_listen_port = 8080, g_prefixes = [''/api/v2/jobs''], g_capacity = 4, g_token = True, g_http_client = False, g_drain_deadline = 0\<rparr>"

definition sample_client :: gclient where
  "sample_client = \<lparr>gc_cfg = sample_gconfig\<lparr>g_drain_deadline := seconds 30\<rparr>, gc_state = Offline,
     gc_reg = \<lparr>reg_address = [], reg_prefixes = [''/api/v2/jobs''], reg_capacity = 4\<rparr>, gc_capacity = 4\<rparr>"

theorem run_keeps_on_witness:
  "snd (snd (client_run [dial_failing, replaced_at_once, dial_failing\<lparr>o_ended := Drained\<rparr>, dial_failing])) = Some Done
   \<and> snd (snd (client_run [dial_failing, dial_failing\<lparr>o_cancelled_waiting := True\<rparr>, dial_failing\<lparr>o_ended := Drained\<rparr>])) = Some Context_done"
proof -
  have "[dial_failing, replaced_at_once, dial_failing\<lparr>o_ended := Drained\<rparr>, dial_failing]
      = [dial_failing, replaced_at_once] @ dial_failing\<lparr>o_ended := Drained\<rparr> # [dial_failing] \<and> list_all going_on [dial_failing, replaced_at_once]"
    by (simp add: going_on_def dial_failing_def replaced_at_once_def)
  moreover have "[dial_failing, dial_failing\<lparr>o_cancelled_waiting := True\<rparr>, dial_failing\<lparr>o_ended := Drained\<rparr>]
      = [dial_failing] @ dial_failing\<lparr>o_cancelled_waiting := True\<rparr> # [dial_failing\<lparr>o_ended := Drained\<rparr>] \<and> list_all going_on [dial_failing]"
    by (simp add: going_on_def dial_failing_def)
  moreover have "o_ended (dial_failing\<lparr>o_ended := Drained\<rparr>) = Drained \<and> \<not> o_cancelled (dial_failing\<lparr>o_ended := Drained\<rparr>)"
    "o_ended (dial_failing\<lparr>o_cancelled_waiting := True\<rparr>) \<noteq> Drained \<and> o_cancelled_waiting (dial_failing\<lparr>o_cancelled_waiting := True\<rparr>)"
    by (simp_all add: dial_failing_def)
  moreover note run_keeps_on [THEN conjunct2, THEN conjunct2, THEN conjunct1, THEN iffD2]
    run_keeps_on [THEN conjunct2, THEN conjunct2, THEN conjunct2, THEN conjunct2, THEN iffD2]
  ultimately show ?thesis by blast
qed

theorem answered_once_witness: "distinct (map fst (ca_answers (snd (run_calls [Op_send ''a'', Op_expire ''a''] [] \<lparr>ca_pending = [], ca_answers = []\<rparr>))))"
  using answered_once [OF surjective_pairing, of "[Op_send ''a'', Op_expire ''a'']"] by blast

end
