(* ===== verification/Stub.thy ===== *)
theory Stub
  imports Gateway Jwt Netip
begin

text \<open>
  \<open>src/internal/gatewaystub/stub.go\<close>: the gateway's control plane as the protocol describes it, a double the module is tested against. The
  model has the handshake, the checks of \<open>/register\<close>, one step of \<open>serve\<close> for each message read from a connection, the watch of the
  heartbeats, the ends of a connection and the controls of the tests. A connection is a number; what is written to a socket and how a
  socket is closed are the effects of a step; the close of a connection that a registration replaces, which the code leaves to a goroutine of
  its own, is done at once. Instants and durations are in nanoseconds.
\<close>

section \<open>State\<close>

record stub_options =
  so_secret :: string
  so_audience :: string
  so_interval :: int
  so_suspect :: int
  so_offline :: int
  so_register_timeout :: int
  so_reject_after_upgrade :: bool

record stub_registration =
  sr_module :: string
  sr_instance :: string
  sr_version :: string
  sr_build :: string
  sr_address :: string
  sr_prefixes :: "string list"
  sr_capacity :: int

record stub =
  st_opts :: stub_options
  st_conn :: "nat option"
  st_closed :: "nat list"
  st_beats :: "(nat \<times> int) list"
  st_pending :: "(nat \<times> string) list"
  st_answers :: "(nat \<times> frame) list"
  st_registrations :: "stub_registration list"
  st_heartbeats :: "(int \<times> json option) list"
  st_statuses :: "(string \<times> string) list"
  st_unregisters :: "string list"
  st_close_codes :: "int list"
  st_rejections :: int
  st_fail_code :: int
  st_fail_msg :: string
  st_silent :: bool

text \<open>\<open>newStub\<close>: zero values take the protocol's defaults.\<close>

definition stub_new :: "stub_options \<Rightarrow> stub" where
  "stub_new o1 =
     (let o1 = (if so_interval o1 = 0 then o1\<lparr>so_interval := 5\<rparr> else o1);
          o1 = (if so_suspect o1 = 0 then o1\<lparr>so_suspect := 2\<rparr> else o1);
          o1 = (if so_offline o1 = 0 then o1\<lparr>so_offline := 4\<rparr> else o1);
          o1 = (if so_register_timeout o1 = 0 then o1\<lparr>so_register_timeout := seconds 5\<rparr> else o1)
      in \<lparr>st_opts = o1, st_conn = None, st_closed = [], st_beats = [], st_pending = [], st_answers = [], st_registrations = [],
          st_heartbeats = [], st_statuses = [], st_unregisters = [], st_close_codes = [], st_rejections = 0, st_fail_code = 0,
          st_fail_msg = [], st_silent = False\<rparr>)"

section \<open>Ends of a connection\<close>

datatype effect = Sent frame | Closes nat int string

definition stub_close :: "nat \<Rightarrow> int \<Rightarrow> string \<Rightarrow> stub \<Rightarrow> effect list \<times> stub" where
  "stub_close c code reason s = (if c \<in> set (st_closed s) then ([], s)
     else ([Closes c code reason], s\<lparr>st_closed := c # st_closed s, st_close_codes := st_close_codes s @ [code]\<rparr>))"

text \<open>The socket ended with a read error: the code of the peer's close frame, 1006 without one.\<close>

definition observe_close :: "nat \<Rightarrow> int option \<Rightarrow> stub \<Rightarrow> stub" where
  "observe_close c code s = (if c \<in> set (st_closed s) then s
     else s\<lparr>st_closed := c # st_closed s, st_close_codes := st_close_codes s @ [case code of Some k \<Rightarrow> k | None \<Rightarrow> 1006]\<rparr>)"

section \<open>Handshake\<close>

datatype handshake = No_route | Bad_segments | Unauthorized | Not_upgraded | Reject_after | Serve string string

definition stub_handle :: "mac \<Rightarrow> time \<Rightarrow> bool \<Rightarrow> string \<Rightarrow> string \<Rightarrow> stub \<Rightarrow> handshake \<times> stub" where
  "stub_handle mac now upgrades path authorization s =
     (case split_on CHR ''/'' (trim_prefix path ''/gateway/'') of
        [m, i] \<Rightarrow>
          if \<not> has_prefix path ''/gateway/'' then (No_route, s)
          else if \<not> segment_re m \<or> \<not> segment_re i then (Bad_segments, s)
          else (let tok = trim_prefix authorization ''Bearer '';
                    kr = \<lparr>audiences = [(so_audience (st_opts s), \<lparr>key_alg = ''HS256'', key_secret = so_secret (st_opts s)\<rparr>)], issuers = [''accounts.test'']\<rparr>
                in case verify mac kr tok now of
                     Inl _ \<Rightarrow> (let s1 = s\<lparr>st_rejections := st_rejections s + 1\<rparr> in
                       if \<not> so_reject_after_upgrade (st_opts s) then (Unauthorized, s1)
                       else if \<not> upgrades then (Not_upgraded, s1) else (Reject_after, s1))
                   | Inr _ \<Rightarrow> if \<not> upgrades then (Not_upgraded, s) else (Serve m i, s))
      | _ \<Rightarrow> (No_route, s))"

section \<open>The checks of a registration\<close>

text \<open>\<open>net.SplitHostPort\<close>.\<close>

definition split_host_port :: "string \<Rightarrow> (string \<times> string) option" where
  "split_host_port s = (case cut_last CHR '':'' s of None \<Rightarrow> None
     | Some (h, p) \<Rightarrow>
       if has_prefix s ''['' then
         (if h = [] \<or> last h \<noteq> CHR '']'' \<or> CHR ''['' \<in> set (tl s) \<or> CHR '']'' \<in> set (butlast h @ p) then None
          else Some (butlast (tl h), p))
       else if CHR '':'' \<in> set h \<or> CHR ''['' \<in> set s \<or> CHR '']'' \<in> set s then None else Some (h, p))"

text \<open>The four bytes of \<open>net.ParseIP(host).To4()\<close>.\<close>

definition parse_ip4 :: "string \<Rightarrow> nat list option" where
  "parse_ip4 s = (case parse_addr s of None \<Rightarrow> None
     | Some a \<Rightarrow> if no_zone a \<noteq> a then None else (case unmap a of V4 bs \<Rightarrow> Some bs | V6 _ _ \<Rightarrow> None))"

definition is_private4 :: "nat list \<Rightarrow> bool" where
  "is_private4 bs \<longleftrightarrow> bs ! 0 = 10 \<or> bs ! 0 = 172 \<and> bs ! 1 div 16 = 1 \<or> bs ! 0 = 192 \<and> bs ! 1 = 168"

definition is_loopback4 :: "nat list \<Rightarrow> bool" where
  "is_loopback4 bs \<longleftrightarrow> bs ! 0 = 127"

fun check_prefixes :: "string list \<Rightarrow> string list \<Rightarrow> (int \<times> string) option" where
  "check_prefixes seen [] = None"
| "check_prefixes seen (p # ps) =
     (if \<not> prefix_re p then Some (400, ''prefix '' @ p)
      else if list_ex (\<lambda>q. has_prefix (p @ ''/'') (q @ ''/'') \<or> has_prefix (q @ ''/'') (p @ ''/'')) seen then Some (422, ''prefixes overlap'')
      else check_prefixes (seen @ [p]) ps)"

definition registration_fields :: "(string \<times> jkind) list" where
  "registration_fields = [(''module'', KString), (''instance'', KString), (''version'', KString), (''build'', KString), (''address'', KString),
     (''prefixes'', KStrings), (''capacity'', KInt)]"

definition gstrs :: "gstruct \<Rightarrow> string \<Rightarrow> string list" where
  "gstrs g k = (case g k of Some (GStrs l) \<Rightarrow> l | _ \<Rightarrow> [])"

definition registration_of :: "gstruct \<Rightarrow> stub_registration" where
  "registration_of g = \<lparr>sr_module = gstr g ''module'', sr_instance = gstr g ''instance'', sr_version = gstr g ''version'', sr_build = gstr g ''build'',
     sr_address = gstr g ''address'', sr_prefixes = gstrs g ''prefixes'', sr_capacity = gint g ''capacity''\<rparr>"

definition check_address :: "string \<Rightarrow> (int \<times> string) option" where
  "check_address a = (case split_host_port a of None \<Rightarrow> Some (400, ''address must be ipv4:port'')
     | Some (host, port) \<Rightarrow> (case parse_ip4 host of None \<Rightarrow> Some (400, ''address must be ipv4:port'')
         | Some ip \<Rightarrow> (case parse_int port of None \<Rightarrow> Some (400, ''address port'')
             | Some n \<Rightarrow> if n < 1 \<or> n > 65535 then Some (400, ''address port'')
                 else if \<not> is_private4 ip \<and> \<not> is_loopback4 ip then Some (403, ''address outside allowed_cidr'') else None)))"

definition check_registration :: "string \<Rightarrow> string \<Rightarrow> stub_registration \<Rightarrow> (int \<times> string) option" where
  "check_registration md inst reg =
     (if sr_module reg \<noteq> md \<or> sr_instance reg \<noteq> inst then Some (422, ''module/instance differ from URL'')
      else case check_address (sr_address reg) of Some e \<Rightarrow> Some e
      | None \<Rightarrow> if sr_prefixes reg = [] then Some (400, ''prefixes empty'')
          else case check_prefixes [] (sr_prefixes reg) of Some e \<Rightarrow> Some e
          | None \<Rightarrow> if sr_capacity reg < 1 then Some (422, ''capacity'') else None)"

definition required_keys :: "string list" where
  "required_keys = [''module'', ''instance'', ''version'', ''address'', ''prefixes'', ''capacity'']"

text \<open>The keys of the payload as \<open>json.Unmarshal\<close> reads them into a map.\<close>

definition payload_keys :: "json option \<Rightarrow> string list option" where
  "payload_keys p = (case p of Some (JObj ms) \<Rightarrow> Some (map (\<lambda>m. unquote (fst m)) ms) | Some JNull \<Rightarrow> Some [] | _ \<Rightarrow> None)"

definition check_register :: "stub \<Rightarrow> frame \<Rightarrow> string \<Rightarrow> string \<Rightarrow> (int \<times> string) option" where
  "check_register s f md inst =
     (if st_fail_code s \<noteq> 0 then Some (st_fail_code s, st_fail_msg s)
      else case payload_keys (f_payload f) of None \<Rightarrow> Some (400, ''p is not an object'')
      | Some ks \<Rightarrow> (case find (\<lambda>k. k \<notin> set ks) required_keys of Some k \<Rightarrow> Some (400, ''missing '' @ k)
          | None \<Rightarrow> (case decode_payload registration_fields (f_payload f) of (g, err) \<Rightarrow>
              (case err of Some e \<Rightarrow> Some (400, jerr_text e) | None \<Rightarrow> check_registration md inst (registration_of g)))))"

section \<open>Serving a connection\<close>

definition zero_id :: string where
  "zero_id = ''00000000-0000-4000-8000-000000000000''"

definition ack_payload :: "stub_options \<Rightarrow> string \<Rightarrow> json" where
  "ack_payload o1 inst = json_map [(''heartbeat_interval'', jint (so_interval o1)), (''instance_id'', jstr inst), (''gateway_worker'', jint 4242),
     (''gateway_node'', jstr ''stub:4242''), (''suspect_after'', jint (so_suspect o1)), (''offline_after'', jint (so_offline o1))]"

definition set_beat :: "nat \<Rightarrow> int \<Rightarrow> stub \<Rightarrow> stub" where
  "set_beat c now s = s\<lparr>st_beats := (c, now) # filter (\<lambda>p. fst p \<noteq> c) (st_beats s)\<rparr>"

definition stub_register :: "nat \<Rightarrow> string \<Rightarrow> int \<Rightarrow> frame \<Rightarrow> stub \<Rightarrow> effect list \<times> stub" where
  "stub_register c inst now f s =
     (let (closes, s1) = (case st_conn s of Some old \<Rightarrow> if old \<noteq> c then stub_close old 1001 ''replaced by new registration'' s else ([], s) | None \<Rightarrow> ([], s));
          s2 = set_beat c now (s1\<lparr>st_conn := Some c,
                 st_registrations := st_registrations s1 @ [registration_of (fst (decode_payload registration_fields (f_payload f)))]\<rparr>)
      in (closes @ [Sent (frame_result f (Some (ack_payload (st_opts s) inst)))], s2))"

text \<open>One message of the connection. The result says what was written and closed, whether the connection is registered, and whether the
  loop goes on.\<close>

definition stub_call :: "nat \<Rightarrow> string \<Rightarrow> string \<Rightarrow> int \<Rightarrow> bool \<Rightarrow> frame \<Rightarrow> stub \<Rightarrow> effect list \<times> bool \<times> bool \<times> stub" where
  "stub_call c md inst now registered f s =
     (if \<not> registered \<and> f_action f \<noteq> ''/register'' then ([Sent (frame_error f 409 ''not registered'')], registered, True, s)
      else if f_action f = ''/register'' then
        (case check_register s f md inst of
           Some (code, msg) \<Rightarrow> (case stub_close c 1008 msg s of (es, s1) \<Rightarrow> (Sent (frame_error f code msg) # es, registered, False, s1))
         | None \<Rightarrow> (case stub_register c inst now f s of (es, s1) \<Rightarrow> (es, True, True, s1)))
      else if f_action f = ''/heartbeat'' then
        (let g = fst (decode_payload [(''in_flight'', KInt), (''load'', KRaw)] (f_payload f));
             s1 = set_beat c now (s\<lparr>st_heartbeats := st_heartbeats s @ [(gint g ''in_flight'', graw g ''load'')]\<rparr>)
         in (if st_silent s then [] else [Sent (frame_result f (Some (json_map [(''state'', jstr ''ready'')])))], registered, True, s1))
      else if f_action f = ''/status'' then
        (let g = fst (decode_payload [(''state'', KString), (''reason'', KString)] (f_payload f)) in
         if gstr g ''state'' \<notin> set [''ready'', ''draining'', ''overloaded''] then ([Sent (frame_error f 422 ''state'')], registered, True, s)
         else ([Sent (frame_result f None)], registered, True, s\<lparr>st_statuses := st_statuses s @ [(gstr g ''state'', gstr g ''reason'')]\<rparr>))
      else if f_action f = ''/unregister'' then
        (let g = fst (decode_payload [(''reason'', KString)] (f_payload f)) in
         ([Sent (frame_result f None)], registered, True, s\<lparr>st_unregisters := st_unregisters s @ [gstr g ''reason'']\<rparr>))
      else ([Sent (frame_error f 404 ''unknown action'')], registered, True, s))"

datatype message = Read_failed "int option" | Binary | Text bytes

definition stub_step :: "(frame_error \<Rightarrow> string) \<Rightarrow> nat \<Rightarrow> string \<Rightarrow> string \<Rightarrow> int \<Rightarrow> bool \<Rightarrow> message \<Rightarrow> stub \<Rightarrow> effect list \<times> bool \<times> bool \<times> stub" where
  "stub_step texts c md inst now registered msg s =
     (case msg of
        Read_failed code \<Rightarrow> ([], registered, False, observe_close c code s)
      | Binary \<Rightarrow> (case stub_close c 1003 ''binary frame'' s of (es, s1) \<Rightarrow> (es, registered, False, s1))
      | Text data \<Rightarrow> (case frame_parse data of
          Inl e \<Rightarrow> if e = FTooLarge then (case stub_close c 1009 ''frame too large'' s of (es, s1) \<Rightarrow> (es, registered, False, s1))
                   else ([Sent \<lparr>f_type = t_error, f_id = zero_id, f_action = [], f_payload = None, f_code = 400, f_message = texts e\<rparr>], registered, True, s)
        | Inr f \<Rightarrow> if f_type f = t_result \<or> f_type f = t_error then
              ([], registered, True, s\<lparr>st_pending := removeAll (c, f_id f) (st_pending s),
                 st_answers := (if (c, f_id f) \<in> set (st_pending s) then st_answers s @ [(c, f)] else st_answers s)\<rparr>)
            else stub_call c md inst now registered f s))"

text \<open>The timer of the registration, and a tick of the watch of the heartbeats.\<close>

definition register_timeout :: "nat \<Rightarrow> bool \<Rightarrow> stub \<Rightarrow> effect list \<times> stub" where
  "register_timeout c registered s = (if \<not> registered then stub_close c 1008 ''no /register within timeout'' s else ([], s))"

definition watch_heartbeat :: "nat \<Rightarrow> int \<Rightarrow> stub \<Rightarrow> effect list \<times> bool \<times> stub" where
  "watch_heartbeat c now s =
     (if c \<in> set (st_closed s) then ([], False, s)
      else case map_of (st_beats s) c of None \<Rightarrow> ([], True, s)
      | Some beat \<Rightarrow> if now - beat \<ge> so_offline (st_opts s) * seconds (so_interval (st_opts s))
          then (case stub_close c 4000 ''heartbeat timeout'' s of (es, s1) \<Rightarrow> (es, False, s1)) else ([], True, s))"

section \<open>Controls\<close>

definition fail_register :: "int \<Rightarrow> string \<Rightarrow> stub \<Rightarrow> stub" where
  "fail_register code msg s = s\<lparr>st_fail_code := code, st_fail_msg := msg\<rparr>"

definition silence_heartbeats :: "bool \<Rightarrow> stub \<Rightarrow> stub" where
  "silence_heartbeats on s = s\<lparr>st_silent := on\<rparr>"

definition kick :: "int \<Rightarrow> string \<Rightarrow> stub \<Rightarrow> effect list \<times> stub" where
  "kick code reason s = (case st_conn s of None \<Rightarrow> ([], s) | Some c \<Rightarrow> stub_close c code reason s)"

definition replace_conn :: "stub \<Rightarrow> effect list \<times> stub" where
  "replace_conn s = kick 1001 ''replaced by new registration'' s"

text \<open>\<open>Call\<close>; the test fails where there is no connection (\<open>None\<close>).\<close>

definition stub_ask :: "nat list \<Rightarrow> string \<Rightarrow> json option \<Rightarrow> stub \<Rightarrow> (effect list \<times> stub) option" where
  "stub_ask rnd action payload s = (case st_conn s of None \<Rightarrow> None
     | Some c \<Rightarrow> let f = new_call rnd action payload in Some ([Sent f], s\<lparr>st_pending := (c, f_id f) # st_pending s\<rparr>))"

section \<open>Facts\<close>

lemma register_payload_eq:
  "register_payload c addr = JObj [(''address'', jstr addr), (''build'', jstr (g_build (gc_cfg c))), (''capacity'', jint (reg_capacity (gc_reg c))),
     (''instance'', jstr (g_instance (gc_cfg c))), (''module'', jstr (g_module (gc_cfg c))), (''prefixes'', JArr (map jstr (reg_prefixes (gc_reg c)))),
     (''version'', jstr (g_version (gc_cfg c)))]"
proof -
  have q: "map quote [''address'', ''build'', ''capacity'', ''instance'', ''module'', ''prefixes'', ''version'']
     = [''address'', ''build'', ''capacity'', ''instance'', ''module'', ''prefixes'', ''version'']" by code_simp
  show ?thesis using q by (simp add: register_payload_def json_map_def)
qed

lemma register_keys:
  "unquote ''address'' = ''address''" "unquote ''build'' = ''build''" "unquote ''capacity'' = ''capacity''" "unquote ''instance'' = ''instance''"
  "unquote ''module'' = ''module''" "unquote ''prefixes'' = ''prefixes''" "unquote ''version'' = ''version''"
  by code_simp+

lemma register_fields:
  "field_for registration_fields ''address'' = Some (''address'', KString)" "field_for registration_fields ''build'' = Some (''build'', KString)"
  "field_for registration_fields ''capacity'' = Some (''capacity'', KInt)" "field_for registration_fields ''instance'' = Some (''instance'', KString)"
  "field_for registration_fields ''module'' = Some (''module'', KString)" "field_for registration_fields ''prefixes'' = Some (''prefixes'', KStrings)"
  "field_for registration_fields ''version'' = Some (''version'', KString)"
  by code_simp+

lemma json_strings_jstr: "list_all ascii ps \<Longrightarrow> json_strings (map jstr ps) = Some ps"
  by (induction ps) (auto simp: jstr_def unquote_quote)

text \<open>What the gateway reads from the registration of a client is what the client sent.\<close>

lemma register_decodes:
  assumes "ascii (g_module (gc_cfg c))" "ascii (g_instance (gc_cfg c))" "ascii addr" "list_all ascii (reg_prefixes (gc_reg c))" "int64_ok (reg_capacity (gc_reg c))"
  shows "\<exists>g. decode_payload registration_fields (Some (register_payload c addr)) = (g, None)
     \<and> registration_of g = \<lparr>sr_module = g_module (gc_cfg c), sr_instance = g_instance (gc_cfg c), sr_version = unquote (quote (g_version (gc_cfg c))),
          sr_build = unquote (quote (g_build (gc_cfg c))), sr_address = addr, sr_prefixes = reg_prefixes (gc_reg c), sr_capacity = reg_capacity (gc_reg c)\<rparr>"
proof -
  have j: "decode_field KString cur (jstr t) = Some (Some (GStr (unquote (quote t))))" for cur t by (simp add: jstr_def)
  have k: "decode_field KInt cur (jint (reg_capacity (gc_reg c))) = Some (Some (GInt (reg_capacity (gc_reg c))))" for cur
    using assms(5) by (simp add: jint_def parse_int_show_int)
  show ?thesis
    using assms(1-3) by (simp add: decode_payload_def decode_struct_def register_payload_eq register_keys register_fields j k json_strings_jstr [OF assms(4)] registration_of_def
      gstr_def gint_def gstrs_def unquote_quote)
qed

lemma register_checked:
  assumes "ascii (g_module (gc_cfg c))" "ascii (g_instance (gc_cfg c))" "ascii addr" "list_all ascii (reg_prefixes (gc_reg c))" "int64_ok (reg_capacity (gc_reg c))"
    and "st_fail_code s = 0" "f_payload f = Some (register_payload c addr)" "check_address addr = None" "reg_prefixes (gc_reg c) \<noteq> []"
    and "check_prefixes [] (reg_prefixes (gc_reg c)) = None" "1 \<le> reg_capacity (gc_reg c)"
  shows "check_register s f (g_module (gc_cfg c)) (g_instance (gc_cfg c)) = None"
proof -
  obtain g where g: "decode_payload registration_fields (Some (register_payload c addr)) = (g, None)"
    "registration_of g = \<lparr>sr_module = g_module (gc_cfg c), sr_instance = g_instance (gc_cfg c), sr_version = unquote (quote (g_version (gc_cfg c))),
          sr_build = unquote (quote (g_build (gc_cfg c))), sr_address = addr, sr_prefixes = reg_prefixes (gc_reg c), sr_capacity = reg_capacity (gc_reg c)\<rparr>"
    using register_decodes [OF assms(1-5)] by blast
  have "payload_keys (Some (register_payload c addr)) = Some [''address'', ''build'', ''capacity'', ''instance'', ''module'', ''prefixes'', ''version'']"
    by (simp add: payload_keys_def register_payload_eq register_keys)
  moreover have "find (\<lambda>k. k \<notin> set [''address'', ''build'', ''capacity'', ''instance'', ''module'', ''prefixes'', ''version'']) required_keys = None"
    by code_simp
  ultimately show ?thesis using assms(6-11) g by (simp add: check_register_def check_registration_def)
qed

lemma cut_last_append: "c \<notin> set t \<Longrightarrow> cut_last c (s @ c # t) = Some (s, t)"
proof -
  assume "c \<notin> set t"
  then have "takeWhile (\<lambda>x. x \<noteq> c) (rev t @ c # rev s) = rev t" by (subst takeWhile_append2) auto
  then show ?thesis by (simp add: cut_last_def)
qed

lemma loopback_address: "1 \<le> n \<Longrightarrow> n \<le> 65535 \<Longrightarrow> check_address (''127.0.0.1:'' @ show_int n) = None \<and> ascii (''127.0.0.1:'' @ show_int n)"
proof -
  assume n: "1 \<le> n" "n \<le> 65535"
  then have sh: "show_int n = show_nat (nat n)" by (simp add: show_int_def)
  have d: "\<forall>c\<in>set (show_int n). is_digit c" unfolding sh by (simp add: show_nat_digits)
  have no: "CHR '':'' \<notin> set (show_int n)" "CHR ''['' \<notin> set (show_int n)" "CHR '']'' \<notin> set (show_int n)"
    using d by (auto simp: is_digit_def ord_of_def)
  have "split_host_port (''127.0.0.1'' @ CHR '':'' # show_int n) = Some (''127.0.0.1'', show_int n)"
    using no cut_last_append [OF no(1), of "''127.0.0.1''"] by (simp add: split_host_port_def has_prefix_def)
  moreover have "parse_ip4 ''127.0.0.1'' = Some [127, 0, 0, 1]" by code_simp
  moreover have "parse_int (show_int n) = Some n" using n by (intro parse_int_show_int) (simp add: int64_ok_def)
  ultimately have "check_address (''127.0.0.1'' @ CHR '':'' # show_int n) = None" using n by (simp add: check_address_def is_loopback4_def)
  moreover have "ascii (show_int n)" using d by (force simp: ascii_def is_digit_def list_all_iff)
  ultimately show ?thesis by (simp add: ord_of_def)
qed

lemma ack_payload_eq:
  "ack_payload o1 inst = JObj [(''gateway_node'', jstr ''stub:4242''), (''gateway_worker'', jint 4242), (''heartbeat_interval'', jint (so_interval o1)),
     (''instance_id'', jstr inst), (''offline_after'', jint (so_offline o1)), (''suspect_after'', jint (so_suspect o1))]"
proof -
  have q: "map quote [''gateway_node'', ''gateway_worker'', ''heartbeat_interval'', ''instance_id'', ''offline_after'', ''suspect_after'']
     = [''gateway_node'', ''gateway_worker'', ''heartbeat_interval'', ''instance_id'', ''offline_after'', ''suspect_after'']" by code_simp
  show ?thesis using q by (simp add: ack_payload_def json_map_def)
qed

lemma ack_keys:
  "unquote ''gateway_node'' = ''gateway_node''" "unquote ''gateway_worker'' = ''gateway_worker''" "unquote ''heartbeat_interval'' = ''heartbeat_interval''"
  "unquote ''instance_id'' = ''instance_id''" "unquote ''offline_after'' = ''offline_after''" "unquote ''suspect_after'' = ''suspect_after''"
  "field_for ack_fields ''gateway_node'' = Some (''gateway_node'', KString)" "field_for ack_fields ''gateway_worker'' = None"
  "field_for ack_fields ''heartbeat_interval'' = Some (''heartbeat_interval'', KInt)" "field_for ack_fields ''instance_id'' = None"
  "field_for ack_fields ''offline_after'' = None" "field_for ack_fields ''suspect_after'' = None"
  by code_simp+

text \<open>The acknowledgement opens the session with the interval of the gateway.\<close>

lemma ack_opens:
  assumes "int64_ok (so_interval o1)" "1 \<le> so_interval o1" "f_type f = t_call"
  shows "fst (open_session c (Some tok) (Dial_ok local) (Answered (frame_result f (Some (ack_payload o1 inst))))) = Inr (wrap64 (seconds (so_interval o1)))"
proof -
  have j: "decode_field KString cur (jstr t) = Some (Some (GStr (unquote (quote t))))" for cur t by (simp add: jstr_def)
  have k: "decode_field KInt cur (jint (so_interval o1)) = Some (Some (GInt (so_interval o1)))" for cur
    using assms(1) by (simp add: jint_def parse_int_show_int)
  show ?thesis using assms(2)
    by (simp add: open_session_def Let_def frame_result_def t_result_def t_error_def decode_payload_def decode_struct_def ack_payload_eq ack_keys j k gint_def)
qed

section \<open>The ends of connections\<close>

text \<open>Everything that happens to the stub.\<close>

inductive stub_moves :: "stub \<Rightarrow> stub \<Rightarrow> bool" where
  shake: "stub_handle mac now up path auth s = (h, s') \<Longrightarrow> stub_moves s s'"
| rejected: "stub_close c 1008 ''unauthorized'' s = (es, s') \<Longrightarrow> stub_moves s s'"
| message: "stub_step texts c md inst now registered msg s = (es, registered', go, s') \<Longrightarrow> stub_moves s s'"
| timer: "register_timeout c registered s = (es, s') \<Longrightarrow> stub_moves s s'"
| tick: "watch_heartbeat c now s = (es, go, s') \<Longrightarrow> stub_moves s s'"
| kicked: "kick code reason s = (es, s') \<Longrightarrow> stub_moves s s'"
| asked: "stub_ask rnd action payload s = Some (es, s') \<Longrightarrow> stub_moves s s'"
| failing: "stub_moves s (fail_register code reason s)"
| silent: "stub_moves s (silence_heartbeats on s)"

definition ends_inv :: "stub \<Rightarrow> bool" where
  "ends_inv s \<longleftrightarrow> distinct (st_closed s) \<and> length (st_close_codes s) = length (st_closed s)"

lemma stub_close_inv: "stub_close c code reason s = (es, s') \<Longrightarrow> ends_inv s \<Longrightarrow> ends_inv s'"
  by (auto simp: stub_close_def ends_inv_def split: if_splits)

lemma observe_close_inv: "ends_inv s \<Longrightarrow> ends_inv (observe_close c code s)"
  by (auto simp: observe_close_def ends_inv_def)

lemma set_beat_inv: "ends_inv (set_beat c now s) = ends_inv s"
  by (simp add: set_beat_def ends_inv_def)

lemma stub_register_inv: "stub_register c inst now f s = (es, s') \<Longrightarrow> ends_inv s \<Longrightarrow> ends_inv s'"
proof -
  assume r: "stub_register c inst now f s = (es, s')" and i: "ends_inv s"
  define p where "p = (case st_conn s of Some old \<Rightarrow> if old \<noteq> c then stub_close old 1001 ''replaced by new registration'' s else ([], s) | None \<Rightarrow> ([], s))"
  have "ends_inv (snd p)" using i unfolding p_def by (auto split: option.splits intro: stub_close_inv [OF surjective_pairing])
  with r show ?thesis by (auto simp: stub_register_def Let_def p_def [symmetric] set_beat_def ends_inv_def split: prod.splits)
qed

lemma stub_call_inv: "stub_call c md inst now registered f s = (es, r, go, s') \<Longrightarrow> ends_inv s \<Longrightarrow> ends_inv s'"
  unfolding stub_call_def Let_def
  by (auto split: if_splits option.splits prod.splits dest: stub_close_inv stub_register_inv simp: set_beat_inv) (auto simp: ends_inv_def)

lemma stub_step_inv: "stub_step texts c md inst now registered msg s = (es, r, go, s') \<Longrightarrow> ends_inv s \<Longrightarrow> ends_inv s'"
  unfolding stub_step_def
  by (auto split: message.splits sum.splits if_splits prod.splits dest: stub_close_inv stub_call_inv simp: observe_close_inv) (auto simp: ends_inv_def)

lemma stub_moves_inv: "stub_moves s s' \<Longrightarrow> ends_inv s \<Longrightarrow> ends_inv s'"
proof (induction rule: stub_moves.induct)
  case (shake mac now up path auth s h s')
  then have "st_closed s' = st_closed s \<and> st_close_codes s' = st_close_codes s"
    by (auto simp: stub_handle_def Let_def split: list.splits if_splits sum.splits)
  with shake show ?case by (simp add: ends_inv_def)
next
  case (timer c registered s es s') then show ?case by (auto simp: register_timeout_def split: if_splits dest: stub_close_inv)
next
  case (tick c now s es go s')
  then show ?case by (auto simp: watch_heartbeat_def split: if_splits option.splits prod.splits dest: stub_close_inv)
next
  case (kicked code reason s es s') then show ?case by (auto simp: kick_def split: option.splits dest: stub_close_inv)
next
  case (asked rnd action payload s es s') then show ?case by (auto simp: stub_ask_def Let_def ends_inv_def split: option.splits)
qed (auto dest: stub_close_inv stub_step_inv simp: fail_register_def silence_heartbeats_def ends_inv_def)

interpretation stub_ends: invariant "\<lambda>s. \<exists>o1. s = stub_new o1" stub_moves ends_inv
proof
  show "ends_inv s" if "\<exists>o1. s = stub_new o1" for s using that by (auto simp: stub_new_def Let_def ends_inv_def)
qed (rule stub_moves_inv)

text \<open>Whatever reaches the stub, each connection that ended has given one close code, its own or the module's, and no connection two.\<close>

lemma one_code_each:
  "reach (\<lambda>s. \<exists>o1. s = stub_new o1) stub_moves s \<Longrightarrow> distinct (st_closed s) \<and> length (st_close_codes s) = length (st_closed s)"
  using stub_ends.reach_inv by (simp add: ends_inv_def)

end
