(* ===== verification/Session.thy ===== *)
theory Session
  imports Stub
begin

text \<open>
  A session of the gateway client at work (\<open>call\<close>, \<open>send\<close>, \<open>drain\<close> and \<open>close\<close> of \<open>src/lib/gatewayclient/session.go\<close>), and the conversation it has with the
  gateway (\<open>src/internal/gatewaystub/stub.go\<close>): what the gateway hears of a drain, and when it takes a client for dead. The random
  bytes of the identifiers, the errors of the writes, what ends the wait of a call and the instants are inputs.
\<close>

section \<open>Calls\<close>

record gsession =
  se_state :: cstate
  se_draining :: bool
  se_calls :: calls
  se_made :: nat
  se_wire :: "bytes list"
  se_close :: "(int \<times> string) option"
  se_drained :: bool

text \<open>\<open>se_state\<close> and \<open>se_drained\<close> are the client's, \<open>se_wire\<close> is what was written to the socket, \<open>se_close\<close> the close this side asked for
  (the frame of it reaches the peer only if the socket is still there). A call
  ends with the frame the reader handed over, the end of the reader, or its time-out.\<close>

datatype call_wait = Handed frame | Reader_stopped "close_error option" | Timed_out

datatype call_error = Not_encoded frame_error | Not_written string | Session_ended ended | No_answer

definition socket_call :: "nat list \<Rightarrow> string \<Rightarrow> json \<Rightarrow> string option \<Rightarrow> call_wait \<Rightarrow> gsession \<Rightarrow> (call_error + frame) \<times> gsession" where
  "socket_call rnd action payload write_err wt se =
     (let f = new_call rnd action (Some payload);
          se1 = se\<lparr>se_calls := call_send (f_id f) (se_made se) (se_calls se), se_made := Suc (se_made se)\<rparr>
      in case frame_encode f of Inl e \<Rightarrow> (Inl (Not_encoded e), se1)
         | Inr b \<Rightarrow> (case write_err of Some e \<Rightarrow> (Inl (Not_written e), se1)
           | None \<Rightarrow> (let se2 = se1\<lparr>se_wire := se_wire se1 @ [b]\<rparr> in
             case wt of Handed r \<Rightarrow> (Inr r, se2\<lparr>se_calls := call_answer r (se_calls se2)\<rparr>)
             | Reader_stopped ce \<Rightarrow> (Inl (Session_ended (end_error (se_draining se2) ce None)), se2)
             | Timed_out \<Rightarrow> (Inl No_answer, se2\<lparr>se_calls := call_expire (f_id f) (se_calls se2)\<rparr>))))"

definition session_status :: "nat list \<Rightarrow> string \<Rightarrow> string \<Rightarrow> string option \<Rightarrow> call_wait \<Rightarrow> gsession \<Rightarrow> gsession" where
  "session_status rnd state reason write_err wt se = snd (socket_call rnd ''/status'' (status_payload state reason) write_err wt se)"

definition session_close :: "int \<Rightarrow> string \<Rightarrow> gsession \<Rightarrow> gsession" where
  "session_close code reason se = (case se_close se of None \<Rightarrow> se\<lparr>se_close := Some (code, reason)\<rparr> | Some _ \<Rightarrow> se)"

text \<open>What the network and the counter of requests do during a drain: the two calls and the looks of the wait.\<close>

record drain_run =
  dr_rnd1 :: "nat list"
  dr_err1 :: "string option"
  dr_wait1 :: call_wait
  dr_looks :: "(int \<times> drain_wake) list"
  dr_rnd2 :: "nat list"
  dr_err2 :: "string option"
  dr_wait2 :: call_wait

text \<open>\<open>None\<close>: the wait for the requests in flight is not over.\<close>

definition session_drain :: "drain_req \<Rightarrow> drain_run \<Rightarrow> gsession \<Rightarrow> (ended \<times> gsession) option" where
  "session_drain req d se =
     (let se1 = session_status (dr_rnd1 d) ''draining'' (dr_reason req) (dr_err1 d) (dr_wait1 d) (se\<lparr>se_state := Draining, se_draining := True\<rparr>) in
      if \<not> drain_wait (dr_looks d) then None
      else (let se2 = snd (socket_call (dr_rnd2 d) ''/unregister'' (json_map [(''reason'', jstr (dr_reason req))]) (dr_err2 d) (dr_wait2 d) se1);
                se3 = session_close 1000 ''unregistered'' se2
            in Some (Drained, se3\<lparr>se_drained := True\<rparr>)))"

text \<open>\<open>Client.drain\<close> asks and waits for \<open>drained\<close>, as it was when it asked, or for its context.\<close>

datatype drain_event = Drained_closed | Ctx_done

definition client_drain :: "drain_req \<Rightarrow> drain_event \<Rightarrow> drain_chan \<Rightarrow> run_result \<times> drain_chan" where
  "client_drain req ev d = (case ev of Drained_closed \<Rightarrow> Done | Ctx_done \<Rightarrow> Context_done, drain_ask req d)"

definition client_drain_default :: "gconfig \<Rightarrow> string \<Rightarrow> drain_event \<Rightarrow> drain_chan \<Rightarrow> run_result \<times> drain_chan" where
  "client_drain_default cfg reason ev d = client_drain \<lparr>dr_reason = reason, dr_deadline = g_drain_deadline cfg\<rparr> ev d"

section \<open>Facts of a drain\<close>

lemma call_encodes: "\<exists>b. frame_encode (new_call rnd a p) = Inr b"
  by (simp add: frame_encode_def frame_json_def new_call_def)

definition call_bytes :: "nat list \<Rightarrow> string \<Rightarrow> json \<Rightarrow> bytes" where
  "call_bytes rnd action payload = projr (frame_encode (new_call rnd action (Some payload)))"

lemma call_bytes_encode: "frame_encode (new_call rnd action (Some payload)) = Inr (call_bytes rnd action payload)"
  using call_encodes [of rnd action "Some payload"] by (auto simp: call_bytes_def)

lemma socket_call_keeps:
  "se_wire (snd (socket_call rnd a p e wt se)) = se_wire se @ (if e = None then [call_bytes rnd a p] else [])
   \<and> se_close (snd (socket_call rnd a p e wt se)) = se_close se \<and> se_state (snd (socket_call rnd a p e wt se)) = se_state se
   \<and> se_draining (snd (socket_call rnd a p e wt se)) = se_draining se \<and> se_drained (snd (socket_call rnd a p e wt se)) = se_drained se"
  by (simp add: socket_call_def call_bytes_encode Let_def split: option.splits call_wait.splits)

text \<open>A \<open>Drain\<close> after \<open>Run\<close> has returned finds \<open>drained\<close> closed and returns nil at once; its request waits for the next \<open>Run\<close>.\<close>

lemma late_drain_stays:
  assumes "dc_pending d = None" "dc_drained d"
  shows "client_drain_default cfg reason Drained_closed d = (Done, d\<lparr>dc_pending := Some \<lparr>dr_reason = reason, dr_deadline = g_drain_deadline cfg\<rparr>\<rparr>)
     \<and> dc_pending (run_begin (snd (client_drain_default cfg reason Drained_closed d))) \<noteq> None"
  using assms by (simp add: client_drain_default_def client_drain_def drain_ask_def run_begin_def)

text \<open>C22: a drain goes through to its end whatever the gateway does, with no answer to either call, failing writes or a broken socket: it
  announces \<open>draining\<close>, and as soon as a look at the counter finds no request, the deadline has passed or the socket is gone, and not before, it
  unregisters, closes with 1000, marks the client as drained and ends the session with the error on which \<open>Run\<close> returns nil.\<close>

theorem drain_completes:
  assumes "se_close se = None" "list_all going_on outs" "\<not> cancelled"
  shows "(case session_drain req d se of
       None \<Rightarrow> list_all (\<lambda>(n, wk). n > 0 \<and> wk = Poll) (dr_looks d)
     | Some (e, se') \<Rightarrow> list_ex (\<lambda>(n, wk). n \<le> 0 \<or> wk \<in> {Deadline, Socket_done}) (dr_looks d)
         \<and> se_wire se' = se_wire se @ (if dr_err1 d = None then [call_bytes (dr_rnd1 d) ''/status'' (status_payload ''draining'' (dr_reason req))] else [])
             @ (if dr_err2 d = None then [call_bytes (dr_rnd2 d) ''/unregister'' (json_map [(''reason'', jstr (dr_reason req))])] else [])
         \<and> se_close se' = Some (1000, ''unregistered'') \<and> se_drained se' \<and> se_draining se' \<and> se_state se' = Draining
         \<and> (\<exists>es ws. client_run (outs @ [\<lparr>o_registered = True, o_ended = e, o_quick = quick, o_cancelled = cancelled, o_cancelled_waiting = False\<rparr>])
              = (es @ [Ev_drained], ws, Some Done)))"
proof -
  have n: "\<not> list_ex (\<lambda>(n, wk). n \<le> 0 \<or> wk \<in> {Deadline, Socket_done}) ws \<Longrightarrow> list_all (\<lambda>(n, wk). n > 0 \<and> wk = Poll) ws" for ws :: "(int \<times> drain_wake) list"
    by (induction ws) (auto intro: drain_wake.exhaust)
  show ?thesis
    using assms n run_drained [OF assms(2), of "\<lparr>o_registered = True, o_ended = Drained, o_quick = quick, o_cancelled = cancelled, o_cancelled_waiting = False\<rparr>"]
    by (simp add: session_drain_def session_status_def session_close_def Let_def socket_call_keeps drain_ends)
qed

section \<open>What the gateway hears\<close>

text \<open>The loop of \<open>serve\<close> over the messages of a connection, each with its instant.\<close>

fun stub_serve :: "(frame_error \<Rightarrow> string) \<Rightarrow> nat \<Rightarrow> string \<Rightarrow> string \<Rightarrow> bool \<Rightarrow> (int \<times> message) list \<Rightarrow> stub \<Rightarrow> effect list \<times> bool \<times> bool \<times> stub" where
  "stub_serve texts c md inst registered [] s = ([], registered, True, s)"
| "stub_serve texts c md inst registered ((t, m) # ms) s = (case stub_step texts c md inst t registered m s of (es, r, go, s1) \<Rightarrow>
     if go then (case stub_serve texts c md inst r ms s1 of (es', r', go', s2) \<Rightarrow> (es @ es', r', go', s2)) else (es, r, False, s1))"

lemma call_sendable:
  assumes "length rnd = 16" "list_all (\<lambda>x. x < 256) rnd" "payload_ok (Some (JObj ms))" "has_prefix action ''/''" "ascii action"
    and "length (call_bytes rnd action (JObj ms)) \<le> max_size"
  shows "frame_parse (call_bytes rnd action (JObj ms)) = Inr (new_call rnd action (Some (JObj ms)))"
proof -
  have "sendable (new_call rnd action (Some (JObj ms)))"
    using new_id_v4 [OF assms(1,2)] assms(3-6) call_bytes_encode [of rnd action "JObj ms"] by (simp add: sendable_def new_call_def int64_ok_def)
  from frame_roundtrip [OF this call_bytes_encode] show ?thesis by (simp add: frame_norm_def new_call_def)
qed

lemma quote_names: "quote ''state'' = ''state''" "quote ''reason'' = ''reason''" "unquote ''state'' = ''state''" "unquote ''reason'' = ''reason''"
  "raw_ok ''state''" "raw_ok ''reason''" "html_esc ''state'' = ''state''" "html_esc ''reason'' = ''reason''"
  "(''reason'' :: string) \<le> ''state''" "\<not> (''state'' :: string) \<le> ''reason''"
  by code_simp+

lemma status_payload_eq: "status_payload state reason = JObj ((if reason = [] then [] else [(''reason'', jstr reason)]) @ [(''state'', jstr state)])"
  using quote_names by (simp add: status_payload_def json_map_def)

lemma unregister_payload_eq: "json_map [(''reason'', jstr reason)] = JObj [(''reason'', jstr reason)]"
  using quote_names by (simp add: json_map_def)

lemma drain_payloads_ok:
  assumes "ascii reason"
  shows "payload_ok (Some (status_payload ''draining'' reason))" "payload_ok (Some (json_map [(''reason'', jstr reason)]))"
proof -
  have "ascii ''draining''" "1 < max_nesting" by (code_simp, simp add: max_nesting_def)
  then show "payload_ok (Some (status_payload ''draining'' reason))" "payload_ok (Some (json_map [(''reason'', jstr reason)]))"
    using assms quote_names by (auto simp: status_payload_eq unregister_payload_eq payload_ok_def)
qed

lemma reason_fields:
  "field_for [(''state'', KString), (''reason'', KString)] ''state'' = Some (''state'', KString)"
  "field_for [(''state'', KString), (''reason'', KString)] ''reason'' = Some (''reason'', KString)"
  "field_for [(''reason'', KString)] ''reason'' = Some (''reason'', KString)"
  by code_simp+

lemma hears_status:
  assumes "ascii reason" "f_payload f = Some (status_payload ''draining'' reason)" "f_action f = ''/status''"
  shows "stub_call c md inst t True f s = ([Sent (frame_result f None)], True, True, s\<lparr>st_statuses := st_statuses s @ [(''draining'', reason)]\<rparr>)"
proof -
  have "ascii ''draining''" by code_simp
  then show ?thesis using assms
    by (simp add: stub_call_def decode_payload_def decode_struct_def status_payload_eq quote_names reason_fields gstr_def)
qed

lemma hears_unregister:
  assumes "ascii reason" "f_payload f = Some (json_map [(''reason'', jstr reason)])" "f_action f = ''/unregister''"
  shows "stub_call c md inst t True f s = ([Sent (frame_result f None)], True, True, s\<lparr>st_unregisters := st_unregisters s @ [reason]\<rparr>)"
  using assms by (simp add: stub_call_def decode_payload_def decode_struct_def unregister_payload_eq quote_names reason_fields gstr_def)

lemma serve_text:
  assumes "frame_parse b = Inr f" "f_type f = t_call" "stub_call c md inst t r f s = (es, r', True, s1)"
  shows "stub_serve texts c md inst r ((t, Text b) # ms) s = (case stub_serve texts c md inst r' ms s1 of (es', r'', go, s2) \<Rightarrow> (es @ es', r'', go, s2))"
  using assms by (simp add: stub_step_def t_call_def t_result_def t_error_def)

text \<open>C20: the gateway hears of a drain in full: it reads from what the client writes the announcement \<open>draining\<close> and then the
  \<open>/unregister\<close>, each with the reason of the drain, answers both calls by their ids, and records the close 1000 of the client as the end of
  the connection.\<close>

theorem drain_heard:
  assumes "session_drain req d se = Some (e, se')" "dr_err1 d = None" "dr_err2 d = None" "se_close se = None" "ascii (dr_reason req)"
    and "length (dr_rnd1 d) = 16" "list_all (\<lambda>x. x < 256) (dr_rnd1 d)" "length (dr_rnd2 d) = 16" "list_all (\<lambda>x. x < 256) (dr_rnd2 d)"
    and "list_all (\<lambda>b. length b \<le> max_size) (se_wire se')" "c \<notin> set (st_closed s)"
  shows "\<exists>a1 a2 s'. stub_serve texts c md inst True
       (zip [t1, t2] (map Text (drop (length (se_wire se)) (se_wire se'))) @ [(t3, Read_failed (map_option fst (se_close se')))]) s
         = ([Sent a1, Sent a2], True, False, s')
     \<and> f_id a1 = new_id (dr_rnd1 d) \<and> f_id a2 = new_id (dr_rnd2 d)
     \<and> st_statuses s' = st_statuses s @ [(''draining'', dr_reason req)] \<and> st_unregisters s' = st_unregisters s @ [dr_reason req]
     \<and> st_closed s' = c # st_closed s \<and> st_close_codes s' = st_close_codes s @ [1000]"
proof -
  let ?p1 = "status_payload ''draining'' (dr_reason req)" and ?p2 = "json_map [(''reason'', jstr (dr_reason req))]"
  let ?f1 = "new_call (dr_rnd1 d) ''/status'' (Some ?p1)" and ?f2 = "new_call (dr_rnd2 d) ''/unregister'' (Some ?p2)"
  let ?b1 = "call_bytes (dr_rnd1 d) ''/status'' ?p1" and ?b2 = "call_bytes (dr_rnd2 d) ''/unregister'' ?p2"
  have w: "se_wire se' = se_wire se @ [?b1, ?b2]" "se_close se' = Some (1000, ''unregistered'')"
    using assms(1-4) by (auto simp: session_drain_def session_status_def session_close_def Let_def socket_call_keeps split: if_splits)
  have a: "has_prefix ''/status'' ''/''" "ascii ''/status''" "has_prefix ''/unregister'' ''/''" "ascii ''/unregister''" by code_simp+
  obtain m1 m2 where m: "?p1 = JObj m1" "?p2 = JObj m2" by (simp add: status_payload_eq unregister_payload_eq)
  have p1: "frame_parse ?b1 = Inr ?f1" and p2: "frame_parse ?b2 = Inr ?f2"
    using call_sendable [OF assms(6,7), of m1 "''/status''"] call_sendable [OF assms(8,9), of m2 "''/unregister''"] a assms(10)
      drain_payloads_ok [OF assms(5)] by (simp_all add: m w(1))
  have t: "f_type ?f1 = t_call" "f_type ?f2 = t_call" "f_action ?f1 = ''/status''" "f_action ?f2 = ''/unregister''"
    "f_payload ?f1 = Some ?p1" "f_payload ?f2 = Some ?p2" "f_id ?f1 = new_id (dr_rnd1 d)" "f_id ?f2 = new_id (dr_rnd2 d)"
    by (simp_all add: new_call_def)
  note h1 = hears_status [OF assms(5) t(5,3)] and h2 = hears_unregister [OF assms(5) t(6,4)]
  have last: "stub_serve texts c md inst True [(t3, Read_failed (Some 1000))] s2 = ([], True, False, observe_close c (Some 1000) s2)" for s2
    by (simp add: stub_step_def)
  have z: "zip [t1, t2] (map Text (drop (length (se_wire se)) (se_wire se'))) @ [(t3, Read_failed (map_option fst (se_close se')))]
     = [(t1, Text ?b1), (t2, Text ?b2), (t3, Read_failed (Some 1000))]" by (simp add: w)
  show ?thesis unfolding z serve_text [OF p1 t(1) h1] serve_text [OF p2 t(2) h2] last
    using assms(11) t(7,8) by (simp add: observe_close_def frame_result_def)
qed

section \<open>Examples\<close>

definition sample_gsession :: gsession where
  "sample_gsession = \<lparr>se_state = Ready, se_draining = False, se_calls = \<lparr>ca_pending = [], ca_answers = []\<rparr>, se_made = 0, se_wire = [], se_close = None,
     se_drained = False\<rparr>"

definition sample_drain_req :: drain_req where
  "sample_drain_req = \<lparr>dr_reason = ''stop'', dr_deadline = seconds 30\<rparr>"

text \<open>One request is in flight at the first look, none at the second; the gateway answers neither call.\<close>

definition sample_drain :: drain_run where
  "sample_drain = \<lparr>dr_rnd1 = replicate 16 7, dr_err1 = None, dr_wait1 = Timed_out, dr_looks = [(1, Poll), (0, Poll)], dr_rnd2 = replicate 16 9,
     dr_err2 = None, dr_wait2 = Timed_out\<rparr>"

lemma sample_drain_done: "\<exists>e se'. session_drain sample_drain_req sample_drain sample_gsession = Some (e, se')"
  by (simp add: session_drain_def sample_drain_def Let_def)

theorem drain_completes_witness:
  "\<exists>e se' es ws. session_drain sample_drain_req sample_drain sample_gsession = Some (e, se') \<and> se_close se' = Some (1000, ''unregistered'') \<and> se_drained se'
     \<and> client_run [dial_failing, \<lparr>o_registered = True, o_ended = e, o_quick = False, o_cancelled = False, o_cancelled_waiting = False\<rparr>] = (es @ [Ev_drained], ws, Some Done)"
proof -
  obtain e se' where d: "session_drain sample_drain_req sample_drain sample_gsession = Some (e, se')" using sample_drain_done by blast
  have "se_close sample_gsession = None" "list_all going_on [dial_failing]" by (simp_all add: sample_gsession_def going_on_def dial_failing_def)
  from drain_completes [OF this, where cancelled = False and quick = False and req = sample_drain_req and d = sample_drain] show ?thesis unfolding d by auto
qed

lemma sample_wire_short: "list_all (\<lambda>b. length b \<le> 1000) [call_bytes (replicate 16 7) ''/status'' (status_payload ''draining'' ''stop''),
    call_bytes (replicate 16 9) ''/unregister'' (json_map [(''reason'', jstr ''stop'')])]"
  by code_simp

theorem drain_heard_witness:
  "\<forall>texts. \<exists>e se' a1 a2 s'. session_drain sample_drain_req sample_drain sample_gsession = Some (e, se') \<and>
     stub_serve texts 0 ''crm'' ''a1'' True (zip [1, 2] (map Text (se_wire se')) @ [(3, Read_failed (map_option fst (se_close se')))])
       (stub_new \<lparr>so_secret = [], so_audience = [], so_interval = 5, so_suspect = 2, so_offline = 4, so_register_timeout = 5, so_reject_after_upgrade = False\<rparr>)
         = ([Sent a1, Sent a2], True, False, s')
     \<and> st_statuses s' = [(''draining'', ''stop'')] \<and> st_unregisters s' = [''stop''] \<and> st_close_codes s' = [1000]"
proof
  fix texts :: "frame_error \<Rightarrow> string"
  let ?s = "stub_new \<lparr>so_secret = [], so_audience = [], so_interval = 5, so_suspect = 2, so_offline = 4, so_register_timeout = 5, so_reject_after_upgrade = False\<rparr>"
  obtain e se' where d: "session_drain sample_drain_req sample_drain sample_gsession = Some (e, se')" using sample_drain_done by blast
  have w: "se_wire se' = [call_bytes (replicate 16 7) ''/status'' (status_payload ''draining'' ''stop''),
      call_bytes (replicate 16 9) ''/unregister'' (json_map [(''reason'', jstr ''stop'')])]"
    using d by (simp only: session_drain_def session_status_def session_close_def Let_def)
      (auto simp: socket_call_keeps sample_drain_def sample_gsession_def sample_drain_req_def split: if_splits option.splits)
  have "list_all (\<lambda>b. length b \<le> max_size) (se_wire se')" using sample_wire_short unfolding w by (simp add: max_size_def)
  moreover have "ascii (dr_reason sample_drain_req)" by (code_simp)
  ultimately obtain a1 a2 s' where "stub_serve texts 0 ''crm'' ''a1'' True (zip [1, 2] (map Text (se_wire se')) @ [(3, Read_failed (map_option fst (se_close se')))]) ?s
         = ([Sent a1, Sent a2], True, False, s')" "st_statuses s' = [(''draining'', ''stop'')]" "st_unregisters s' = [''stop'']" "st_close_codes s' = [1000]"
    using drain_heard [OF d, of 0 ?s texts "''crm''" "''a1''" 1 2 3]
    by (auto simp: sample_drain_def sample_gsession_def sample_drain_req_def stub_new_def list_all_iff)
  with d show "\<exists>e se' a1 a2 s'. session_drain sample_drain_req sample_drain sample_gsession = Some (e, se') \<and>
     stub_serve texts 0 ''crm'' ''a1'' True (zip [1, 2] (map Text (se_wire se')) @ [(3, Read_failed (map_option fst (se_close se')))]) ?s
         = ([Sent a1, Sent a2], True, False, s')
     \<and> st_statuses s' = [(''draining'', ''stop'')] \<and> st_unregisters s' = [''stop''] \<and> st_close_codes s' = [1000]" by blast
qed

end
