(* ===== verification/Heartbeat.thy ===== *)
theory Heartbeat
  imports Stub
begin

text \<open>
  The heartbeats in time: when the loop of a session (\<open>loop\<close> of \<open>src/lib/gatewayclient/session.go\<close>) sends them, and when the gateway
  (\<open>watchHeartbeat\<close> of \<open>src/internal/gatewaystub/stub.go\<close>) takes the client for dead. The ticker of the loop fires every
  interval and keeps one tick for a loop that is busy with a call; further ticks are dropped. How long each call takes, how long a frame
  is under way and when the gateway looks are inputs. Instants and durations are in nanoseconds.
\<close>

section \<open>When heartbeats are sent\<close>

text \<open>The first tick after an instant, of a ticker started at \<open>t0\<close>.\<close>

definition next_tick :: "int \<Rightarrow> int \<Rightarrow> int \<Rightarrow> int" where
  "next_tick i t0 s = t0 + i * ((s - t0) div i + 1)"

text \<open>The loop took a tick at \<open>s\<close> and was busy for \<open>d\<close>: it takes the next one when it is back, or when the tick comes.\<close>

definition beat_at :: "int \<Rightarrow> int \<Rightarrow> int \<Rightarrow> int \<Rightarrow> int" where
  "beat_at i t0 s d = max (s + d) (next_tick i t0 s)"

fun beat_times :: "int \<Rightarrow> int \<Rightarrow> int \<Rightarrow> int list \<Rightarrow> int list" where
  "beat_times i t0 s [] = []"
| "beat_times i t0 s (d # ds) = (let s' = beat_at i t0 s d in s' # beat_times i t0 s' ds)"


text \<open>What \<open>inFlight\<close> reports: the hook of the configuration, else the counter, else nothing.\<close>

definition in_flight :: "int option \<Rightarrow> int option \<Rightarrow> int" where
  "in_flight hook load = (case hook of Some n \<Rightarrow> n | None \<Rightarrow> (case load of Some n \<Rightarrow> n | None \<Rightarrow> 0))"



text \<open>Instants that follow each other, from \<open>b\<close> on, no further apart than \<open>g\<close>.\<close>

fun spaced :: "int \<Rightarrow> int \<Rightarrow> int list \<Rightarrow> bool" where
  "spaced g b [] = True"
| "spaced g b (t # ts) = (t - b \<le> g \<and> spaced g t ts)"

lemma spaced_mono: "spaced g b ts \<Longrightarrow> g \<le> g' \<Longrightarrow> spaced g' b ts"
  by (induction ts arbitrary: b) auto


text \<open>A tick is never taken twice, and on time as long as every call is answered within the interval: the heartbeats are then sent at the ticks
  themselves.\<close>

lemma beats_at_ticks:
  assumes "0 < i" "list_all (\<lambda>d. 0 \<le> d \<and> d \<le> i) ds"
  shows "beat_times i t0 (t0 + i * k) ds = map (\<lambda>n. t0 + i * (k + int n)) [1..<Suc (length ds)]"
  using assms(2)
proof (induction ds arbitrary: k)
  case (Cons d ds)
  have n: "next_tick i t0 (t0 + i * k) = t0 + i * (k + 1)" using assms(1) by (simp add: next_tick_def)
  with Cons(2) have "beat_at i t0 (t0 + i * k) d = t0 + i * (k + 1)" by (simp add: beat_at_def algebra_simps)
  moreover have "beat_times i t0 (t0 + i * (k + 1)) ds = map (\<lambda>n. t0 + i * (k + 1 + int n)) [1..<Suc (length ds)]" using Cons by simp
  moreover have "map (\<lambda>n. t0 + i * (k + int n)) [1..<Suc (Suc (length ds))] = (t0 + i * (k + 1)) # map (\<lambda>n. t0 + i * (k + 1 + int n)) [1..<Suc (length ds)]"
    by (simp add: map_Suc_upt [symmetric] upt_conv_Cons add.assoc del: upt_Suc) 
  ultimately show ?case by (simp add: Let_def del: upt_Suc)
qed simp

section \<open>When the gateway looks\<close>








lemma beat_times_length [simp]: "length (beat_times i t0 s ds) = length ds"
  by (induction ds arbitrary: s) (simp_all add: Let_def)

text \<open>The gateway takes a client for dead at the first look \<open>offline_after\<close> intervals after its last heartbeat, and at no look before.\<close>

lemma watch_closes_iff:
  assumes "map_of (st_beats s) c = Some b" "c \<notin> set (st_closed s)"
  shows "Closes c 4000 ''heartbeat timeout'' \<in> set (fst (watch_heartbeat c t s)) \<longleftrightarrow> b + so_offline (st_opts s) * seconds (so_interval (st_opts s)) \<le> t"
  using assms by (auto simp: watch_heartbeat_def stub_close_def)



end
