(* ===== verification/Observe.thy ===== *)
theory Observe
  imports Stub "HOL-Library.Sublist"
begin

text \<open>
  What a test sees of the gateway's double (\<open>src/internal/gatewaystub/stub.go\<close>): the waits, the counts and the records, the token it hands out, and the
  operations that only touch the socket. A wait looks at the state once, and again each time it is woken: its input is what it sees at each
  look, with the instant. An index out of range, where Go panics, is \<open>None\<close>.
\<close>

section \<open>Waits\<close>

text \<open>\<open>None\<close>: it waits still; \<open>Some None\<close>: the test fails, the deadline has passed.\<close>

fun wait_for :: "('s \<Rightarrow> bool) \<Rightarrow> int \<Rightarrow> (int \<times> 's) list \<Rightarrow> 's option option" where
  "wait_for cond deadline [] = None"
| "wait_for cond deadline ((now, s) # looks) =
     (if cond s then Some (Some s) else if now > deadline then Some None else wait_for cond deadline looks)"

definition last_of :: "'a list \<Rightarrow> 'a option" where
  "last_of xs = (if xs = [] then None else Some (last xs))"

definition wait_registrations :: "nat \<Rightarrow> int \<Rightarrow> (int \<times> stub) list \<Rightarrow> nat option option" where
  "wait_registrations n deadline looks =
     map_option (map_option (\<lambda>s. length (st_registrations s))) (wait_for (\<lambda>s. length (st_registrations s) \<ge> n) deadline looks)"

definition last_registration :: "stub \<Rightarrow> stub_registration option" where
  "last_registration s = last_of (st_registrations s)"

definition wait_registered :: "int \<Rightarrow> (int \<times> stub) list \<Rightarrow> stub_registration option option" where
  "wait_registered deadline looks =
     map_option (\<lambda>r. Option.bind r last_registration) (wait_for (\<lambda>s. length (st_registrations s) \<ge> 1) deadline looks)"

definition wait_heartbeats :: "nat \<Rightarrow> int \<Rightarrow> (int \<times> stub) list \<Rightarrow> nat option option" where
  "wait_heartbeats n deadline looks =
     map_option (map_option (\<lambda>s. length (st_heartbeats s))) (wait_for (\<lambda>s. length (st_heartbeats s) \<ge> n) deadline looks)"

definition last_heartbeat :: "stub \<Rightarrow> (int \<times> json option) option" where
  "last_heartbeat s = last_of (st_heartbeats s)"

definition find_status :: "string \<Rightarrow> stub \<Rightarrow> (string \<times> string) option" where
  "find_status state s = find (\<lambda>p. fst p = state) (st_statuses s)"

definition wait_status :: "string \<Rightarrow> int \<Rightarrow> (int \<times> stub) list \<Rightarrow> (string \<times> string) option option" where
  "wait_status state deadline looks =
     map_option (\<lambda>r. Option.bind r (find_status state)) (wait_for (\<lambda>s. find_status state s \<noteq> None) deadline looks)"

definition statuses :: "stub \<Rightarrow> string list" where
  "statuses s = map fst (st_statuses s)"

definition wait_unregister :: "int \<Rightarrow> (int \<times> stub) list \<Rightarrow> string option option" where
  "wait_unregister deadline looks =
     map_option (\<lambda>r. Option.bind r (\<lambda>s. last_of (st_unregisters s))) (wait_for (\<lambda>s. length (st_unregisters s) \<ge> 1) deadline looks)"

definition wait_close_codes :: "nat \<Rightarrow> int \<Rightarrow> (int \<times> stub) list \<Rightarrow> int list option option" where
  "wait_close_codes n deadline looks =
     map_option (map_option st_close_codes) (wait_for (\<lambda>s. length (st_close_codes s) \<ge> n) deadline looks)"

section \<open>The socket and the token\<close>

text \<open>\<open>DropConnection\<close> gives the connection whose socket is cut, \<open>SendRaw\<close> the one that is written to; without one the test fails.\<close>

definition drop_connection :: "stub \<Rightarrow> nat option" where
  "drop_connection s = st_conn s"

definition send_raw :: "bytes \<Rightarrow> stub \<Rightarrow> (nat \<times> bytes) option" where
  "send_raw b s = (case st_conn s of None \<Rightarrow> None | Some c \<Rightarrow> Some (c, b))"

definition stub_url :: "string \<Rightarrow> string" where
  "stub_url srv = ''ws'' @ trim_prefix srv ''http'' @ ''/gateway''"

text \<open>\<open>ServiceToken\<close>, which reads the clock twice.\<close>

definition service_claims :: "string \<Rightarrow> int \<Rightarrow> int \<Rightarrow> claims" where
  "service_claims audience now now2 = \<lparr>c_iss = ''accounts.test'', c_aud = audience, c_sub = replicate 40 CHR ''a'', c_iat = now, c_exp = now2 + 24 * 3600\<rparr>"

definition service_token :: "mac \<Rightarrow> string \<Rightarrow> string \<Rightarrow> int \<Rightarrow> int \<Rightarrow> string" where
  "service_token mac secret audience now now2 = sign mac (service_claims audience now now2) ''HS256'' secret"

text \<open>What the client dials (\<open>runSession\<close>): the address and the header with the token.\<close>

definition session_url :: "gconfig \<Rightarrow> string" where
  "session_url cfg = g_url cfg @ ''/'' @ g_module cfg @ ''/'' @ g_instance cfg"

definition bearer_header :: "string \<Rightarrow> string" where
  "bearer_header tok = ''Bearer '' @ tok"

section \<open>Facts\<close>

text \<open>The records of the stub only grow: what a test waits for is not missed because it was woken late.\<close>

definition records_grow :: "stub \<Rightarrow> stub \<Rightarrow> bool" where
  "records_grow s s' \<longleftrightarrow> prefix (st_registrations s) (st_registrations s') \<and> prefix (st_heartbeats s) (st_heartbeats s')
     \<and> prefix (st_statuses s) (st_statuses s') \<and> prefix (st_unregisters s) (st_unregisters s') \<and> prefix (st_close_codes s) (st_close_codes s')
     \<and> st_rejections s \<le> st_rejections s'"

lemma records_refl [simp]: "records_grow s s"
  by (simp add: records_grow_def)

lemma records_trans: "records_grow s s1 \<Longrightarrow> records_grow s1 s2 \<Longrightarrow> records_grow s s2"
  unfolding records_grow_def by (meson prefix_order.trans order_trans)

lemma close_grows: "stub_close c code reason s = (es, s') \<Longrightarrow> records_grow s s'"
  by (auto simp: stub_close_def records_grow_def split: if_splits)

lemma observe_grows: "records_grow s (observe_close c code s)"
  by (simp add: observe_close_def records_grow_def)

lemma register_grows: "stub_register c inst now f s = (es, s') \<Longrightarrow> records_grow s s'"
proof -
  assume r: "stub_register c inst now f s = (es, s')"
  define p where "p = (case st_conn s of Some old \<Rightarrow> if old \<noteq> c then stub_close old 1001 ''replaced by new registration'' s else ([], s) | None \<Rightarrow> ([], s))"
  have "records_grow s (snd p)" unfolding p_def by (auto split: option.splits intro: close_grows [OF surjective_pairing])
  moreover have "records_grow (snd p) s'" using r by (auto simp: stub_register_def Let_def p_def [symmetric] set_beat_def records_grow_def split: prod.splits)
  ultimately show ?thesis by (rule records_trans)
qed

lemma call_grows: "stub_call c md inst now registered f s = (es, r, go, s') \<Longrightarrow> records_grow s s'"
  unfolding stub_call_def Let_def
  by (auto split: if_splits option.splits prod.splits dest: close_grows register_grows) (auto simp: records_grow_def set_beat_def)

lemma step_grows: "stub_step texts c md inst now registered msg s = (es, r, go, s') \<Longrightarrow> records_grow s s'"
  unfolding stub_step_def
  by (auto split: message.splits sum.splits if_splits prod.splits dest: close_grows call_grows simp: observe_grows) (auto simp: records_grow_def)

lemma moves_grow: "stub_moves s s' \<Longrightarrow> records_grow s s'"
proof (induction rule: stub_moves.induct)
  case (shake mac now up path auth s h s')
  then show ?case by (auto simp: stub_handle_def Let_def records_grow_def split: list.splits if_splits sum.splits)
next
  case (timer c registered s es s') then show ?case by (auto simp: register_timeout_def split: if_splits dest: close_grows)
next
  case (tick c now s es go s') then show ?case by (auto simp: watch_heartbeat_def split: if_splits option.splits prod.splits dest: close_grows)
next
  case (kicked code reason s es s') then show ?case by (auto simp: kick_def split: option.splits dest: close_grows)
next
  case (asked rnd action payload s es s') then show ?case by (auto simp: stub_ask_def Let_def records_grow_def split: option.splits)
qed (auto dest: close_grows step_grows simp: records_grow_def fail_register_def silence_heartbeats_def)

text \<open>A wait ends well exactly when a look, none before which was past the deadline, finds what it waits for.\<close>

lemma wait_finds:
  "(\<exists>s. wait_for cond deadline looks = Some (Some s))
   \<longleftrightarrow> (\<exists>as t s bs. looks = as @ (t, s) # bs \<and> cond s \<and> (\<forall>l\<in>set as. fst l \<le> deadline))"
proof (induction cond deadline looks rule: wait_for.induct)
  case (2 cond deadline now s looks)
  show ?case
  proof (cases "cond s \<or> now > deadline")
    case True
    have "\<exists>as t s' bs. (now, s) # looks = as @ (t, s') # bs \<and> cond s' \<and> (\<forall>l\<in>set as. fst l \<le> deadline)" if "cond s"
      using that by (intro exI [of _ "[]"]) auto
    moreover have "cond s" if "(now, s) # looks = as @ (t, s') # bs" "cond s'" "\<forall>l\<in>set as. fst l \<le> deadline" "now > deadline" for as t s' bs
      using that by (cases as) auto
    ultimately show ?thesis using True by (cases "cond s") (simp, metis not_less option.sel option.distinct(1) wait_for.simps(2))
  next
    case False
    have "(\<exists>as t s' bs. (now, s) # looks = as @ (t, s') # bs \<and> cond s' \<and> (\<forall>l\<in>set as. fst l \<le> deadline))
       \<longleftrightarrow> (\<exists>as t s' bs. looks = as @ (t, s') # bs \<and> cond s' \<and> (\<forall>l\<in>set as. fst l \<le> deadline))" (is "?l = ?r")
    proof
      assume ?l
      then obtain as t s' bs where a: "(now, s) # looks = as @ (t, s') # bs" "cond s'" "\<forall>l\<in>set as. fst l \<le> deadline" by blast
      with False obtain as' where "as = (now, s) # as'" by (cases as) auto
      with a show ?r by auto
    next
      assume ?r
      then obtain as t s' bs where a: "looks = as @ (t, s') # bs" "cond s'" "\<forall>l\<in>set as. fst l \<le> deadline" by blast
      with False show ?l by (intro exI [of _ "(now, s) # as"] exI [of _ t] exI [of _ s'] exI [of _ bs]) auto
    qed
    with 2 False show ?thesis by simp
  qed
qed simp

text \<open>What was waited for stays true while the stub goes on, so a wait that is woken late still ends well.\<close>

lemma moves_keep_waits:
  assumes "stub_moves\<^sup>*\<^sup>* s s'"
  shows "length (st_registrations s) \<ge> n \<Longrightarrow> length (st_registrations s') \<ge> n" "length (st_heartbeats s) \<ge> n \<Longrightarrow> length (st_heartbeats s') \<ge> n"
    "length (st_close_codes s) \<ge> n \<Longrightarrow> length (st_close_codes s') \<ge> n" "find_status st s = Some p \<Longrightarrow> find_status st s' = Some p"
proof -
  have g: "records_grow s s'" using assms by (induction rule: rtranclp_induct) (auto intro: records_trans moves_grow)
  then show "length (st_registrations s) \<ge> n \<Longrightarrow> length (st_registrations s') \<ge> n" "length (st_heartbeats s) \<ge> n \<Longrightarrow> length (st_heartbeats s') \<ge> n"
    "length (st_close_codes s) \<ge> n \<Longrightarrow> length (st_close_codes s') \<ge> n"
    unfolding records_grow_def by (meson prefix_length_le order_trans)+
  have "find P xs = Some p \<Longrightarrow> find P (xs @ ys) = Some p" for P :: "string \<times> string \<Rightarrow> bool" and xs ys by (induction xs) auto
  with g show "find_status st s = Some p \<Longrightarrow> find_status st s' = Some p"
    unfolding records_grow_def find_status_def prefix_def by metis
qed

text \<open>The token the stub hands out passes its own handshake for a day, on the address a client dials with it.\<close>

lemma signed_token_accepted:
  assumes "claims_ok c" "c_sub c \<noteq> []" "c_aud c = so_audience (st_opts s)" "c_aud c \<noteq> []" "c_iss c = ''accounts.test''" "c_exp c \<noteq> 0" "before clock (time_unix (c_exp c))"
    and "segment_re (g_module cfg)" "segment_re (g_instance cfg)" "g_url cfg = scheme @ ''/gateway''"
  shows "stub_handle mac clock True (drop (length scheme) (session_url cfg)) (bearer_header (sign mac c ''HS256'' (so_secret (st_opts s)))) s
     = (Serve (g_module cfg) (g_instance cfg), s)"
proof -
  let ?m = "g_module cfg" and ?i = "g_instance cfg"
  let ?key = "\<lparr>key_alg = ''HS256'', key_secret = so_secret (st_opts s)\<rparr>"
  let ?kr = "\<lparr>audiences = [(so_audience (st_opts s), ?key)], issuers = [''accounts.test'']\<rparr>"
  have "\<not> is_lower CHR ''/''" "\<not> is_digit CHR ''/''" by code_simp+
  then have n: "segment_re x \<Longrightarrow> CHR ''/'' \<notin> set x" for x by (cases x) (auto simp: segment_re_def seg_char_def list_all_iff)
  have u: "drop (length scheme) (session_url cfg) = ''/gateway/'' @ ?m @ CHR ''/'' # ?i" by (simp add: session_url_def assms(10))
  have sp: "split_on CHR ''/'' (trim_prefix (''/gateway/'' @ ?m @ CHR ''/'' # ?i) ''/gateway/'') = [?m, ?i]"
    unfolding trim_prefix_append using n assms(8,9) by (simp add: split_on_append split_on_nosep)
  have "verify mac ?kr (sign mac c ''HS256'' (so_secret (st_opts s))) clock = Inr c"
    using sign_verified [of c ?key ?kr clock mac] assms(1-7) by (simp add: has_hasher_def)
  moreover have "trim_prefix (bearer_header tok) ''Bearer '' = tok" for tok unfolding bearer_header_def by (rule trim_prefix_append)
  moreover have "has_prefix (''/gateway/'' @ ?m @ CHR ''/'' # ?i) ''/gateway/''" by (rule has_prefix_append)
  ultimately show ?thesis unfolding u stub_handle_def sp using assms(8,9) by (simp add: Let_def)
qed

lemma service_token_accepted:
  assumes "claims_ok (service_claims (so_audience (st_opts s)) t0 t)" "so_audience (st_opts s) \<noteq> []" "segment_re (g_module cfg)" "segment_re (g_instance cfg)"
    and "g_url cfg = scheme @ ''/gateway''" "before clock (time_unix (t + 24 * 3600))" "0 \<le> t"
  shows "stub_handle mac clock True (drop (length scheme) (session_url cfg)) (bearer_header (service_token mac (so_secret (st_opts s)) (so_audience (st_opts s)) t0 t)) s
     = (Serve (g_module cfg) (g_instance cfg), s)"
  unfolding service_token_def by (rule signed_token_accepted) (use assms in \<open>simp_all add: service_claims_def\<close>)

end
