(* ===== verification/Standalone.thy ===== *)
theory Standalone
  imports Observe
begin

text \<open>
  \<open>src/internal/gatewaystub/standalone.go\<close>, the double of the gateway as a server of its own: the tokens it issues, the list of what it has seen, the
  kick of a module's socket and the front that chooses between them; and \<open>src/lib/gatewayclient/recorder.go\<close>, the record of a client's events that
  a test waits on. An answer is a status, a content type and a body; the values of the form and of the query are inputs.
\<close>

section \<open>The front\<close>

datatype standalone_route = To_token | To_list | To_kick | To_stub | To_gateway_slash | To_method_not_allowed | To_none

text \<open>The mux over a clean path; a GET pattern also takes HEAD.\<close>

definition standalone_mux :: "string \<Rightarrow> string \<Rightarrow> standalone_route" where
  "standalone_mux m p =
     (if p = ''/oauth2/token'' then (if m = ''POST'' then To_token else To_method_not_allowed)
      else if p = ''/gateway/list'' \<and> (m = ''GET'' \<or> m = ''HEAD'') then To_list
      else if p = ''/gateway/kick'' \<and> m = ''POST'' then To_kick
      else if has_prefix p ''/gateway/'' then To_stub
      else if p = ''/gateway'' then To_gateway_slash
      else To_none)"

type_synonym answer = "nat \<times> string \<times> bytes"

definition http_error :: "nat \<Rightarrow> string \<Rightarrow> answer" where
  "http_error status text = (status, ''text/plain; charset=utf-8'', text @ [CHR 0x0A])"

definition json_answer :: "json \<Rightarrow> answer" where
  "json_answer j = (200, ''application/json'', json_print j @ [CHR 0x0A])"

definition standalone_claims :: "string \<Rightarrow> int \<Rightarrow> int \<Rightarrow> claims" where
  "standalone_claims audience now now2 = (service_claims audience now now2)\<lparr>c_sub := replicate 40 CHR ''s''\<rparr>"

definition standalone_sign :: "mac \<Rightarrow> stub_options \<Rightarrow> int \<Rightarrow> int \<Rightarrow> string" where
  "standalone_sign mac o1 now now2 = sign mac (standalone_claims (so_audience o1) now now2) ''HS256'' (so_secret o1)"

text \<open>The text of a refusal is \<open>{"error":"invalid_client"}\<close>.\<close>

definition standalone_token :: "mac \<Rightarrow> stub_options \<Rightarrow> int \<Rightarrow> int \<Rightarrow> string \<Rightarrow> string \<Rightarrow> string \<Rightarrow> answer" where
  "standalone_token mac o1 now now2 grant client secret =
     (if grant \<noteq> ''client_credentials'' \<or> client \<noteq> so_audience o1 \<or> secret \<noteq> so_secret o1
      then http_error 401 (json_print (JObj [(''error'', jstr ''invalid_client'')]))
      else json_answer (json_map [(''access_token'', jstr (standalone_sign mac o1 now now2)), (''token_type'', jstr ''Bearer''), (''expires_in'', jint (24 * 3600))]))"

text \<open>A slice as JSON: a nil one is null.\<close>

definition json_slice :: "('a \<Rightarrow> json) \<Rightarrow> 'a list \<Rightarrow> json" where
  "json_slice f xs = (if xs = [] then JNull else JArr (map f xs))"

definition registration_json :: "stub_registration \<Rightarrow> json" where
  "registration_json r = JObj [(''module'', jstr (sr_module r)), (''instance'', jstr (sr_instance r)), (''version'', jstr (sr_version r)),
     (''build'', jstr (sr_build r)), (''address'', jstr (sr_address r)), (''prefixes'', json_slice jstr (sr_prefixes r)), (''capacity'', jint (sr_capacity r))]"

definition standalone_list :: "stub \<Rightarrow> answer" where
  "standalone_list s = json_answer (json_map [(''registrations'', json_slice registration_json (st_registrations s)),
     (''heartbeats'', jint (int (length (st_heartbeats s)))),
     (''statuses'', json_slice (\<lambda>(st, r). JObj [(''state'', jstr st), (''reason'', jstr r)]) (st_statuses s)),
     (''unregisters'', json_slice (\<lambda>r. JObj [(''reason'', jstr r)]) (st_unregisters s)),
     (''close_codes'', json_slice jint (st_close_codes s))])"

text \<open>The codes a peer may send in a close frame, as the handler tests them.\<close>

definition kick_refused :: "int \<Rightarrow> bool" where
  "kick_refused code \<longleftrightarrow> code < 1000 \<or> code > 4999 \<or> code \<ge> 1004 \<and> code \<le> 1006 \<or> code = 1015"

definition standalone_kick :: "string \<Rightarrow> stub \<Rightarrow> answer \<times> effect list \<times> stub" where
  "standalone_kick q s =
     (let code = (case parse_int q of None \<Rightarrow> 1001 | Some n \<Rightarrow> n) in
      if kick_refused code then (http_error 400 ''code cannot be sent in a close frame'', [], s)
      else (case kick code ''kicked'' s of (es, s1) \<Rightarrow> ((204, [], []), es, s1)))"

text \<open>The options the command gives the stub.\<close>

definition command_options :: "string \<Rightarrow> string \<Rightarrow> int \<Rightarrow> stub_options" where
  "command_options secret audience interval = \<lparr>so_secret = secret, so_audience = audience, so_interval = interval, so_suspect = 0, so_offline = 0,
     so_register_timeout = 0, so_reject_after_upgrade = False\<rparr>"

section \<open>The recorder\<close>

definition recorder_count :: "gevent \<Rightarrow> gevent list \<Rightarrow> nat" where
  "recorder_count e events = length (filter (\<lambda>x. x = e) events)"

definition record_event :: "gevent \<Rightarrow> gevent list \<Rightarrow> gevent list" where
  "record_event e events = events @ [e]"

definition recorder_wait_n :: "gevent \<Rightarrow> nat \<Rightarrow> int \<Rightarrow> (int \<times> gevent list) list \<Rightarrow> gevent list option option" where
  "recorder_wait_n e n deadline looks = wait_for (\<lambda>evs. recorder_count e evs \<ge> n) deadline looks"

definition recorder_wait :: "gevent \<Rightarrow> int \<Rightarrow> (int \<times> gevent list) list \<Rightarrow> gevent list option option" where
  "recorder_wait e deadline looks = recorder_wait_n e 1 deadline looks"

section \<open>Facts\<close>

text \<open>A token of the front opens the gateway it belongs to for a day, and only who knows audience and secret is given one.\<close>

lemma standalone_token_accepted:
  assumes "claims_ok (standalone_claims (so_audience (st_opts s)) t0 t)" "so_audience (st_opts s) \<noteq> []" "segment_re (g_module cfg)" "segment_re (g_instance cfg)"
    and "g_url cfg = scheme @ ''/gateway''" "before clock (time_unix (t + 24 * 3600))" "0 \<le> t"
  shows "stub_handle mac clock True (drop (length scheme) (session_url cfg)) (bearer_header (standalone_sign mac (st_opts s) t0 t)) s
     = (Serve (g_module cfg) (g_instance cfg), s)"
  unfolding standalone_sign_def by (rule signed_token_accepted) (use assms in \<open>simp_all add: standalone_claims_def service_claims_def\<close>)

lemma standalone_token_refused:
  "fst (standalone_token mac o1 now now2 grant client secret) = (if grant = ''client_credentials'' \<and> client = so_audience o1 \<and> secret = so_secret o1 then 200 else 401)"
  by (simp add: standalone_token_def http_error_def json_answer_def)

text \<open>The handler of \<open>/gateway/list\<close> and of \<open>/gateway/kick\<close> is not shadowed by the control plane, nor is a module of the name shadowed by it: the control plane has two
  segments after \<open>/gateway/\<close>.\<close>

lemma standalone_mux_stub:
  assumes "segment_re m" "segment_re i"
  shows "standalone_mux meth (''/gateway/'' @ m @ CHR ''/'' # i) = To_stub"
proof -
  have "CHR ''/'' \<in> set (m @ CHR ''/'' # i)" by simp
  moreover have "CHR ''/'' \<notin> set ''list''" "CHR ''/'' \<notin> set ''kick''" by simp_all
  ultimately have "m @ CHR ''/'' # i \<noteq> ''list''" "m @ CHR ''/'' # i \<noteq> ''kick''" by metis+
  moreover have "has_prefix (''/gateway/'' @ m @ CHR ''/'' # i) ''/gateway/''" by (rule has_prefix_append)
  ultimately show ?thesis by (simp add: standalone_mux_def)
qed

text \<open>A kick without a code closes the socket with 1001, on which the client reconnects as if it had been replaced; every other accepted code is
  one RFC 6455 lets a peer send.\<close>

lemma kick_default:
  assumes "st_conn s = Some c" "c \<notin> set (st_closed s)" "parse_int q = None"
  shows "\<exists>s1. standalone_kick q s = ((204, [], []), [Closes c 1001 ''kicked''], s1) \<and> st_close_codes s1 = st_close_codes s @ [1001]
     \<and> end_error False (Some (Closed 1001 ''kicked'')) None = Going_away"
  using assms by (simp add: standalone_kick_def kick_refused_def kick_def stub_close_def end_error_def)

lemma kick_codes: "\<not> kick_refused code \<longleftrightarrow> code \<in> {1000..1003} \<union> {1007..1014} \<union> {1016..4999}"
  by (auto simp: kick_refused_def)

text \<open>A test that waits for the drain of a client is told of it: the last event of a \<open>Run\<close> that returned nil is \<open>Ev_drained\<close>.\<close>

lemma drain_recorded:
  assumes "client_run outs = (es @ [Ev_drained], ws, Some Done)" "t \<le> deadline"
  shows "recorder_wait Ev_drained deadline [(t, evs), (t', evs @ fst (client_run outs))] \<noteq> None
     \<and> recorder_wait Ev_drained deadline [(t, evs), (t', evs @ fst (client_run outs))] \<noteq> Some None"
  using assms by (simp add: recorder_wait_def recorder_wait_n_def recorder_count_def)

end
