(* ===== verification/Openapi.thy ===== *)
theory Openapi
  imports Entities Mux
begin

text \<open>
  \<open>src/lib/openapi/openapi.go\<close>: the OpenAPI document built from the operations a module declares and from the Go types of its
  rows and bodies, and \<open>Gaps\<close>, the comparison of a mux with what is described. A Go type is what \<open>reflect\<close> tells of it
  (\<open>go_type\<close>): its kind, the name of a struct and its fields with their tags. A type that contains itself has no finite value here, and
  \<open>structSchema\<close> would not return on it. A \<open>map[string]any\<close> is an association list in the order of its keys (\<open>put\<close> is the assignment),
  so equal maps are equal lists; the map of a schema node is the list of its entries in the order Go visits them, which may be any.
  A panic is a value of the error type. \<open>Marshal\<close> is not modelled.
\<close>

section \<open>The document\<close>

datatype doc = DNull | DBool bool | DInt int | DStr string | DList "doc list" | DMap "(string \<times> doc) list"

type_synonym dmap = "(string \<times> doc) list"

fun put :: "string \<Rightarrow> 'v \<Rightarrow> (string \<times> 'v) list \<Rightarrow> (string \<times> 'v) list" where
  "put k v [] = [(k, v)]"
| "put k v ((k', v') # m) = (if k = k' then (k, v) # m else if k < k' then (k, v) # (k', v') # m else (k', v') # put k v m)"

definition put_if :: "bool \<Rightarrow> string \<Rightarrow> 'v \<Rightarrow> (string \<times> 'v) list \<Rightarrow> (string \<times> 'v) list" where
  "put_if c k v m = (if c then put k v m else m)"

lemma map_of_put [simp]: "map_of (put k v m) = (map_of m)(k \<mapsto> v)"
  by (induction m rule: put.induct) auto

lemma map_of_put_if [simp]: "map_of (put_if c k v m) = (if c then (map_of m)(k \<mapsto> v) else map_of m)"
  by (simp add: put_if_def)

lemma set_put: "set (put k v m) \<subseteq> insert (k, v) (set m)"
  by (induction m rule: put.induct) auto

lemma fresh_upd: "(\<forall>x\<in>A. (m(k \<mapsto> v)) (f x) = None) \<longleftrightarrow> k \<notin> f ` A \<and> (\<forall>x\<in>A. m (f x) = None)"
  unfolding image_iff fun_upd_apply by (metis option.distinct(1))

section \<open>Go types\<close>

datatype go_kind = Str | Boolean | Int8 | Int16 | Int32 | Uint8 | Uint16 | Intn | Int64 | Uintn | Uint32 | Uint64 | Float32 | Float64

datatype go_type =
    Pointer go_type
  | Time
  | RawMessage
  | Basic go_kind
  | Interface
  | Slice go_type
  | Array go_type
  | MapTo go_type
  | Struct string "go_field list"
  | Opaque string
and go_field = Field bool bool go_type "(string \<times> string) list"

text \<open>\<open>Tag.Get\<close>, and the two halves of \<open>strings.Cut(tag, ",")\<close>.\<close>

definition tag_get :: "(string \<times> string) list \<Rightarrow> string \<Rightarrow> string" where
  "tag_get tags k = (case map_of tags k of None \<Rightarrow> [] | Some v \<Rightarrow> v)"

definition json_key :: "(string \<times> string) list \<Rightarrow> string" where
  "json_key tags = cut_before CHR '','' (tag_get tags ''json'')"

definition json_opts :: "(string \<times> string) list \<Rightarrow> string" where
  "json_opts tags = drop 1 (dropWhile (\<lambda>c. c \<noteq> CHR '','') (tag_get tags ''json''))"

text \<open>\<open>time.Time\<close> is of kind struct, with no exported field.\<close>

definition struct_kind :: "go_type \<Rightarrow> bool" where
  "struct_kind t \<longleftrightarrow> (case t of Struct _ _ \<Rightarrow> True | Time \<Rightarrow> True | _ \<Rightarrow> False)"

fun fields_of_type :: "go_type \<Rightarrow> go_field list" where
  "fields_of_type (Struct n fs) = fs"
| "fields_of_type t = []"

lemma fields_of_type_size : "size_list size (fields_of_type t) < Suc (Suc (size t + n))"
  by (cases t) simp_all

section \<open>Schemas of types\<close>

datatype mode = Row | Create | Patch

datatype op_error = Bad_in string string | Undeclared string | Not_in_path "string list" | No_responses | Response_twice string

datatype build_error =
    Needs string
  | Id_twice string string string
  | Described_twice string
  | In_operation string op_error
  | Panic_no_schema string
  | Panic_not_struct string
  | Panic_two_schemas string

definition rbind :: "'e + 'a \<Rightarrow> ('a \<Rightarrow> 'e + 'b) \<Rightarrow> 'e + 'b" where
  "rbind m f = (case m of Inl e \<Rightarrow> Inl e | Inr x \<Rightarrow> f x)"

lemma rbind_simps [simp]: "rbind (Inl e) f = Inl e" "rbind (Inr x) f = f x"
  by (simp_all add: rbind_def)

lemma rbind_Inr_iff: "rbind m f = Inr y \<longleftrightarrow> (\<exists>x. m = Inr x \<and> f x = Inr y)"
  by (cases m) auto

lemma rbind_assoc: "rbind (rbind m f) g = rbind m (\<lambda>x. rbind (f x) g)"
  by (cases m) auto

lemma rbind_cong [fundef_cong]: "m = m' \<Longrightarrow> (\<And>x. m' = Inr x \<Longrightarrow> f x = f' x) \<Longrightarrow> rbind m f = rbind m' f'"
  by (cases m') auto

definition nullable :: "dmap \<Rightarrow> dmap" where
  "nullable s = (case map_of s ''type'' of Some (DStr t) \<Rightarrow> put ''type'' (DList [DStr t, DStr ''null'']) s | _ \<Rightarrow> s)"

definition of_type :: "string \<Rightarrow> dmap" where
  "of_type t = [(''type'', DStr t)]"

fun kind_schema :: "go_kind \<Rightarrow> dmap" where
  "kind_schema Str = of_type ''string''"
| "kind_schema Boolean = of_type ''boolean''"
| "kind_schema Float32 = put ''format'' (DStr ''float'') (of_type ''number'')"
| "kind_schema Float64 = put ''format'' (DStr ''double'') (of_type ''number'')"
| "kind_schema k = put ''format'' (DStr (if k \<in> set [Int8, Int16, Int32, Uint8, Uint16] then ''int32'' else ''int64'')) (of_type ''integer'')"

text \<open>What the tags of a field add to the schema of its type.\<close>

definition tagged :: "(string \<times> string) list \<Rightarrow> dmap \<Rightarrow> dmap" where
  "tagged tags s =
     (let d = tag_get tags ''doc''; fm = tag_get tags ''format''; e = tag_get tags ''enum'' in
      put_if (e \<noteq> []) ''enum'' (DList (map DStr (split_on CHR '','' e)))
        (put_if (fm \<noteq> []) ''format'' (DStr fm) (put_if (d \<noteq> []) ''description'' (DStr d) s)))"

text \<open>A key a create requires is neither null nor empty.\<close>

definition not_null :: "dmap \<Rightarrow> dmap" where
  "not_null s =
     (let s1 = (case map_of s ''type'' of Some (DList [t, _]) \<Rightarrow> put ''type'' t s | _ \<Rightarrow> s) in
      put_if (map_of s1 ''type'' = Some (DStr ''string'')) ''minLength'' (DInt 1) s1)"

definition is_required :: "mode \<Rightarrow> (string \<times> string) list \<Rightarrow> bool" where
  "is_required md tags = (case md of Row \<Rightarrow> \<not> sublist ''omitempty'' (json_opts tags)
     | Create \<Rightarrow> tag_get tags ''required'' = ''create'' | Patch \<Rightarrow> False)"

definition add_field :: "mode \<Rightarrow> (string \<times> string) list \<Rightarrow> dmap \<Rightarrow> dmap \<times> string list \<Rightarrow> dmap \<times> string list" where
  "add_field md tags s acc =
     (let s1 = tagged tags s; s2 = (if md = Create \<and> is_required md tags then not_null s1 else s1) in
      (put (json_key tags) (DMap s2) (fst acc), if is_required md tags then snd acc @ [json_key tags] else snd acc))"

definition struct_doc :: "mode \<Rightarrow> dmap \<times> string list \<Rightarrow> dmap" where
  "struct_doc md acc =
     put_if (md = Patch) ''minProperties'' (DInt 1) (put_if (md \<noteq> Row) ''additionalProperties'' (DBool False)
       (put_if (snd acc \<noteq> []) ''required'' (DList (map DStr (snd acc))) (put ''properties'' (DMap (fst acc)) (of_type ''object''))))"

text \<open>\<open>typeSchema\<close>, and the walk of \<open>structSchema\<close> over the fields of a struct.\<close>

function type_schema :: "go_type \<Rightarrow> build_error + dmap"
and struct_walk :: "mode \<Rightarrow> go_field list \<Rightarrow> dmap \<times> string list \<Rightarrow> build_error + dmap \<times> string list" where
  "type_schema (Pointer t) = rbind (type_schema t) (\<lambda>s. Inr (nullable s))"
| "type_schema Time = Inr (put ''format'' (DStr ''date-time'') (of_type ''string''))"
| "type_schema RawMessage = Inr []"
| "type_schema (Basic k) = Inr (kind_schema k)"
| "type_schema Interface = Inr []"
| "type_schema (Slice t) = rbind (type_schema t) (\<lambda>s. Inr (put ''items'' (DMap s) (of_type ''array'')))"
| "type_schema (Array t) = rbind (type_schema t) (\<lambda>s. Inr (put ''items'' (DMap s) (of_type ''array'')))"
| "type_schema (MapTo t) = rbind (type_schema t) (\<lambda>s. Inr (put ''additionalProperties'' (DMap s) (of_type ''object'')))"
| "type_schema (Struct n fs) = rbind (struct_walk Row fs ([], [])) (\<lambda>acc. Inr (struct_doc Row acc))"
| "type_schema (Opaque n) = Inl (Panic_no_schema n)"
| "struct_walk md [] acc = Inr acc"
| "struct_walk md (Field anon exported t tags # fs) acc =
     (if anon \<and> struct_kind t then rbind (struct_walk md (fields_of_type t) acc) (\<lambda>acc1. struct_walk md fs acc1)
      else if \<not> exported \<or> json_key tags = ''-'' \<or> json_key tags = [] then struct_walk md fs acc
      else rbind (type_schema t) (\<lambda>s. struct_walk md fs (add_field md tags s acc)))"
  by pat_completeness auto
termination
  by (relation "measure (case_sum size (\<lambda>(md, fs, acc). size_list size fs))") (auto simp: fields_of_type_size)

definition struct_schema :: "go_field list \<Rightarrow> mode \<Rightarrow> build_error + dmap" where
  "struct_schema fs md = rbind (struct_walk md fs ([], [])) (\<lambda>acc. Inr (struct_doc md acc))"

section \<open>The builder\<close>

record schema =
  sc_name :: string
  sc_value :: go_type
  sc_mode :: mode
  sc_description :: string

datatype snode = NSchema schema | NMap "(string \<times> snode) list" | NList "snode list" | NLit doc

record builder =
  b_schemas :: dmap
  b_source :: "(string \<times> schema) list"

fun pointee :: "go_type \<Rightarrow> go_type" where
  "pointee (Pointer t) = pointee t"
| "pointee t = t"

definition component :: "schema \<Rightarrow> build_error + dmap" where
  "component s = (let t = pointee (sc_value s) in
     if \<not> struct_kind t then Inl (Panic_not_struct (sc_name s))
     else rbind (struct_schema (fields_of_type t) (sc_mode s))
       (\<lambda>d. Inr (put_if (sc_description s \<noteq> []) ''description'' (DStr (sc_description s)) d)))"

definition add_schema :: "schema \<Rightarrow> builder \<Rightarrow> build_error + builder" where
  "add_schema s b = (case map_of (b_source b) (sc_name s) of
       Some prev \<Rightarrow> if sc_mode prev \<noteq> sc_mode s \<or> sc_value prev \<noteq> sc_value s then Inl (Panic_two_schemas (sc_name s)) else Inr b
     | None \<Rightarrow> rbind (component s) (\<lambda>d. Inr \<lparr>b_schemas = put (sc_name s) (DMap d) (b_schemas b),
         b_source = (sc_name s, s) # b_source b\<rparr>))"

definition schema_ref :: "string \<Rightarrow> doc" where
  "schema_ref n = DMap [(''$ref'', DStr (''#/components/schemas/'' @ n))]"

fun schema_node :: "snode \<Rightarrow> builder \<Rightarrow> build_error + doc \<times> builder"
and schema_map :: "(string \<times> snode) list \<Rightarrow> dmap \<Rightarrow> builder \<Rightarrow> build_error + dmap \<times> builder"
and schema_list :: "snode list \<Rightarrow> builder \<Rightarrow> build_error + doc list \<times> builder" where
  "schema_node (NSchema s) b = rbind (add_schema s b) (\<lambda>b1. Inr (schema_ref (sc_name s), b1))"
| "schema_node (NMap es) b = rbind (schema_map es [] b) (\<lambda>(m, b1). Inr (DMap m, b1))"
| "schema_node (NList ns) b = rbind (schema_list ns b) (\<lambda>(ds, b1). Inr (DList ds, b1))"
| "schema_node (NLit d) b = Inr (d, b)"
| "schema_map [] out b = Inr (out, b)"
| "schema_map ((k, e) # es) out b = rbind (schema_node e b) (\<lambda>(d, b1). schema_map es (put k d out) b1)"
| "schema_list [] b = Inr ([], b)"
| "schema_list (e # es) b = rbind (schema_node e b) (\<lambda>(d, b1). rbind (schema_list es b1) (\<lambda>(ds, b2). Inr (d # ds, b2)))"

section \<open>Operations\<close>

record param =
  pa_name :: string
  pa_in :: string
  pa_description :: string
  pa_required :: bool
  pa_schema :: snode
  pa_deep :: bool

record opbody =
  ob_description :: string
  ob_required :: bool
  ob_schema :: snode

record op_header =
  hd_name :: string
  hd_description :: string
  hd_schema :: snode

record op_response =
  rs_status :: string
  rs_description :: string
  rs_schema :: snode
  rs_problem :: bool
  rs_headers :: "op_header list"

record operation =
  op_method :: string
  op_path :: string
  op_id :: string
  op_summary :: string
  op_description :: string
  op_tag :: string
  op_params :: "param list"
  op_body :: "opbody option"
  op_responses :: "op_response list"

definition pattern :: "operation \<Rightarrow> string" where
  "pattern o1 = op_method o1 @ '' '' @ op_path o1"

definition param_doc :: "param \<Rightarrow> doc \<Rightarrow> doc" where
  "param_doc p d =
     DMap (let m = put ''schema'' d (put ''in'' (DStr (pa_in p)) (put ''name'' (DStr (pa_name p)) []));
               m = put_if (pa_description p \<noteq> []) ''description'' (DStr (pa_description p)) m;
               m = put_if (pa_required p \<or> pa_in p = ''path'') ''required'' (DBool True) m
           in put_if (pa_deep p) ''explode'' (DBool True) (put_if (pa_deep p) ''style'' (DStr ''deepObject'') m))"

text \<open>The loops of \<open>builder.operation\<close>; \<open>pat\<close> is the operation's pattern, with which \<open>Build\<close> wraps the error.\<close>

fun params_docs :: "string \<Rightarrow> param list \<Rightarrow> builder \<Rightarrow> build_error + doc list \<times> builder" where
  "params_docs pat [] b = Inr ([], b)"
| "params_docs pat (p # ps) b =
     (if pa_in p \<notin> set [''path'', ''query'', ''header''] then Inl (In_operation pat (Bad_in (pa_name p) (pa_in p)))
      else rbind (schema_node (pa_schema p) b) (\<lambda>(d, b1). rbind (params_docs pat ps b1) (\<lambda>(ds, b2). Inr (param_doc p d # ds, b2))))"

definition declared :: "param list \<Rightarrow> string list" where
  "declared ps = map pa_name (filter (\<lambda>p. pa_in p = ''path'') ps)"

text \<open>The names between braces, less a final \<open>...\<close>.\<close>

function path_params :: "string \<Rightarrow> string list" where
  "path_params path = (case dropWhile (\<lambda>c. c \<noteq> CHR 0x7B) path of [] \<Rightarrow> []
     | _ # rest \<Rightarrow> (case dropWhile (\<lambda>c. c \<noteq> CHR 0x7D) rest of [] \<Rightarrow> []
         | _ # rest' \<Rightarrow> trim_suffix (takeWhile (\<lambda>c. c \<noteq> CHR 0x7D) rest) ''...'' # path_params rest'))"
  by pat_completeness auto
termination
proof (relation "measure length")
  fix path rest rest' :: string and c d
  assume a: "dropWhile (\<lambda>c. c \<noteq> CHR 0x7B) path = c # rest" and b: "dropWhile (\<lambda>c. c \<noteq> CHR 0x7D) rest = d # rest'"
  show "(rest', path) \<in> measure length"
    using length_dropWhile_le [of "\<lambda>c. c \<noteq> CHR 0x7B" path] length_dropWhile_le [of "\<lambda>c. c \<noteq> CHR 0x7D" rest] by (simp add: a b)
qed simp

declare path_params.simps [simp del]

text \<open>Every parameter of the path is declared, and every declared one is in the path. The error of the code names one of the
  parameters that are left, whichever its map gives first.\<close>

fun check_path :: "string list \<Rightarrow> string list \<Rightarrow> op_error option" where
  "check_path ds [] = (if ds = [] then None else Some (Not_in_path ds))"
| "check_path ds (n # ns) = (if n \<notin> set ds then Some (Undeclared n) else check_path (removeAll n ds) ns)"

fun headers_docs :: "op_header list \<Rightarrow> dmap \<Rightarrow> builder \<Rightarrow> build_error + dmap \<times> builder" where
  "headers_docs [] hs b = Inr (hs, b)"
| "headers_docs (h # t) hs b = rbind (schema_node (hd_schema h) b) (\<lambda>(d, b1).
     headers_docs t (put (hd_name h) (DMap (put_if (hd_description h \<noteq> []) ''description'' (DStr (hd_description h)) [(''schema'', d)])) hs) b1)"

definition content :: "string \<Rightarrow> doc \<Rightarrow> doc" where
  "content mime d = DMap [(mime, DMap [(''schema'', d)])]"

definition response_node :: "op_response \<Rightarrow> builder \<Rightarrow> build_error + dmap \<times> builder" where
  "response_node r b =
     (let rm = [(''description'', DStr (rs_description r))] in
      if rs_problem r then Inr (put ''content'' (content ''application/problem+json'' (schema_ref ''Problem'')) rm, b)
      else if rs_schema r \<noteq> NLit DNull then rbind (schema_node (rs_schema r) b) (\<lambda>(d, b1). Inr (put ''content'' (content ''application/json'' d) rm, b1))
      else Inr (rm, b))"

fun responses_docs :: "string \<Rightarrow> op_response list \<Rightarrow> dmap \<Rightarrow> builder \<Rightarrow> build_error + dmap \<times> builder" where
  "responses_docs pat [] out b = Inr (out, b)"
| "responses_docs pat (r # rs) out b =
     (if map_of out (rs_status r) \<noteq> None then Inl (In_operation pat (Response_twice (rs_status r)))
      else rbind (response_node r b) (\<lambda>(rm, b1). rbind (headers_docs (rs_headers r) [] b1) (\<lambda>(hs, b2).
        responses_docs pat rs (put (rs_status r) (DMap (put_if (rs_headers r \<noteq> []) ''headers'' (DMap hs) rm)) out) b2)))"

definition body_doc :: "opbody \<Rightarrow> doc \<Rightarrow> doc" where
  "body_doc bd d = DMap (put_if (ob_required bd) ''required'' (DBool True)
     (put_if (ob_description bd \<noteq> []) ''description'' (DStr (ob_description bd)) [(''content'', content ''application/json'' d)]))"

definition op_head :: "operation \<Rightarrow> dmap" where
  "op_head o1 = put_if (op_tag o1 \<noteq> []) ''tags'' (DList [DStr (op_tag o1)])
     (put_if (op_description o1 \<noteq> []) ''description'' (DStr (op_description o1))
       (put_if (op_summary o1 \<noteq> []) ''summary'' (DStr (op_summary o1)) [(''operationId'', DStr (op_id o1))]))"

definition operation_doc :: "operation \<Rightarrow> builder \<Rightarrow> build_error + dmap \<times> builder" where
  "operation_doc o1 b =
     (let pat = pattern o1 in
      rbind (params_docs pat (op_params o1) b) (\<lambda>(params, b1).
      case check_path (declared (op_params o1)) (path_params (op_path o1)) of Some e \<Rightarrow> Inl (In_operation pat e)
      | None \<Rightarrow>
        (let out = put_if (op_params o1 \<noteq> []) ''parameters'' (DList params) (op_head o1) in
         rbind (case op_body o1 of None \<Rightarrow> Inr (out, b1)
                | Some bd \<Rightarrow> rbind (schema_node (ob_schema bd) b1) (\<lambda>(d, b2). Inr (put ''requestBody'' (body_doc bd d) out, b2))) (\<lambda>(out1, b2).
         if op_responses o1 = [] then Inl (In_operation pat No_responses)
         else rbind (responses_docs pat (op_responses o1) [] b2) (\<lambda>(rs, b3). Inr (put ''responses'' (DMap rs) out1, b3))))))"

section \<open>Build\<close>

record info =
  in_title :: string
  in_version :: string
  in_description :: string
  in_extensions :: dmap

text \<open>\<open>strings.ToLower\<close> of a method.\<close>

definition to_lower1 :: "char \<Rightarrow> char" where
  "to_lower1 c = (if is_upper c then char_of (ord_of c + 32) else c)"

type_synonym paths = "(string \<times> dmap) list"

definition path_item :: "paths \<Rightarrow> string \<Rightarrow> dmap" where
  "path_item ps p = (case map_of ps p of None \<Rightarrow> [] | Some m \<Rightarrow> m)"

fun build_ops :: "operation list \<Rightarrow> (string \<times> string) list \<Rightarrow> paths \<Rightarrow> builder \<Rightarrow> build_error + paths \<times> builder" where
  "build_ops [] seen ps b = Inr (ps, b)"
| "build_ops (o1 # os) seen ps b =
     (if op_method o1 = [] \<or> \<not> has_prefix (op_path o1) ''/'' \<or> op_id o1 = [] then Inl (Needs (pattern o1))
      else (case map_of seen (op_id o1) of Some prev \<Rightarrow> Inl (Id_twice (op_id o1) prev (pattern o1))
      | None \<Rightarrow>
        (let item = path_item ps (op_path o1); m = map to_lower1 (op_method o1) in
         if map_of item m \<noteq> None then Inl (Described_twice (pattern o1))
         else rbind (operation_doc o1 b) (\<lambda>(d, b1).
           build_ops os ((op_id o1, pattern o1) # seen) (put (op_path o1) (put m (DMap d) item) ps) b1))))"

definition str_field :: "bool \<Rightarrow> go_type \<Rightarrow> string \<Rightarrow> string \<Rightarrow> go_field" where
  "str_field exported t json d = Field False exported t [(''json'', json), (''doc'', d)]"

definition problem_type :: go_type where
  "problem_type = Struct ''problem.Problem''
     [str_field True (Basic Str) ''type'' ''urn:apostol:error:ERR-GGG-CCC for a catalogue error, urn:apostol:error:<slug> (unauthorized, validation, not-found, precondition-failed, precondition-required, conflict, internal, raise, and others) for one the module makes itself; read the slug as a class that may grow, not as a closed list.'',
      str_field True (Basic Str) ''title'' ''Short text of the problem, in the language of the session where there is one.'',
      str_field True (Basic Intn) ''status'' ''The HTTP status of the answer.'',
      str_field True (Basic Str) ''detail,omitempty'' ''What exactly is wrong with this request.'',
      str_field True (Basic Str) ''instance,omitempty'' ''The path of the request.'',
      str_field True (Basic Str) ''request_id,omitempty'' ''The X-Request-Id of the request.'',
      str_field True (Pointer (Basic Str)) ''code'' ''The machine key ERR-GGG-CCC of the error catalogue; null where the catalogue has none.'',
      Field False False (Basic Boolean) []]"

definition problem_schema :: schema where
  "problem_schema = \<lparr>sc_name = ''Problem'', sc_value = problem_type, sc_mode = Row,
     sc_description = ''application/problem+json (RFC 9457). Catalogue errors carry the ERR-GGG-CCC code in `type` and `code`; the HTTP status is GGG when that is a valid status, else 400.''\<rparr>"

definition info_doc :: "info \<Rightarrow> dmap" where
  "info_doc i = fold (\<lambda>(k, v). put k v) (in_extensions i)
     (put_if (in_description i \<noteq> []) ''description'' (DStr (in_description i)) (put ''version'' (DStr (in_version i)) (put ''title'' (DStr (in_title i)) [])))"

definition security_schemes :: doc where
  "security_schemes = DMap [(''bearerAuth'', DMap [(''bearerFormat'', DStr ''JWT''),
     (''description'', DStr ''The access token of the OAuth 2.0 provider, verified before any route.''),
     (''scheme'', DStr ''bearer''), (''type'', DStr ''http'')])]"

definition document :: "info \<Rightarrow> paths \<Rightarrow> builder \<Rightarrow> dmap" where
  "document i ps b = [(''components'', DMap [(''schemas'', DMap (b_schemas b)), (''securitySchemes'', security_schemes)]),
     (''info'', DMap (info_doc i)), (''openapi'', DStr ''3.1.0''), (''paths'', DMap (map (\<lambda>(p, m). (p, DMap m)) ps)),
     (''security'', DList [DMap [(''bearerAuth'', DList [])]])]"

definition build :: "info \<Rightarrow> operation list \<Rightarrow> build_error + dmap" where
  "build i ops = rbind (add_schema problem_schema \<lparr>b_schemas = [], b_source = []\<rparr>) (\<lambda>b.
     rbind (build_ops ops [] [] b) (\<lambda>(ps, b1). Inr (document i ps b1)))"

section \<open>Gaps\<close>

text \<open>A path template as a path the mux can route.\<close>

function concrete :: "string \<Rightarrow> string" where
  "concrete [] = []"
| "concrete (c # cs) = (if c \<noteq> CHR 0x7B then c # concrete cs
     else (case dropWhile (\<lambda>x. x \<noteq> CHR 0x7D) cs of [] \<Rightarrow> c # cs | _ # rest \<Rightarrow> CHR ''v'' # concrete rest))"
  by pat_completeness auto
termination
proof (relation "measure length")
  fix c d and cs rest :: string assume a: "dropWhile (\<lambda>x. x \<noteq> CHR 0x7D) cs = d # rest"
  show "(rest, c # cs) \<in> measure length" using length_dropWhile_le [of "\<lambda>x. x \<noteq> CHR 0x7D" cs] by (simp add: a)
qed simp_all

text \<open>The path of the request to \<open>"http://x" + path\<close>: what precedes a query or a fragment, if the URL parses. \<open>mux.Handler\<close> cleans
  it, but for CONNECT, and gives the pattern of what it finds.\<close>

definition request_path :: "string \<Rightarrow> string option" where
  "request_path p = (let q = takeWhile (\<lambda>c. c \<notin> set [CHR ''?'', CHR ''#'']) p in
     if \<not> has_prefix q ''/'' \<or> list_ex (\<lambda>c. ord_of c < 32 \<or> ord_of c = 127) p \<or> unescape q = None then None else Some q)"

definition clean_path :: "string \<Rightarrow> string" where
  "clean_path p = (let c = path_clean p in if has_suffix p ''/'' \<and> \<not> has_suffix c ''/'' then c @ ''/'' else c)"

definition probe :: "route list \<Rightarrow> string \<Rightarrow> string \<Rightarrow> string" where
  "probe rs m path = (case request_path (concrete path) of None \<Rightarrow> []
     | Some q \<Rightarrow> (case mux_find rs m (if m = ''CONNECT'' then q else clean_path q) of
         None \<Rightarrow> [] | Some ((m', p', f), _) \<Rightarrow> m' @ '' '' @ p'))"

definition all_methods :: "string list" where
  "all_methods = [''GET'', ''HEAD'', ''POST'', ''PUT'', ''PATCH'', ''DELETE'', ''OPTIONS'', ''TRACE'', ''CONNECT'']"

definition gaps :: "route list \<Rightarrow> operation list \<Rightarrow> string list \<times> string list" where
  "gaps rs ops =
     (let want = map pattern ops;
          missing = map pattern (filter (\<lambda>o1. probe rs (op_method o1) (op_path o1) \<noteq> pattern o1) ops);
          found = concat (map (\<lambda>p. map (\<lambda>m. probe rs m p) all_methods) (remdups (map op_path ops)))
      in (sort missing, sort (remdups (filter (\<lambda>pat. pat \<noteq> [] \<and> pat \<notin> set want) found))))"

section \<open>Build without the builder\<close>

text \<open>Reference definitions with no state: the schemas a node names in the order they are met, and the document a node becomes.
  The lemmas below show that the builder does exactly this.\<close>

fun schemas_in :: "snode \<Rightarrow> schema list"
and schemas_map :: "(string \<times> snode) list \<Rightarrow> schema list"
and schemas_list :: "snode list \<Rightarrow> schema list" where
  "schemas_in (NSchema s) = [s]"
| "schemas_in (NMap es) = schemas_map es"
| "schemas_in (NList ns) = schemas_list ns"
| "schemas_in (NLit d) = []"
| "schemas_map [] = []"
| "schemas_map ((k, e) # es) = schemas_in e @ schemas_map es"
| "schemas_list [] = []"
| "schemas_list (e # es) = schemas_in e @ schemas_list es"

fun render :: "snode \<Rightarrow> doc"
and render_map :: "(string \<times> snode) list \<Rightarrow> dmap \<Rightarrow> dmap"
and render_list :: "snode list \<Rightarrow> doc list" where
  "render (NSchema s) = schema_ref (sc_name s)"
| "render (NMap es) = DMap (render_map es [])"
| "render (NList ns) = DList (render_list ns)"
| "render (NLit d) = d"
| "render_map [] out = out"
| "render_map ((k, e) # es) out = render_map es (put k (render e) out)"
| "render_list [] = []"
| "render_list (e # es) = render e # render_list es"

fun add_all :: "schema list \<Rightarrow> builder \<Rightarrow> build_error + builder" where
  "add_all [] b = Inr b"
| "add_all (s # ss) b = rbind (add_schema s b) (add_all ss)"

lemma add_all_append: "add_all (xs @ ys) b = rbind (add_all xs b) (add_all ys)"
proof (induction xs arbitrary: b)
  case (Cons s xs) then show ?case by (cases "add_schema s b") simp_all
qed simp

lemma node_eq:
  "schema_node n b = rbind (add_all (schemas_in n) b) (\<lambda>b1. Inr (render n, b1))"
  "schema_map es out b = rbind (add_all (schemas_map es) b) (\<lambda>b1. Inr (render_map es out, b1))"
  "schema_list ns b = rbind (add_all (schemas_list ns) b) (\<lambda>b1. Inr (render_list ns, b1))"
proof (induction n b and es out b and ns b rule: schema_node_schema_map_schema_list.induct)
  case (1 s b) show ?case by (cases "add_schema s b") simp_all
next
  case (2 es b) then show ?case by (cases "add_all (schemas_map es) b") simp_all
next
  case (3 ns b) then show ?case by (cases "add_all (schemas_list ns) b") simp_all
next
  case (6 k e es out b) then show ?case by (cases "add_all (schemas_in e) b") (simp_all add: add_all_append)
next
  case (8 e es b) then show ?case
    by (cases "add_all (schemas_in e) b") (auto simp: add_all_append rbind_def split: sum.splits)
qed simp_all

lemma node_Inr_iff: "schema_node n b = Inr (d, b1) \<longleftrightarrow> add_all (schemas_in n) b = Inr b1 \<and> d = render n"
  by (auto simp: node_eq rbind_Inr_iff)

definition in_ok :: "param \<Rightarrow> bool" where
  "in_ok p \<longleftrightarrow> pa_in p \<in> set [''path'', ''query'', ''header'']"

definition param_render :: "param \<Rightarrow> doc" where
  "param_render p = param_doc p (render (pa_schema p))"

lemma params_docs_iff:
  "params_docs pat ps b = Inr (ds, b1) \<longleftrightarrow> list_all in_ok ps \<and> add_all (concat (map (\<lambda>p. schemas_in (pa_schema p)) ps)) b = Inr b1
     \<and> ds = map param_render ps"
proof (induction ps arbitrary: b ds)
  case (Cons p ps)
  then show ?case
    by (auto simp: rbind_Inr_iff node_Inr_iff add_all_append in_ok_def param_render_def)
qed auto

lemma check_path_None_iff: "check_path ds ns = None \<longleftrightarrow> distinct ns \<and> set ds = set ns"
  by (induction ds ns rule: check_path.induct) auto

definition header_render :: "op_header \<Rightarrow> doc" where
  "header_render h = DMap (put_if (hd_description h \<noteq> []) ''description'' (DStr (hd_description h)) [(''schema'', render (hd_schema h))])"

lemma headers_docs_iff:
  "headers_docs hs out b = Inr (m, b1) \<longleftrightarrow> add_all (concat (map (\<lambda>h. schemas_in (hd_schema h)) hs)) b = Inr b1
     \<and> m = fold (\<lambda>h. put (hd_name h) (header_render h)) hs out"
  by (induction hs arbitrary: b out) (auto simp: rbind_Inr_iff node_Inr_iff add_all_append header_render_def)

definition response_schemas :: "op_response \<Rightarrow> schema list" where
  "response_schemas r = (if rs_problem r then [] else schemas_in (rs_schema r)) @ concat (map (\<lambda>h. schemas_in (hd_schema h)) (rs_headers r))"

definition response_head :: "op_response \<Rightarrow> dmap" where
  "response_head r =
     (let rm = [(''description'', DStr (rs_description r))] in
      if rs_problem r then put ''content'' (content ''application/problem+json'' (schema_ref ''Problem'')) rm
      else if rs_schema r \<noteq> NLit DNull then put ''content'' (content ''application/json'' (render (rs_schema r))) rm else rm)"

definition response_render :: "op_response \<Rightarrow> doc" where
  "response_render r = DMap (put_if (rs_headers r \<noteq> []) ''headers'' (DMap (fold (\<lambda>h. put (hd_name h) (header_render h)) (rs_headers r) []))
     (response_head r))"

lemma response_node_iff:
  "response_node r b = Inr (rm, b1) \<longleftrightarrow> add_all (if rs_problem r then [] else schemas_in (rs_schema r)) b = Inr b1 \<and> rm = response_head r"
  by (auto simp: response_node_def response_head_def Let_def rbind_Inr_iff node_Inr_iff)

lemma responses_docs_iff:
  "responses_docs pat rs out b = Inr (m, b1) \<longleftrightarrow> distinct (map rs_status rs) \<and> (\<forall>r\<in>set rs. map_of out (rs_status r) = None)
     \<and> add_all (concat (map response_schemas rs)) b = Inr b1 \<and> m = fold (\<lambda>r. put (rs_status r) (response_render r)) rs out"
proof (induction rs arbitrary: out b)
  case (Cons r rs)
  have "responses_docs pat (r # rs) out b = Inr (m, b1) \<longleftrightarrow> map_of out (rs_status r) = None
     \<and> (\<exists>b2. add_all (response_schemas r) b = Inr b2 \<and> responses_docs pat rs (put (rs_status r) (response_render r) out) b2 = Inr (m, b1))"
    by (auto simp: rbind_Inr_iff response_node_iff headers_docs_iff response_schemas_def response_render_def add_all_append)
  moreover have "(\<forall>q\<in>set rs. map_of (put (rs_status r) (response_render r) out) (rs_status q) = None)
     \<longleftrightarrow> rs_status r \<notin> rs_status ` set rs \<and> (\<forall>q\<in>set rs. map_of out (rs_status q) = None)"
    unfolding map_of_put by (rule fresh_upd)
  ultimately show ?case unfolding Cons.IH by (simp add: add_all_append rbind_Inr_iff) blast
qed auto

definition op_ok :: "operation \<Rightarrow> bool" where
  "op_ok o1 \<longleftrightarrow> list_all in_ok (op_params o1) \<and> distinct (path_params (op_path o1))
     \<and> set (declared (op_params o1)) = set (path_params (op_path o1)) \<and> op_responses o1 \<noteq> [] \<and> distinct (map rs_status (op_responses o1))"

definition op_schemas :: "operation \<Rightarrow> schema list" where
  "op_schemas o1 = concat (map (\<lambda>p. schemas_in (pa_schema p)) (op_params o1))
     @ (case op_body o1 of None \<Rightarrow> [] | Some bd \<Rightarrow> schemas_in (ob_schema bd)) @ concat (map response_schemas (op_responses o1))"

definition op_render :: "operation \<Rightarrow> dmap" where
  "op_render o1 = put ''responses'' (DMap (fold (\<lambda>r. put (rs_status r) (response_render r)) (op_responses o1) []))
     ((case op_body o1 of None \<Rightarrow> \<lambda>m. m | Some bd \<Rightarrow> put ''requestBody'' (body_doc bd (render (ob_schema bd))))
       (put_if (op_params o1 \<noteq> []) ''parameters'' (DList (map param_render (op_params o1))) (op_head o1)))"

lemma op_ok_iff:
  "op_ok o1 \<longleftrightarrow> list_all in_ok (op_params o1) \<and> check_path (declared (op_params o1)) (path_params (op_path o1)) = None
     \<and> op_responses o1 \<noteq> [] \<and> distinct (map rs_status (op_responses o1))"
  by (auto simp: op_ok_def check_path_None_iff)

lemma operation_doc_iff: "operation_doc o1 b = Inr (d, b1) \<longleftrightarrow> op_ok o1 \<and> add_all (op_schemas o1) b = Inr b1 \<and> d = op_render o1"
  by (cases "op_body o1"; cases "check_path (declared (op_params o1)) (path_params (op_path o1))")
    (auto simp: operation_doc_def Let_def rbind_Inr_iff params_docs_iff responses_docs_iff node_Inr_iff op_ok_iff op_schemas_def op_render_def
      add_all_append)

definition op_method_key :: "operation \<Rightarrow> string" where
  "op_method_key o1 = map to_lower1 (op_method o1)"

definition op_named :: "operation \<Rightarrow> bool" where
  "op_named o1 \<longleftrightarrow> op_method o1 \<noteq> [] \<and> has_prefix (op_path o1) ''/'' \<and> op_id o1 \<noteq> []"

definition add_path :: "operation \<Rightarrow> paths \<Rightarrow> paths" where
  "add_path o1 ps = put (op_path o1) (put (op_method_key o1) (DMap (op_render o1)) (path_item ps (op_path o1))) ps"

lemma path_item_put: "path_item (put p m ps) q = (if q = p then m else path_item ps q)"
  by (simp add: path_item_def)

lemma map_of_add_path:
  "map_of (path_item (add_path o1 ps) q) m = (if q = op_path o1 \<and> m = op_method_key o1 then Some (DMap (op_render o1)) else map_of (path_item ps q) m)"
  by (simp add: add_path_def path_item_put)

lemma build_ops_iff:
  "build_ops os seen ps b = Inr (qs, b1) \<longleftrightarrow> list_all op_named os \<and> list_all op_ok os \<and> distinct (map op_id os)
     \<and> (\<forall>o1\<in>set os. map_of seen (op_id o1) = None) \<and> distinct (map (\<lambda>o1. (op_path o1, op_method_key o1)) os)
     \<and> (\<forall>o1\<in>set os. map_of (path_item ps (op_path o1)) (op_method_key o1) = None)
     \<and> add_all (concat (map op_schemas os)) b = Inr b1 \<and> qs = fold add_path os ps"
proof (induction os arbitrary: seen ps b)
  case (Cons o1 os)
  have "build_ops (o1 # os) seen ps b = Inr (qs, b1) \<longleftrightarrow> op_named o1 \<and> map_of seen (op_id o1) = None
     \<and> map_of (path_item ps (op_path o1)) (op_method_key o1) = None \<and> op_ok o1
     \<and> (\<exists>b2. add_all (op_schemas o1) b = Inr b2 \<and> build_ops os ((op_id o1, pattern o1) # seen) (add_path o1 ps) b2 = Inr (qs, b1))"
    by (auto simp: Let_def op_named_def op_method_key_def add_path_def rbind_Inr_iff operation_doc_iff split: option.splits)
  moreover have "(\<forall>o2\<in>set os. map_of ((op_id o1, pattern o1) # seen) (op_id o2) = None)
     \<longleftrightarrow> op_id o1 \<notin> op_id ` set os \<and> (\<forall>o2\<in>set os. map_of seen (op_id o2) = None)"
    using fresh_upd [of "set os" "map_of seen" "op_id o1" "pattern o1" op_id] by simp
  moreover have "(\<forall>o2\<in>set os. map_of (path_item (add_path o1 ps) (op_path o2)) (op_method_key o2) = None)
     \<longleftrightarrow> (op_path o1, op_method_key o1) \<notin> (\<lambda>o1. (op_path o1, op_method_key o1)) ` set os
       \<and> (\<forall>o2\<in>set os. map_of (path_item ps (op_path o2)) (op_method_key o2) = None)"
    unfolding map_of_add_path image_iff prod.inject by (metis option.distinct(1))
  ultimately show ?case unfolding Cons.IH by (simp add: add_all_append rbind_Inr_iff) blast
qed auto

section \<open>The components\<close>

definition same_schema :: "schema \<Rightarrow> schema \<Rightarrow> bool" where
  "same_schema s t \<longleftrightarrow> sc_mode s = sc_mode t \<and> sc_value s = sc_value t"

definition has_component :: "schema \<Rightarrow> bool" where
  "has_component s \<longleftrightarrow> (\<exists>d. component s = Inr d)"

definition built :: "builder \<Rightarrow> bool" where
  "built b \<longleftrightarrow> (\<forall>n s. map_of (b_source b) n = Some s \<longrightarrow> sc_name s = n \<and> has_component s)
     \<and> (\<forall>n. map_of (b_schemas b) n = map_option (\<lambda>s. DMap (projr (component s))) (map_of (b_source b) n))"

lemma same_schema_component: "same_schema s t \<Longrightarrow> has_component s \<longleftrightarrow> has_component t"
  by (auto simp: same_schema_def has_component_def component_def Let_def rbind_Inr_iff split: if_splits)

lemma add_schema_known: "map_of (b_source b) (sc_name s) = Some p \<Longrightarrow> add_schema s b = Inr b1 \<longleftrightarrow> same_schema p s \<and> b1 = b"
  by (auto simp: add_schema_def same_schema_def)

lemma add_schema_new:
  "map_of (b_source b) (sc_name s) = None \<Longrightarrow> add_schema s b = Inr b1 \<longleftrightarrow> has_component s
     \<and> b1 = \<lparr>b_schemas = put (sc_name s) (DMap (projr (component s))) (b_schemas b), b_source = (sc_name s, s) # b_source b\<rparr>"
  by (auto simp: add_schema_def has_component_def rbind_Inr_iff)

lemma add_schema_built: "built b \<Longrightarrow> add_schema s b = Inr b1 \<Longrightarrow> built b1"
  by (cases "map_of (b_source b) (sc_name s)") (auto simp: add_schema_known add_schema_new built_def)

lemma add_all_built:
  "built b \<Longrightarrow> add_all ss b = Inr b1 \<Longrightarrow> built b1
     \<and> map_of (b_source b1) n = (case map_of (b_source b) n of Some s \<Rightarrow> Some s | None \<Rightarrow> find (\<lambda>s. sc_name s = n) ss)"
proof (induction ss arbitrary: b)
  case (Cons s ss)
  then obtain b2 where b2: "add_schema s b = Inr b2" "add_all ss b2 = Inr b1" by (auto simp: rbind_Inr_iff)
  with Cons add_schema_built have "built b1" and n: "map_of (b_source b1) n =
     (case map_of (b_source b2) n of Some s \<Rightarrow> Some s | None \<Rightarrow> find (\<lambda>s. sc_name s = n) ss)" by blast+
  moreover have "map_of (b_source b2) n = (if map_of (b_source b) n = None \<and> sc_name s = n then Some s else map_of (b_source b) n)"
    using b2(1) by (cases "map_of (b_source b) (sc_name s)") (auto simp: add_schema_known add_schema_new)
  ultimately show ?case by (auto split: option.splits)
qed (simp split: option.splits)

text \<open>A list of schemas is taken exactly when every one has a component and no name is given to two of them.\<close>

definition agrees :: "builder \<Rightarrow> schema \<Rightarrow> bool" where
  "agrees b s \<longleftrightarrow> (case map_of (b_source b) (sc_name s) of None \<Rightarrow> True | Some p \<Rightarrow> same_schema p s)"

definition clash_free :: "schema list \<Rightarrow> bool" where
  "clash_free ss \<longleftrightarrow> (\<forall>s\<in>set ss. \<forall>t\<in>set ss. sc_name s = sc_name t \<longrightarrow> same_schema s t)"

definition addable :: "builder \<Rightarrow> schema list \<Rightarrow> bool" where
  "addable b ss \<longleftrightarrow> list_all has_component ss \<and> list_all (agrees b) ss \<and> clash_free ss"

lemma same_schema_rel: "same_schema s s" "same_schema s t \<Longrightarrow> same_schema t s" "same_schema s t \<Longrightarrow> same_schema t u \<Longrightarrow> same_schema s u"
  by (simp_all add: same_schema_def)

definition alike :: "schema \<Rightarrow> schema \<Rightarrow> bool" where
  "alike s t \<longleftrightarrow> sc_name s = sc_name t \<longrightarrow> same_schema s t"

lemma clash_free_Cons: "clash_free (s # ss) \<longleftrightarrow> list_all (alike s) ss \<and> clash_free ss"
  unfolding clash_free_def list_all_iff alike_def by (auto intro: same_schema_rel)

lemma addable_step: "built b \<Longrightarrow> addable b (s # ss) \<longleftrightarrow> (\<exists>b1. add_schema s b = Inr b1 \<and> addable b1 ss)"
proof (cases "map_of (b_source b) (sc_name s)")
  case (Some p)
  assume "built b"
  with Some have "has_component p" by (auto simp: built_def)
  then have "same_schema p s \<Longrightarrow> has_component s" by (metis same_schema_component)
  moreover have "agrees b t \<Longrightarrow> same_schema p s \<Longrightarrow> alike s t" for t
    using Some by (auto simp: agrees_def alike_def same_schema_def)
  then have "list_all (agrees b) ss \<Longrightarrow> same_schema p s \<Longrightarrow> list_all (alike s) ss" by (auto simp: list_all_iff)
  moreover have "agrees b s \<longleftrightarrow> same_schema p s" using Some by (simp add: agrees_def)
  ultimately show ?thesis using Some by (auto simp: add_schema_known addable_def clash_free_Cons)
next
  case None
  then have "agrees \<lparr>b_schemas = m, b_source = (sc_name s, s) # b_source b\<rparr> t \<longleftrightarrow> alike s t \<and> agrees b t" for m t
    by (auto simp: agrees_def alike_def)
  then have "list_all (agrees \<lparr>b_schemas = m, b_source = (sc_name s, s) # b_source b\<rparr>) ss \<longleftrightarrow> list_all (alike s) ss \<and> list_all (agrees b) ss" for m
    by (auto simp: list_all_iff)
  moreover have "agrees b s" using None by (simp add: agrees_def)
  ultimately show ?thesis using None by (auto simp: add_schema_new addable_def clash_free_Cons)
qed

lemma add_all_iff: "built b \<Longrightarrow> (\<exists>b1. add_all ss b = Inr b1) \<longleftrightarrow> addable b ss"
proof (induction ss arbitrary: b)
  case (Cons s ss)
  have "(\<exists>b1. add_all (s # ss) b = Inr b1) \<longleftrightarrow> (\<exists>b2. add_schema s b = Inr b2 \<and> (\<exists>b1. add_all ss b2 = Inr b1))"
    by (auto simp: rbind_Inr_iff)
  with Cons add_schema_built show ?case by (metis addable_step)
qed (simp add: addable_def clash_free_def)

section \<open>What Build accepts and gives\<close>

definition empty_builder :: builder where
  "empty_builder = \<lparr>b_schemas = [], b_source = []\<rparr>"

definition all_schemas :: "operation list \<Rightarrow> schema list" where
  "all_schemas ops = problem_schema # concat (map op_schemas ops)"

definition routed :: "operation list \<Rightarrow> bool" where
  "routed ops \<longleftrightarrow> list_all op_named ops \<and> list_all op_ok ops \<and> distinct (map op_id ops) \<and> distinct (map (\<lambda>o1. (op_path o1, op_method_key o1)) ops)"

text \<open>Operations that can be described: each is named, declares exactly the parameters of its path and answers each status once;
  no identifier and no method of a path stands twice; and every schema is of a struct all of whose types have a schema, no name being given
  to two of them.\<close>

definition ops_describable :: "operation list \<Rightarrow> bool" where
  "ops_describable ops \<longleftrightarrow> routed ops \<and> addable empty_builder (all_schemas ops)"

lemma built_empty: "built empty_builder"
  by (simp add: built_def empty_builder_def)

lemma build_eq:
  "build i ops = Inr d \<longleftrightarrow> routed ops \<and> (\<exists>b. add_all (all_schemas ops) empty_builder = Inr b \<and> d = document i (fold add_path ops []) b)"
  by (auto simp: build_def rbind_Inr_iff build_ops_iff routed_def all_schemas_def empty_builder_def path_item_def)

lemma build_accepts: "(\<exists>d. build i ops = Inr d) \<longleftrightarrow> ops_describable ops"
  by (auto simp: build_eq ops_describable_def add_all_iff [OF built_empty, symmetric])

lemma addable_empty: "addable empty_builder ss \<longleftrightarrow> list_all has_component ss \<and> clash_free ss"
  by (simp add: addable_def agrees_def empty_builder_def list_all_iff)

text \<open>C37: \<open>Build\<close> gives a document exactly for operations that can be described: every one has a method, a rooted path and an identifier,
  declares exactly the parameters of its path, each in the path, the query or a header, and has answers, one for each status; no identifier
  and no method of a path is described twice; every schema is of a struct whose fields have schemas, and no name, \<open>Problem\<close> included, is
  given to two different ones.\<close>

theorem build_iff:
  "(\<exists>d. build i ops = Inr d) \<longleftrightarrow>
     list_all (\<lambda>o1. op_method o1 \<noteq> [] \<and> has_prefix (op_path o1) ''/'' \<and> op_id o1 \<noteq> [] \<and> list_all in_ok (op_params o1)
       \<and> distinct (path_params (op_path o1)) \<and> set (declared (op_params o1)) = set (path_params (op_path o1))
       \<and> op_responses o1 \<noteq> [] \<and> distinct (map rs_status (op_responses o1))) ops
     \<and> distinct (map op_id ops) \<and> distinct (map (\<lambda>o1. (op_path o1, op_method_key o1)) ops)
     \<and> list_all has_component (all_schemas ops) \<and> clash_free (all_schemas ops)"
  unfolding build_accepts ops_describable_def routed_def addable_empty by (auto simp: list_all_iff op_named_def op_ok_def)

fun doc_at :: "string list \<Rightarrow> doc \<Rightarrow> doc option" where
  "doc_at [] d = Some d"
| "doc_at (k # ks) (DMap m) = (case map_of m k of None \<Rightarrow> None | Some d \<Rightarrow> doc_at ks d)"
| "doc_at (k # ks) d = None"

lemma fold_add_path:
  "distinct (map (\<lambda>o1. (op_path o1, op_method_key o1)) ops) \<Longrightarrow>
   map_of (path_item (fold add_path ops ps) p) m = (case find (\<lambda>o1. op_path o1 = p \<and> op_method_key o1 = m) ops of
     None \<Rightarrow> map_of (path_item ps p) m | Some o1 \<Rightarrow> Some (DMap (op_render o1)))"
proof (induction ops arbitrary: ps)
  case (Cons o1 ops)
  then have "(op_path o1, op_method_key o1) \<notin> (\<lambda>o1. (op_path o1, op_method_key o1)) ` set ops" by simp
  then have "find (\<lambda>o2. op_path o2 = op_path o1 \<and> op_method_key o2 = op_method_key o1) ops = None"
    unfolding find_None_iff image_iff by (metis prod.inject)
  with Cons show ?case by (auto simp: map_of_add_path split: option.splits)
qed simp

lemma map_of_map_DMap: "map_of (map (\<lambda>(p, m). (p, DMap m)) ps) p = map_option DMap (map_of ps p)"
  by (induction ps) auto

lemma document_paths: "doc_at [''paths'', p, m] (DMap (document i ps b)) = map_of (path_item ps p) m"
  by (cases "map_of ps p") (auto simp: document_def map_of_map_DMap path_item_def split: option.splits)

lemma document_components: "doc_at [''components'', ''schemas'', n] (DMap (document i ps b)) = map_of (b_schemas b) n"
  by (simp add: document_def split: option.splits)

text \<open>The document describes the operations and nothing else: under a path and a method stands the description of the
  operation that has them, as it is with no other operation around it, and nothing where there is none.\<close>

lemma build_paths:
  assumes "build i ops = Inr d"
  shows "doc_at [''paths'', p, m] (DMap d) = map_option (\<lambda>o1. DMap (op_render o1)) (find (\<lambda>o1. op_path o1 = p \<and> op_method_key o1 = m) ops)"
proof -
  from assms obtain b where "routed ops" "d = document i (fold add_path ops []) b" by (auto simp: build_eq)
  then show ?thesis
    using fold_add_path [of ops "[]" p m] by (simp only: document_paths routed_def) (auto simp: path_item_def split: option.splits)
qed

text \<open>The components are the schemas the operations name, and \<open>Problem\<close>: under a name stands the schema of the
  struct it was given to, with the description of the first that names it.\<close>

lemma build_components:
  assumes "build i ops = Inr d"
  shows "doc_at [''components'', ''schemas'', n] (DMap d)
     = map_option (\<lambda>s. DMap (projr (component s))) (find (\<lambda>s. sc_name s = n) (all_schemas ops))"
proof -
  from assms obtain b where "add_all (all_schemas ops) empty_builder = Inr b" and d: "d = document i (fold add_path ops []) b"
    by (auto simp: build_eq)
  then have "built b" "map_of (b_source b) n = find (\<lambda>s. sc_name s = n) (all_schemas ops)"
    using add_all_built [OF built_empty, of "all_schemas ops" b n] by (auto simp: empty_builder_def)
  with d show ?thesis by (simp only: document_components built_def)
qed

section \<open>References\<close>

text \<open>A document refers to \<open>r\<close> somewhere.\<close>

fun has_ref :: "string \<Rightarrow> doc \<Rightarrow> bool" where
  "has_ref r (DMap m) = list_ex (\<lambda>(k, v). k = ''$ref'' \<and> v = DStr r \<or> has_ref r v) m"
| "has_ref r (DList ds) = list_ex (has_ref r) ds"
| "has_ref r d = False"

declare has_ref.simps(1) [simp del]

lemma has_ref_DMap [simp]:
  "\<not> has_ref r (DMap [])" "has_ref r (DMap ((k, v) # m)) \<longleftrightarrow> k = ''$ref'' \<and> v = DStr r \<or> has_ref r v \<or> has_ref r (DMap m)"
  by (auto simp: has_ref.simps(1))

text \<open>A node brings the reference itself, in a ready fragment.\<close>

fun raw :: "string \<Rightarrow> snode \<Rightarrow> bool" where
  "raw r (NSchema s) = False"
| "raw r (NMap es) = list_ex (\<lambda>(k, e). k = ''$ref'' \<and> e = NLit (DStr r) \<or> raw r e) es"
| "raw r (NList ns) = list_ex (raw r) ns"
| "raw r (NLit d) = has_ref r d"

lemma has_ref_put: "has_ref r (DMap (put k v m)) \<Longrightarrow> has_ref r (DMap m) \<or> has_ref r v \<or> k = ''$ref'' \<and> v = DStr r"
  using set_put [of k v m] by (fastforce simp: list_ex_iff has_ref.simps(1))

lemma has_ref_put_if: "has_ref r (DMap (put_if c k v m)) \<Longrightarrow> has_ref r (DMap m) \<or> has_ref r v \<or> k = ''$ref'' \<and> v = DStr r"
  using has_ref_put [of r k v m] by (auto simp: put_if_def split: if_splits)

lemma has_ref_fold:
  "(\<And>x. x \<in> set xs \<Longrightarrow> g x \<noteq> DStr r) \<Longrightarrow> has_ref r (DMap (fold (\<lambda>x. put (f x) (g x)) xs out)) \<Longrightarrow> has_ref r (DMap out) \<or> (\<exists>x\<in>set xs. has_ref r (g x))"
proof (induction xs arbitrary: out)
  case (Cons x xs)
  then have "has_ref r (DMap (put (f x) (g x) out)) \<or> (\<exists>x\<in>set xs. has_ref r (g x))" by simp
  with has_ref_put [of r "f x" "g x" out] Cons.prems(1) [of x] show ?case by auto
qed simp

definition ref_to :: "schema list \<Rightarrow> string \<Rightarrow> bool" where
  "ref_to ss r \<longleftrightarrow> (\<exists>s\<in>set ss. r = ''#/components/schemas/'' @ sc_name s)"

lemma ref_to_Cons: "ref_to (s # ss) r \<longleftrightarrow> r = ''#/components/schemas/'' @ sc_name s \<or> ref_to ss r"
  by (auto simp: ref_to_def)

lemma ref_to_append: "ref_to (xs @ ys) r \<longleftrightarrow> ref_to xs r \<or> ref_to ys r"
  by (auto simp: ref_to_def)

lemma render_refs:
  "has_ref r (render n) \<Longrightarrow> raw r n \<or> ref_to (schemas_in n) r"
  "has_ref r (DMap (render_map es out)) \<Longrightarrow> has_ref r (DMap out) \<or> raw r (NMap es) \<or> ref_to (schemas_map es) r"
  "list_ex (has_ref r) (render_list ns) \<Longrightarrow> raw r (NList ns) \<or> ref_to (schemas_list ns) r"
proof (induction n and es out and ns rule: render_render_map_render_list.induct)
  case (1 s) then show ?case by (simp add: schema_ref_def ref_to_def)
next
  case (2 es) then show ?case by simp
next
  case (6 k e es out)
  from 6(2) [OF 6(3) [unfolded render_map.simps]] 6(1) show ?case
    using has_ref_put [of r k "render e" out] by (cases e) (auto simp: ref_to_append ref_to_Cons schema_ref_def)
qed (auto simp: ref_to_append)

definition response_nodes :: "op_response \<Rightarrow> snode list" where
  "response_nodes r = (if rs_problem r then [] else [rs_schema r]) @ map hd_schema (rs_headers r)"

definition op_nodes :: "operation \<Rightarrow> snode list" where
  "op_nodes o1 = map pa_schema (op_params o1) @ (case op_body o1 of None \<Rightarrow> [] | Some bd \<Rightarrow> [ob_schema bd]) @ concat (map response_nodes (op_responses o1))"

lemma response_schemas_nodes: "concat (map response_schemas rs) = concat (map schemas_in (concat (map response_nodes rs)))"
  by (induction rs) (simp_all add: response_schemas_def response_nodes_def comp_def)

lemma op_schemas_nodes: "op_schemas o1 = concat (map schemas_in (op_nodes o1))"
  by (simp add: op_schemas_def op_nodes_def response_schemas_nodes comp_def split: option.splits)

lemma ref_to_concat: "n \<in> set ns \<Longrightarrow> ref_to (schemas_in n) r \<Longrightarrow> ref_to (concat (map schemas_in ns)) r"
  by (auto simp: ref_to_def)

lemma response_refs: "has_ref x (response_render r) \<Longrightarrow> ref_to [problem_schema] x \<or> (\<exists>n\<in>set (response_nodes r). has_ref x (render n))"
proof -
  assume "has_ref x (response_render r)"
  then have "has_ref x (DMap (fold (\<lambda>h. put (hd_name h) (header_render h)) (rs_headers r) [])) \<or> has_ref x (DMap (response_head r))"
    unfolding response_render_def using has_ref_put_if by blast
  moreover have "\<exists>h\<in>set (rs_headers r). has_ref x (render (hd_schema h))"
    if "has_ref x (DMap (fold (\<lambda>h. put (hd_name h) (header_render h)) (rs_headers r) []))"
  proof -
    have "\<exists>h\<in>set (rs_headers r). has_ref x (header_render h)"
      using has_ref_fold [OF _ that] by (auto simp: header_render_def)
    then show ?thesis unfolding header_render_def by (auto dest!: has_ref_put_if)
  qed
  moreover have "ref_to [problem_schema] x \<or> \<not> rs_problem r \<and> has_ref x (render (rs_schema r))" if "has_ref x (DMap (response_head r))"
    using that by (auto simp: response_head_def Let_def content_def schema_ref_def ref_to_def problem_schema_def split: if_splits dest!: has_ref_put)
  ultimately show ?thesis by (auto simp: response_nodes_def)
qed

lemma op_refs: "has_ref x (DMap (op_render o1)) \<Longrightarrow> ref_to [problem_schema] x \<or> (\<exists>n\<in>set (op_nodes o1). has_ref x (render n))"
proof -
  let ?rs = "fold (\<lambda>r. put (rs_status r) (response_render r)) (op_responses o1) []"
  let ?head = "put_if (op_params o1 \<noteq> []) ''parameters'' (DList (map param_render (op_params o1))) (op_head o1)"
  assume "has_ref x (DMap (op_render o1))"
  then have "has_ref x (DMap ?rs) \<or> (\<exists>bd. op_body o1 = Some bd \<and> has_ref x (body_doc bd (render (ob_schema bd)))) \<or> has_ref x (DMap ?head)"
    unfolding op_render_def by (cases "op_body o1") (auto dest!: has_ref_put)
  moreover have "\<exists>r\<in>set (op_responses o1). has_ref x (response_render r)" if "has_ref x (DMap ?rs)"
    using has_ref_fold [OF _ that] by (auto simp: response_render_def)
  moreover have "has_ref x (render (ob_schema bd))" if "has_ref x (body_doc bd (render (ob_schema bd)))" for bd
    using that unfolding body_doc_def by (auto simp: content_def dest!: has_ref_put_if)
  moreover have "\<exists>p\<in>set (op_params o1). has_ref x (render (pa_schema p))" if "has_ref x (DMap ?head)"
  proof -
    have "\<not> has_ref x (DMap (op_head o1))" unfolding op_head_def by (auto dest!: has_ref_put_if)
    with has_ref_put_if [OF that] obtain p where "p \<in> set (op_params o1)" "has_ref x (param_render p)" by (auto simp: list_ex_iff)
    then show ?thesis unfolding param_render_def param_doc_def Let_def by (auto dest!: has_ref_put_if has_ref_put)
  qed
  ultimately consider r where "r \<in> set (op_responses o1)" "has_ref x (response_render r)"
    | bd where "op_body o1 = Some bd" "has_ref x (render (ob_schema bd))" | p where "p \<in> set (op_params o1)" "has_ref x (render (pa_schema p))"
    by blast
  then show ?thesis
  proof cases
    case 1 with response_refs [OF 1(2)] show ?thesis by (auto simp: op_nodes_def)
  qed (auto simp: op_nodes_def)
qed

lemma map_of_has_ref: "map_of m k = Some d \<Longrightarrow> has_ref r d \<Longrightarrow> has_ref r (DMap m)"
  using map_of_SomeD [of m k d] by (auto simp: has_ref.simps(1) list_ex_iff)

lemma strings_no_ref [simp]: "\<not> list_ex (has_ref r) (map DStr xs)"
  by (induction xs) auto

lemma typed_no_ref [simp]: "\<not> has_ref r (DMap (of_type t))"
  by (simp add: of_type_def)

lemma nullable_refs: "has_ref r (DMap (nullable s)) \<Longrightarrow> has_ref r (DMap s)"
  by (auto simp: nullable_def split: option.splits doc.splits dest!: has_ref_put)

lemma tagged_refs: "has_ref r (DMap (tagged tags s)) \<Longrightarrow> has_ref r (DMap s)"
  by (auto simp: tagged_def Let_def dest!: has_ref_put_if)

lemma not_null_refs: "has_ref r (DMap (not_null s)) \<Longrightarrow> has_ref r (DMap s)"
proof -
  define s1 where "s1 = (case map_of s ''type'' of Some (DList [t, _]) \<Rightarrow> put ''type'' t s | _ \<Rightarrow> s)"
  assume "has_ref r (DMap (not_null s))"
  then have "has_ref r (DMap s1)" by (auto simp: not_null_def Let_def s1_def dest!: has_ref_put_if)
  then show ?thesis
    by (auto simp: s1_def split: option.splits doc.splits list.splits dest!: has_ref_put intro: map_of_has_ref)
qed

lemma add_field_refs: "has_ref r (DMap (fst (add_field md tags s acc))) \<Longrightarrow> has_ref r (DMap (fst acc)) \<or> has_ref r (DMap s)"
  by (auto simp: add_field_def Let_def split: if_splits dest!: has_ref_put not_null_refs tagged_refs)

lemma struct_doc_refs: "has_ref r (DMap (struct_doc md acc)) \<Longrightarrow> has_ref r (DMap (fst acc))"
  unfolding struct_doc_def by (auto dest!: has_ref_put_if has_ref_put)

lemma kind_no_ref [simp]: "\<not> has_ref r (DMap (kind_schema k))"
  by (cases k) (simp_all add: of_type_def)

lemma type_schema_no_ref:
  "type_schema t = Inr s \<Longrightarrow> \<not> has_ref r (DMap s)"
  "struct_walk md fs acc = Inr acc1 \<Longrightarrow> \<not> has_ref r (DMap (fst acc)) \<Longrightarrow> \<not> has_ref r (DMap (fst acc1))"
proof (induction t and md fs acc arbitrary: s and acc1 rule: type_schema_struct_walk.induct)
  case (12 md anon exported t tags fs acc)
  show ?case
  proof (cases "anon \<and> struct_kind t")
    case True
    with 12(6) obtain acc2 where "struct_walk md (fields_of_type t) acc = Inr acc2" "struct_walk md fs acc2 = Inr acc1"
      by (auto simp: rbind_Inr_iff)
    with 12 True show ?thesis by blast
  next
    case False
    show ?thesis
    proof (cases "\<not> exported \<or> json_key tags = ''-'' \<or> json_key tags = []")
      case True with 12(3,6,7) False show ?thesis by (simp split: if_splits)
    next
      case nskip: False
      with 12(6) False obtain s where "type_schema t = Inr s" "struct_walk md fs (add_field md tags s acc) = Inr acc1"
        by (auto simp: rbind_Inr_iff)
      with 12(4,5,7) nskip False add_field_refs show ?thesis by blast
    qed
  qed
qed (auto simp: rbind_Inr_iff dest!: nullable_refs has_ref_put struct_doc_refs)

lemma component_no_ref: "component s = Inr d \<Longrightarrow> \<not> has_ref r (DMap d)"
  using type_schema_no_ref(2)
  by (fastforce simp: component_def struct_schema_def Let_def rbind_Inr_iff split: if_splits dest!: has_ref_put_if struct_doc_refs)

lemma add_all_no_ref: "add_all ss b = Inr b1 \<Longrightarrow> \<not> has_ref r (DMap (b_schemas b)) \<Longrightarrow> \<not> has_ref r (DMap (b_schemas b1))"
proof (induction ss arbitrary: b)
  case (Cons s ss)
  then obtain b2 where b2: "add_schema s b = Inr b2" "add_all ss b2 = Inr b1" by (auto simp: rbind_Inr_iff)
  then have "\<not> has_ref r (DMap (b_schemas b2))" using Cons.prems(2)
    by (cases "map_of (b_source b) (sc_name s)")
      (auto simp: add_schema_known add_schema_new has_component_def component_no_ref dest!: has_ref_put)
  with Cons.IH b2 show ?case by blast
qed simp

definition paths_doc :: "paths \<Rightarrow> doc" where
  "paths_doc ps = DMap (map (\<lambda>(p, m). (p, DMap m)) ps)"

lemma paths_doc_refs: "has_ref x (paths_doc ps) \<longleftrightarrow> (\<exists>(p, m)\<in>set ps. has_ref x (DMap m))"
  by (auto simp: paths_doc_def has_ref.simps(1) list_ex_iff split: prod.splits)

lemma add_path_refs: "has_ref x (paths_doc (add_path o1 ps)) \<Longrightarrow> has_ref x (paths_doc ps) \<or> has_ref x (DMap (op_render o1))"
proof -
  let ?item = "put (op_method_key o1) (DMap (op_render o1)) (path_item ps (op_path o1))"
  assume "has_ref x (paths_doc (add_path o1 ps))"
  then have "has_ref x (paths_doc ps) \<or> has_ref x (DMap ?item)"
    using set_put [of "op_path o1" ?item ps] by (auto simp: paths_doc_refs add_path_def)
  moreover have "has_ref x (DMap (path_item ps (op_path o1))) \<Longrightarrow> has_ref x (paths_doc ps)"
    by (auto simp: path_item_def paths_doc_refs split: option.splits dest: map_of_SomeD)
  ultimately show ?thesis by (auto dest!: has_ref_put)
qed

lemma fold_add_path_refs: "has_ref x (paths_doc (fold add_path ops ps)) \<Longrightarrow> has_ref x (paths_doc ps) \<or> (\<exists>o1\<in>set ops. has_ref x (DMap (op_render o1)))"
  by (induction ops arbitrary: ps) (auto dest!: add_path_refs)

text \<open>C38: no reference of the document dangles: whatever a \<open>$ref\<close> of it names is a component of the document, unless the
  reference came ready in a fragment the caller gave.\<close>

theorem refs_resolve:
  assumes "build i ops = Inr d" and "has_ref r (DMap d)"
  shows "(\<exists>n c. r = ''#/components/schemas/'' @ n \<and> doc_at [''components'', ''schemas'', n] (DMap d) = Some c)
     \<or> has_ref r (DMap (info_doc i)) \<or> (\<exists>o1\<in>set ops. \<exists>n\<in>set (op_nodes o1). raw r n)"
proof -
  from assms(1) obtain b where b: "add_all (all_schemas ops) empty_builder = Inr b" and d: "d = document i (fold add_path ops []) b"
    by (auto simp: build_eq)
  have found: "?thesis" if "ref_to (all_schemas ops) r"
  proof -
    from that obtain s where s: "s \<in> set (all_schemas ops)" "r = ''#/components/schemas/'' @ sc_name s" by (auto simp: ref_to_def)
    then obtain t where "find (\<lambda>t. sc_name t = sc_name s) (all_schemas ops) = Some t" by (metis (mono_tags) find_None_iff option.exhaust)
    with s(2) build_components [OF assms(1), of "sc_name s"] show ?thesis by auto
  qed
  have "\<not> has_ref r (DMap (b_schemas b))" using add_all_no_ref [OF b] by (simp add: empty_builder_def)
  then have "has_ref r (DMap (info_doc i)) \<or> has_ref r (paths_doc (fold add_path ops []))"
    using assms(2) by (auto simp: d document_def security_schemes_def paths_doc_def)
  then consider "has_ref r (DMap (info_doc i))" | o1 where "o1 \<in> set ops" "has_ref r (DMap (op_render o1))"
    using fold_add_path_refs [of r ops "[]"] by (auto simp: paths_doc_refs)
  then show ?thesis
  proof cases
    case 2
    from op_refs [OF 2(2)] consider "ref_to [problem_schema] r" | n where "n \<in> set (op_nodes o1)" "has_ref r (render n)" by blast
    then show ?thesis
    proof cases
      case 1 then show ?thesis by (intro found) (auto simp: all_schemas_def ref_to_def)
    next
      case (2 n)
      with \<open>o1 \<in> set ops\<close> have "raw r n \<or> ref_to (op_schemas o1) r" by (metis render_refs(1) ref_to_concat op_schemas_nodes)
      moreover have "ref_to (op_schemas o1) r \<Longrightarrow> ref_to (all_schemas ops) r"
        using \<open>o1 \<in> set ops\<close> by (auto simp: ref_to_def all_schemas_def)
      ultimately show ?thesis using found \<open>o1 \<in> set ops\<close> 2(1) by blast
    qed
  qed simp
qed

text \<open>An operation that answers a row by name, and one whose schema is a map of several entries.\<close>

definition sample_op :: "snode \<Rightarrow> operation" where
  "sample_op n = \<lparr>op_method = ''GET'', op_path = ''/x'', op_id = ''x_get'', op_summary = [], op_description = [], op_tag = [], op_params = [], op_body = None,
     op_responses = [\<lparr>rs_status = ''200'', rs_description = ''ok'', rs_schema = n, rs_problem = False, rs_headers = []\<rparr>]\<rparr>"

definition sample_schema :: "string \<Rightarrow> schema" where
  "sample_schema d = \<lparr>sc_name = ''X'', sc_value = Struct ''x.X'' [str_field True (Basic Str) ''id'' []], sc_mode = Row, sc_description = d\<rparr>"

definition sample_info :: info where
  "sample_info = \<lparr>in_title = ''x'', in_version = ''1'', in_description = [], in_extensions = []\<rparr>"

theorem refs_resolve_witness:
  "\<exists>d. build sample_info [sample_op (NSchema (sample_schema []))] = Inr d \<and> has_ref ''#/components/schemas/X'' (DMap d)
     \<and> ((\<exists>n c. ''#/components/schemas/X'' = ''#/components/schemas/'' @ n \<and> doc_at [''components'', ''schemas'', n] (DMap d) = Some c)
        \<or> has_ref ''#/components/schemas/X'' (DMap (info_doc sample_info))
        \<or> (\<exists>o1\<in>set [sample_op (NSchema (sample_schema []))]. \<exists>n\<in>set (op_nodes o1). raw ''#/components/schemas/X'' n))"
proof -
  let ?ops = "[sample_op (NSchema (sample_schema []))]"
  have "\<not> isl (build sample_info ?ops)" by code_simp
  then obtain d where d: "build sample_info ?ops = Inr d" by (cases "build sample_info ?ops") auto
  have "has_ref ''#/components/schemas/X'' (DMap (projr (build sample_info ?ops)))" by code_simp
  then have "has_ref ''#/components/schemas/X'' (DMap d)" by (simp add: d)
  with d refs_resolve [OF d] show ?thesis by blast
qed

text \<open>The document is not a function of the operations alone: where two schemas of one name differ in their description, a map that holds both gives
  the component the description of the one Go happens to visit first.\<close>

lemma description_by_order:
  "build sample_info [sample_op (NMap [(''a'', NSchema (sample_schema ''one'')), (''b'', NSchema (sample_schema ''two''))])]
     \<noteq> build sample_info [sample_op (NMap [(''b'', NSchema (sample_schema ''two'')), (''a'', NSchema (sample_schema ''one''))])]"
proof
  let ?d = "\<lambda>es. doc_at [''components'', ''schemas'', ''X'', ''description''] (DMap (projr (build sample_info [sample_op (NMap es)])))"
  let ?a = "(''a'', NSchema (sample_schema ''one''))" and ?b = "(''b'', NSchema (sample_schema ''two''))"
  assume "build sample_info [sample_op (NMap [?a, ?b])] = build sample_info [sample_op (NMap [?b, ?a])]"
  then have "?d [?a, ?b] = ?d [?b, ?a]" by simp
  moreover have "?d [?a, ?b] = Some (DStr ''one'')" "?d [?b, ?a] = Some (DStr ''two'')" by code_simp+
  ultimately show False by simp
qed

section \<open>Schemas and bodies\<close>

text \<open>\<open>jsonKeys\<close> of \<open>src/lib/entity/entity.go\<close>: the keys of a body in the order of its fields, embedded structs flattened.\<close>

function json_keys :: "go_field list \<Rightarrow> string list" where
  "json_keys [] = []"
| "json_keys (Field anon exported t tags # fs) =
     (if anon \<and> struct_kind t then json_keys (fields_of_type t) @ json_keys fs
      else if json_key tags \<noteq> [] \<and> json_key tags \<noteq> ''-'' then json_key tags # json_keys fs else json_keys fs)"
  by pat_completeness auto
termination
  by (relation "measure (size_list size)") (auto simp: fields_of_type_size)

function all_exported :: "go_field list \<Rightarrow> bool" where
  "all_exported [] = True"
| "all_exported (Field anon exported t tags # fs) =
     ((if anon \<and> struct_kind t then all_exported (fields_of_type t) else exported) \<and> all_exported fs)"
  by pat_completeness auto
termination
  by (relation "measure (size_list size)") (auto simp: fields_of_type_size)

lemma add_field_keys:
  "dom (map_of (fst (add_field md tags s acc))) = insert (json_key tags) (dom (map_of (fst acc)))"
  "set (snd (add_field md tags s acc)) \<subseteq> insert (json_key tags) (set (snd acc))"
  by (auto simp: add_field_def Let_def)

lemma struct_walk_keys:
  "type_schema t = Inr s \<Longrightarrow> True"
  "struct_walk md fs acc = Inr acc1 \<Longrightarrow> all_exported fs \<Longrightarrow>
     dom (map_of (fst acc1)) = dom (map_of (fst acc)) \<union> set (json_keys fs) \<and> set (snd acc1) \<subseteq> set (snd acc) \<union> set (json_keys fs)"
proof (induction t and md fs acc arbitrary: s and acc1 rule: type_schema_struct_walk.induct)
  case (12 md anon exported t tags fs acc)
  show ?case
  proof (cases "anon \<and> struct_kind t")
    case True
    with 12(6) obtain acc2 where "struct_walk md (fields_of_type t) acc = Inr acc2" "struct_walk md fs acc2 = Inr acc1"
      by (auto simp: rbind_Inr_iff)
    with 12(1) [OF True this(1)] 12(2) [OF True this(1,2)] 12(7) True show ?thesis by auto
  next
    case False
    show ?thesis
    proof (cases "\<not> exported \<or> json_key tags = ''-'' \<or> json_key tags = []")
      case True with 12(3,6,7) False show ?thesis by (auto split: if_splits)
    next
      case nskip: False
      with 12(6) False obtain s where s: "type_schema t = Inr s" "struct_walk md fs (add_field md tags s acc) = Inr acc1"
        by (auto simp: rbind_Inr_iff)
      with 12(5) [OF False nskip s] 12(7) nskip False show ?thesis
        using add_field_keys [of md tags s acc] by auto
    qed
  qed
qed auto

text \<open>C39: the schema of a body names exactly the keys the entity takes (\<open>jsonKeys\<close>, with which \<open>Named\<close> builds the arguments of the
  write function), and it requires none but these.\<close>

theorem schema_keys:
  assumes "struct_schema fs md = Inr d" and "all_exported fs"
  shows "\<exists>props. map_of d ''properties'' = Some (DMap props) \<and> dom (map_of props) = set (json_keys fs)
     \<and> (case map_of d ''required'' of Some (DList req) \<Rightarrow> set req \<subseteq> DStr ` set (json_keys fs) | Some _ \<Rightarrow> False | None \<Rightarrow> True)"
proof -
  from assms(1) obtain acc where w: "struct_walk md fs ([], []) = Inr acc" and d: "d = struct_doc md acc"
    by (auto simp: struct_schema_def rbind_Inr_iff)
  with struct_walk_keys(2) [OF w assms(2)] show ?thesis by (auto simp: struct_doc_def of_type_def)
qed

theorem schema_keys_witness:
  "\<exists>props. map_of (projr (struct_schema (fields_of_type problem_type) Row)) ''properties'' = Some (DMap props)
     \<and> dom (map_of props) \<subseteq> set (json_keys (fields_of_type problem_type))"
proof -
  let ?fs = "butlast (fields_of_type problem_type)"
  have same: "struct_schema (fields_of_type problem_type) Row = struct_schema ?fs Row" "json_keys (fields_of_type problem_type) = json_keys ?fs" by code_simp+
  have "\<not> isl (struct_schema ?fs Row)" by code_simp
  then obtain d where d: "struct_schema ?fs Row = Inr d" by (cases "struct_schema ?fs Row") auto
  moreover have "all_exported ?fs" by code_simp
  ultimately show ?thesis using schema_keys [of ?fs Row d] by (auto simp: same)
qed

end
