(* ===== verification/Describe.thy ===== *)
theory Describe
  imports Openapi
begin

text \<open>
  \<open>src/lib/entity/openapi.go\<close>: what an entity says of its six routes. \<open>form_ops\<close> is the description half of the table \<open>form\<close>; the
  handlers are the other half (\<open>form\<close> of \<open>Entity\<close>), and both have one entry for each route in the same order. An entity's \<open>Row\<close> and
  the type of its body are Go types, arguments here because \<open>reflect\<close> reads them off the value.
\<close>

section \<open>Texts\<close>

definition ellipsis :: string where
  "ellipsis = [CHR 0xE2, CHR 0x80, CHR 0xA6]"

definition dash :: string where
  "dash = [CHR 0xE2, CHR 0x80, CHR 0x94]"

definition in_quotes :: "string \<Rightarrow> string" where
  "in_quotes s = CHR 0x22 # s @ [CHR 0x22]"

definition words :: "string \<Rightarrow> string" where
  "words = map (\<lambda>c. if c = CHR ''-'' \<or> c = CHR ''_'' then CHR '' '' else c)"

definition snake :: "string \<Rightarrow> string" where
  "snake = map (\<lambda>c. if c = CHR ''-'' then CHR ''_'' else c)"

text \<open>\<open>pascalOf\<close>: the words between \<open>_\<close> and \<open>-\<close>, each with its first letter in upper case.\<close>

definition capital :: "string \<Rightarrow> string" where
  "capital w = (case w of [] \<Rightarrow> [] | c # cs \<Rightarrow> to_upper1 c # cs)"

definition pascal_of :: "string \<Rightarrow> string" where
  "pascal_of n = concat (map capital (split_on CHR ''-'' (map (\<lambda>c. if c = CHR ''_'' then CHR ''-'' else c) n)))"

section \<open>The row of a method\<close>

definition row_field :: "go_type \<Rightarrow> string \<Rightarrow> string \<Rightarrow> string \<Rightarrow> go_field" where
  "row_field t key fmt d = Field False True t [(''json'', key), (''format'', fmt), (''doc'', d)]"

definition method_row :: go_type where
  "method_row = (let str = Basic Str; opt = Pointer (Basic Str) in Struct ''entity.MethodRow''
     [row_field str ''id'' ''uuid'' ''Identifier of the method.'',
      row_field opt ''parent'' ''uuid'' ''Parent method (a nested or sub-menu method), or null.'',
      row_field str ''entity'' ''uuid'' ''Entity of the class.'',
      row_field str ''entitycode'' [] ''Code of the entity.'',
      row_field opt ''entityname'' [] ''Name of the entity in the session's locale, or null where it has no text.'',
      row_field str ''class'' ''uuid'' ''Class the method belongs to.'',
      row_field str ''classcode'' [] ''Code of the class.'',
      row_field opt ''classlabel'' [] ''Label of the class in the session's locale, or null where it has no text.'',
      row_field opt ''state'' ''uuid'' ''State in which the method is available; null means any state.'',
      row_field opt ''statecode'' [] ''Code of that state, or null.'',
      row_field opt ''statelabel'' [] ''Label of that state in the session's locale, or null.'',
      row_field str ''action'' ''uuid'' ''Action the method performs.'',
      row_field str ''actioncode'' [] ''Code of the action: the {action} of POST <xs>/{id}/actions/{action}.'',
      row_field opt ''actionname'' [] ''Name of the action in the session's locale, or null.'',
      row_field str ''code'' [] ''Code of the method, state_code:action_code.'',
      row_field opt ''label'' [] ''Label of the method in the session's locale, or null.'',
      row_field (Basic Int32) ''sequence'' [] ''Display and processing order; the answer is in this order.'',
      row_field (Basic Boolean) ''execute'' [] ''The caller may execute the method on this object.'',
      row_field (Basic Boolean) ''visible'' [] ''The method is shown to the caller.'',
      row_field (Basic Boolean) ''enable'' [] ''The method is enabled for the caller.''])"

section \<open>Parts of the form\<close>

definition text_node :: "string \<Rightarrow> snode" where
  "text_node s = NLit (DStr s)"

definition str_node :: snode where
  "str_node = NMap [(''type'', text_node ''string'')]"

definition object_node :: snode where
  "object_node = NMap [(''type'', text_node ''object''), (''additionalProperties'', NLit (DBool True))]"

definition plain_param :: "string \<Rightarrow> string \<Rightarrow> snode \<Rightarrow> string \<Rightarrow> param" where
  "plain_param name where_in sch d = \<lparr>pa_name = name, pa_in = where_in, pa_description = d, pa_required = False, pa_schema = sch, pa_deep = False\<rparr>"

definition refused :: "string \<Rightarrow> string \<Rightarrow> op_response" where
  "refused status d = \<lparr>rs_status = status, rs_description = d, rs_schema = NLit DNull, rs_problem = True, rs_headers = []\<rparr>"

definition answered :: "string \<Rightarrow> string \<Rightarrow> snode \<Rightarrow> op_header list \<Rightarrow> op_response" where
  "answered status d sch hs = \<lparr>rs_status = status, rs_description = d, rs_schema = sch, rs_problem = False, rs_headers = hs\<rparr>"

definition no_body_node :: snode where
  "no_body_node = NLit DNull"

definition errs :: "op_response list \<Rightarrow> op_response list" where
  "errs rs = rs @
     [refused ''401'' ''No bearer token, a token that does not verify or has expired, or a session the database does not know. Carries WWW-Authenticate.'',
      refused ''403'' (''The database refused: the route is not open to this session, or a right is missing (ERR-403-'' @ ellipsis @ '').''),
      refused ''default'' ''Any other refusal of the error catalogue: the status is the GGG of its ERR-GGG-CCC code (400 where that is not a status). A failure of the service itself is 500 with type urn:apostol:error:internal.'']"

definition not_found_response :: "string \<Rightarrow> op_response" where
  "not_found_response noun = refused ''404'' (''There is no such '' @ noun @ '', or the caller may not see it '' @ dash @ '' the two are not told apart.'')"

definition etag_header :: op_header where
  "etag_header = \<lparr>hd_name = ''ETag'', hd_description = ''Weak ETag of the row: its last update, or a digest of the row.'', hd_schema = str_node\<rparr>"

definition id_param :: "string \<Rightarrow> param" where
  "id_param noun = plain_param ''id'' ''path'' (NMap [(''type'', text_node ''string''), (''format'', text_node ''uuid'')])
     (''Identifier of the '' @ noun @ '': a UUID. Anything else is refused with 400 before the database.'')"

definition list_params :: "string list \<Rightarrow> param list" where
  "list_params search =
     [\<lparr>pa_name = ''filter'', pa_in = ''query'',
       pa_description = ''Conditions on the row's properties: filter[<property>]=<value>, or filter[<property>][<operator>]=<value> with the operator one of eq, ne, lt, lte, gt, gte, like, ilike, in (comma-separated values), null. Conditions are joined with AND.'',
       pa_required = False,
       pa_schema = NMap [(''type'', text_node ''object''), (''additionalProperties'', NMap [(''oneOf'', NList [str_node,
         NMap [(''type'', text_node ''object''), (''additionalProperties'', str_node)]])])],
       pa_deep = True\<rparr>,
      plain_param ''sort'' ''query'' str_node ''Comma-separated properties; a leading - is descending: sort=-created,name.'',
      plain_param ''fields'' ''query'' str_node ''Comma-separated properties to return; the others are left out of each item.'',
      plain_param ''page[limit]'' ''query'' (NMap [(''type'', text_node ''integer''), (''minimum'', NLit (DInt 1)), (''maximum'', NLit (DInt max_limit)),
        (''default'', NLit (DInt default_limit))]) ''Page size.'',
      plain_param ''page[offset]'' ''query'' (NMap [(''type'', text_node ''integer''), (''minimum'', NLit (DInt 0)), (''default'', NLit (DInt 0))]) ''Rows to skip.'']
     @ (if search = [] then [] else [plain_param ''q'' ''query'' str_node
         (''One term, matched without regard to case over '' @ join '', '' search @ ''; given once.'')])"

section \<open>The form\<close>

text \<open>The schemas of the row, of the body of POST and of the body of PATCH.\<close>

definition row_schema :: "entity \<Rightarrow> go_type \<Rightarrow> schema" where
  "row_schema e t = \<lparr>sc_name = pascal_of (en_name e), sc_value = t, sc_mode = Row,
     sc_description = ''A row of api.'' @ en_name e @ '' as the database gives it: every property is present, a property that has no value is null. In a list answered with `fields`, only the named properties are present.''\<rparr>"

definition input_schema :: "entity \<Rightarrow> go_type \<Rightarrow> schema" where
  "input_schema e t = \<lparr>sc_name = pascal_of (en_name e) @ ''Input'', sc_value = t, sc_mode = Create,
     sc_description = ''Body of POST '' @ en_prefix e @ ''. An absent key and an explicit null both mean '' @ in_quotes ''not set'' @ '', except for a required key: it must be present and not empty (400 otherwise); a key the schema does not name is refused with 400.''\<rparr>"

definition patch_schema :: "entity \<Rightarrow> go_type \<Rightarrow> schema" where
  "patch_schema e t = \<lparr>sc_name = pascal_of (en_name e) @ ''Patch'', sc_value = t, sc_mode = Patch,
     sc_description = ''Body of PATCH '' @ en_prefix e @ ''/{id}. An absent key and an explicit null both mean '' @ in_quotes ''do not change'' @ ''; at least one key with a value (not null) is required; a key the schema does not name is refused with 400.''\<rparr>"

text \<open>The names and schemas \<open>form\<close> computes first.\<close>

record form_names =
  fn_path :: string
  fn_plural :: string
  fn_noun :: string
  fn_nouns :: string
  fn_id :: string
  fn_row :: snode
  fn_input :: snode
  fn_patch :: snode

definition form_names_of :: "entity \<Rightarrow> go_type option \<Rightarrow> go_type option \<Rightarrow> form_names" where
  "form_names_of e row body =
     (let p = en_prefix e; plural = trim_prefix p ''/api/v2/'' in
      \<lparr>fn_path = p, fn_plural = plural, fn_noun = words (en_name e), fn_nouns = words plural, fn_id = snake plural,
       fn_row = (case row of
          None \<Rightarrow> NMap [(''type'', text_node ''object''), (''additionalProperties'', NLit (DBool True)),
             (''description'', text_node (''A row of api.'' @ en_name e @ ''; its fields are not described yet.''))]
        | Some t \<Rightarrow> NSchema (row_schema e t)),
       fn_input = (case body of None \<Rightarrow> no_body_node | Some t \<Rightarrow> NSchema (input_schema e t)),
       fn_patch = (case body of None \<Rightarrow> no_body_node | Some t \<Rightarrow> NSchema (patch_schema e t))\<rparr>)"

definition int_node :: "string \<Rightarrow> snode" where
  "int_node d = NMap [(''type'', text_node ''integer''), (''description'', text_node d)]"

definition list_op :: "form_names \<Rightarrow> string list \<Rightarrow> operation" where
  "list_op f search = \<lparr>op_method = ''GET'', op_path = fn_path f, op_id = fn_id f @ ''_list'', op_summary = ''List '' @ fn_nouns f,
     op_description = ''The '' @ fn_nouns f @ '' the caller may see, filtered, sorted and paged. total counts the rows of the same selection before paging.'',
     op_tag = fn_plural f, op_params = list_params search, op_body = None,
     op_responses = errs [answered ''200'' ''The page.'' (NMap
         [(''type'', text_node ''object''), (''required'', NList [text_node ''items'', text_node ''total'', text_node ''limit'', text_node ''offset'']),
          (''properties'', NMap [(''items'', NMap [(''type'', text_node ''array''), (''items'', fn_row f)]),
            (''total'', NMap [(''type'', text_node ''integer''), (''format'', text_node ''int64''), (''description'', text_node ''Number of rows of the whole selection.'')]),
            (''limit'', int_node ''Page size applied.''), (''offset'', int_node ''Rows skipped.'')])]) [],
       refused ''400'' ''An unknown query parameter, or a bad filter, sort, fields or page value; q given more than once.'']\<rparr>"

definition get_op :: "form_names \<Rightarrow> operation" where
  "get_op f = \<lparr>op_method = ''GET'', op_path = fn_path f @ ''/{id}'', op_id = fn_id f @ ''_get'', op_summary = ''Get a '' @ fn_noun f,
     op_description = [], op_tag = fn_plural f,
     op_params = [id_param (fn_noun f),
       plain_param ''fields'' ''query'' str_node ''Comma-separated properties to return; the others are left out. The ETag is that of the whole row.'',
       plain_param ''If-None-Match'' ''header'' str_node ''The ETag of the copy the client holds: when it is current the answer is 304 with no body.''],
     op_body = None,
     op_responses = errs [answered ''200'' ''The row.'' (fn_row f) [etag_header],
       answered ''304'' ''The row has not changed since If-None-Match. No body.'' (NLit DNull) [etag_header],
       refused ''400'' ''The id is not a UUID, a bad fields value, or a query parameter other than fields.'',
       not_found_response (fn_noun f)]\<rparr>"

definition create_op :: "form_names \<Rightarrow> operation" where
  "create_op f = \<lparr>op_method = ''POST'', op_path = fn_path f, op_id = fn_id f @ ''_create'', op_summary = ''Create a '' @ fn_noun f,
     op_description = ''One request is one transaction. The answer is the new row.'', op_tag = fn_plural f,
     op_params = [plain_param ''Idempotency-Key'' ''header'' str_node
       ''Optional. The same key with the same body replays the stored answer (marked Idempotency-Replayed: true) for 24 hours; the same key with another body is 409. A key is scoped to the session and the path; a 5xx answer is not stored. The store is in the memory of one service process: a replay is not found after a restart, nor on another instance.''],
     op_body = Some \<lparr>ob_description = [], ob_required = True, ob_schema = fn_input f\<rparr>,
     op_responses = errs [answered ''201'' ''Created.'' (fn_row f)
         [\<lparr>hd_name = ''Location'', hd_description = ''Path of the new row.'', hd_schema = str_node\<rparr>, etag_header],
       refused ''400'' ''No body, an unknown key, a value of the wrong type, a required property missing, or a value the database refuses.'',
       refused ''409'' ''Idempotency-Key reused with a different body, or the database reports a conflict.'']\<rparr>"

definition update_op :: "form_names \<Rightarrow> operation" where
  "update_op f = \<lparr>op_method = ''PATCH'', op_path = fn_path f @ ''/{id}'', op_id = fn_id f @ ''_update'', op_summary = ''Change a '' @ fn_noun f,
     op_description = ''Only the given keys change. If-Match is required: the ETag of the revision the client read.'', op_tag = fn_plural f,
     op_params = [id_param (fn_noun f),
       (plain_param ''If-Match'' ''header'' str_node
         ''The ETag of the row as read; * matches any current row. Without it the answer is 428 and the body is not read.'')\<lparr>pa_required := True\<rparr>],
     op_body = Some \<lparr>ob_description = [], ob_required = True, ob_schema = fn_patch f\<rparr>,
     op_responses = errs [answered ''200'' ''The row after the change.'' (fn_row f) [etag_header],
       refused ''400'' ''The id is not a UUID, the body is empty or has no key, an unknown key, a value of the wrong type or one the database refuses.'',
       not_found_response (fn_noun f),
       refused ''412'' ''The row changed since it was read: If-Match is no longer its ETag.'',
       refused ''428'' ''No If-Match header.'']\<rparr>"

definition action_op :: "form_names \<Rightarrow> operation" where
  "action_op f = \<lparr>op_method = ''POST'', op_path = fn_path f @ ''/{id}/actions/{action}'', op_id = fn_id f @ ''_action'',
     op_summary = ''Execute an action of the '' @ fn_noun f,
     op_description = ''Runs a method of the object's workflow by the code of its action, on a row the caller may see. The methods available now are listed by GET '' @ ellipsis @ ''/methods. The answer is the row after the action; a row the action removed leaves none and the answer is 204.'',
     op_tag = fn_plural f,
     op_params = [id_param (fn_noun f), plain_param ''action'' ''path''
       (NMap [(''type'', text_node ''string''), (''pattern'', text_node ''^[a-z][a-z0-9_]{0,63}$'')]) (''Code of the action (enable, disable, delete, drop, '' @ ellipsis @ '').'')],
     op_body = Some \<lparr>ob_description = ''Parameters of the action. Optional; a JSON object, at most 1 MiB.'', ob_required = False, ob_schema = object_node\<rparr>,
     op_responses = errs [answered ''200'' ''The row after the action.'' (fn_row f) [etag_header],
       answered ''204'' ''The action removed the row. No body.'' (NLit DNull) [],
       refused ''400'' ''The id is not a UUID, the action name is malformed, or the body is not a JSON object.'',
       not_found_response (fn_noun f),
       refused ''413'' ''The body is over 1 MiB.'']\<rparr>"

definition method_schema :: schema where
  "method_schema = \<lparr>sc_name = ''ObjectMethod'', sc_value = method_row, sc_mode = Row,
     sc_description = ''A method of an object's class, as GET <xs>/{id}/methods gives it.''\<rparr>"

definition methods_op :: "form_names \<Rightarrow> operation" where
  "methods_op f = \<lparr>op_method = ''GET'', op_path = fn_path f @ ''/{id}/methods'', op_id = fn_id f @ ''_methods'',
     op_summary = ''Methods of the '' @ fn_noun f @ '' now'',
     op_description = ''The methods of the object's class bound to its current state, with the caller's rights to each, in the workflow's order. Not paged.'',
     op_tag = fn_plural f,
     op_params = [id_param (fn_noun f), plain_param ''fields'' ''query'' str_node ''Comma-separated properties to return; the only query parameter taken.''],
     op_body = None,
     op_responses = errs [answered ''200'' ''The methods.'' (NMap [(''type'', text_node ''array''),
         (''items'', NSchema method_schema)]) [],
       refused ''400'' ''The id is not a UUID, or a query parameter other than fields.'',
       not_found_response (fn_noun f)]\<rparr>"

definition form_ops :: "entity \<Rightarrow> go_type option \<Rightarrow> go_type option \<Rightarrow> operation list" where
  "form_ops e row body = (let f = form_names_of e row body in
     [list_op f (en_search e), get_op f, create_op f, update_op f, action_op f, methods_op f])"

text \<open>\<open>Operations\<close>: an entity with no \<open>Row\<close> is not described.\<close>

definition operations :: "entity \<Rightarrow> go_type option \<Rightarrow> go_type option \<Rightarrow> operation list" where
  "operations e row body = (if row = None then [] else form_ops e row body)"

section \<open>Every form can be described\<close>

lemmas op_defs = list_op_def get_op_def create_op_def update_op_def action_op_def methods_op_def

lemma path_params_prefix: "CHR 0x7B \<notin> set p \<Longrightarrow> path_params (p @ q) = path_params q"
proof -
  assume "CHR 0x7B \<notin> set p"
  then have "dropWhile (\<lambda>c. c \<noteq> CHR 0x7B) (p @ q) = dropWhile (\<lambda>c. c \<noteq> CHR 0x7B) q" by (intro dropWhile_append2) auto
  then show ?thesis by (simp only: path_params.simps [of "p @ q"] path_params.simps [of q])
qed

lemma path_params_form:
  "path_params [] = []" "path_params ''/{id}'' = [''id'']" "path_params ''/{id}/actions/{action}'' = [''id'', ''action'']"
  "path_params ''/{id}/methods'' = [''id'']"
  by code_simp+

lemma path_params_fn: "CHR 0x7B \<notin> set p \<Longrightarrow> path_params p = []"
  using path_params_prefix [of p "[]"] by (simp add: path_params_form)

lemma statuses [simp]: "rs_status (refused st d) = st" "rs_status (answered st d sch hs) = st" "rs_status (not_found_response n) = ''404''"
  by (simp_all add: refused_def answered_def not_found_response_def)

lemma params_simps [simp]: "pa_name (plain_param n w sch d) = n" "pa_in (plain_param n w sch d) = w" "pa_schema (plain_param n w sch d) = sch"
  by (simp_all add: plain_param_def)

lemma form_ops_ok:
  assumes "CHR 0x7B \<notin> set (fn_path f)"
  shows "op_ok (list_op f search)" "op_ok (get_op f)" "op_ok (create_op f)" "op_ok (update_op f)" "op_ok (action_op f)" "op_ok (methods_op f)"
  unfolding op_ok_def op_defs errs_def list_params_def id_param_def declared_def in_ok_def
  by (simp_all add: path_params_prefix [OF assms] path_params_form path_params_fn [OF assms])

lemma method_keys:
  "op_method_key (list_op f search) = ''get''" "op_method_key (get_op f) = ''get''" "op_method_key (create_op f) = ''post''"
  "op_method_key (update_op f) = ''patch''" "op_method_key (action_op f) = ''post''" "op_method_key (methods_op f) = ''get''"
  unfolding op_method_key_def op_defs operation.simps by code_simp+

lemma form_routed:
  assumes "CHR 0x7B \<notin> set (en_prefix e)" "has_prefix (en_prefix e) ''/''"
  shows "routed (form_ops e row body)"
proof -
  define f where "f = form_names_of e row body"
  have path: "fn_path f = en_prefix e" by (simp add: f_def form_names_of_def Let_def)
  with assms form_ops_ok [of f] have ok: "list_all op_ok (form_ops e row body)" by (simp add: form_ops_def f_def [symmetric])
  have "has_prefix (fn_path f) ''/''" "has_prefix (fn_path f @ q) ''/''" for q
    using assms(2) path by (auto simp: has_prefix_def)
  then have named: "list_all op_named (form_ops e row body)" by (simp add: form_ops_def f_def [symmetric] op_named_def op_defs)
  have ids: "distinct (map op_id (form_ops e row body))" by (simp add: form_ops_def f_def [symmetric] op_defs)
  have "distinct (map (\<lambda>o1. (op_path o1, op_method_key o1)) (form_ops e row body))"
    by (simp add: form_ops_def f_def [symmetric] method_keys) (simp add: op_defs)
  with ok named ids show ?thesis by (simp add: routed_def)
qed

lemma part_schemas [simp]:
  "response_schemas (refused st d) = []" "response_schemas (answered st d sch hs) = schemas_in sch @ concat (map (\<lambda>h. schemas_in (hd_schema h)) hs)"
  "response_schemas (not_found_response n) = []" "schemas_in str_node = []" "schemas_in (text_node t) = []" "schemas_in object_node = []"
  "schemas_in (int_node d) = []" "schemas_in (hd_schema etag_header) = []" "schemas_in no_body_node = []" "schemas_in (pa_schema (id_param n)) = []"
  by (simp_all add: response_schemas_def refused_def answered_def not_found_response_def str_node_def text_node_def object_node_def int_node_def
      etag_header_def no_body_node_def id_param_def)

lemma form_op_schemas:
  "op_schemas (list_op f search) = schemas_in (fn_row f)" "op_schemas (get_op f) = schemas_in (fn_row f)"
  "op_schemas (create_op f) = schemas_in (fn_input f) @ schemas_in (fn_row f)" "op_schemas (update_op f) = schemas_in (fn_patch f) @ schemas_in (fn_row f)"
  "op_schemas (action_op f) = schemas_in (fn_row f)" "op_schemas (methods_op f) = [method_schema]"
  by (simp_all add: op_schemas_def op_defs errs_def list_params_def)

lemma clash_free_names: "set ss \<subseteq> S \<Longrightarrow> inj_on sc_name S \<Longrightarrow> clash_free ss"
  by (auto simp: clash_free_def same_schema_def inj_on_def subset_iff)

lemma fixed_components: "has_component problem_schema" "has_component method_schema"
proof -
  have "\<not> isl (component problem_schema)" "\<not> isl (component method_schema)" by code_simp+
  then show "has_component problem_schema" "has_component method_schema" by (auto simp: has_component_def isl_def) (metis sum.exhaust)+
qed

lemma schema_names_distinct:
  assumes "pascal \<noteq> ''Problem''" "pascal \<noteq> ''ObjectMethod''"
  shows "distinct [''Problem'', ''ObjectMethod'', pascal, pascal @ ''Input'', pascal @ ''Patch'']"
proof -
  have ne: "last s \<noteq> last t \<Longrightarrow> s \<noteq> t" for s t :: string by auto
  have "pascal @ ''Input'' \<noteq> ''Problem''" "pascal @ ''Input'' \<noteq> ''ObjectMethod''" "pascal @ ''Patch'' \<noteq> ''Problem''" "pascal @ ''Patch'' \<noteq> ''ObjectMethod''"
    by (rule ne, simp)+
  with assms show ?thesis by simp
qed

lemma form_schemas:
  "set (all_schemas (form_ops e (Some row) body)) \<subseteq>
     {problem_schema, method_schema, row_schema e row} \<union> (case body of None \<Rightarrow> {} | Some t \<Rightarrow> {input_schema e t, patch_schema e t})"
  by (cases body) (simp_all add: all_schemas_def form_ops_def Let_def form_op_schemas form_names_of_def)

lemma form_describable:
  assumes "CHR 0x7B \<notin> set (en_prefix e)" "has_prefix (en_prefix e) ''/''"
    and "pascal_of (en_name e) \<notin> {''Problem'', ''ObjectMethod''}" and "has_component (row_schema e row)"
    and "\<And>t. body = Some t \<Longrightarrow> has_component (input_schema e t) \<and> has_component (patch_schema e t)"
  shows "ops_describable (form_ops e (Some row) body)"
proof -
  let ?b = "case body of None \<Rightarrow> {} | Some t \<Rightarrow> {input_schema e t, patch_schema e t}"
  let ?S = "{problem_schema, method_schema, row_schema e row} \<union> ?b"
  have "inj_on sc_name ?S"
    using schema_names_distinct [of "pascal_of (en_name e)"] assms(3)
    by (cases body) (auto simp: problem_schema_def method_schema_def row_schema_def input_schema_def patch_schema_def)
  then have "clash_free (all_schemas (form_ops e (Some row) body))" by (rule clash_free_names [OF form_schemas])
  moreover have "\<forall>s\<in>?S. has_component s" using assms(4,5) fixed_components by (cases body) auto
  then have "list_all has_component (all_schemas (form_ops e (Some row) body))"
    using form_schemas unfolding list_all_iff by blast
  ultimately show ?thesis using form_routed [OF assms(1,2)] by (simp add: ops_describable_def addable_empty)
qed

section \<open>The description and the mux\<close>

lemma probe_cases: "probe rs m p = [] \<or> (\<exists>m' p' f. (m', p', f) \<in> set rs \<and> probe rs m p = m' @ '' '' @ p')"
proof (cases "request_path (concrete p)")
  case (Some q)
  show ?thesis
  proof (cases "mux_find rs m (if m = ''CONNECT'' then q else clean_path q)")
    case s: (Some x)
    obtain m' p' f vs where x: "x = ((m', p', f), vs)" by (cases x) auto
    from mux_find_sound [OF s [unfolded x]] have "(m', p', f) \<in> set rs" by blast
    with Some s x show ?thesis by (auto simp: probe_def)
  qed (simp add: probe_def Some)
qed (simp add: probe_def)

lemma gaps_none:
  assumes "map pattern ops = map (\<lambda>(m, p, f). m @ '' '' @ p) rs" and "\<And>o1. o1 \<in> set ops \<Longrightarrow> probe rs (op_method o1) (op_path o1) = pattern o1"
  shows "gaps rs ops = ([], [])"
proof -
  have "probe rs m p = [] \<or> probe rs m p \<in> set (map pattern ops)" for m p
    using probe_cases [of rs m p] unfolding assms(1) by force
  then have found: "pat = [] \<or> pat \<in> set (map pattern ops)"
    if "pat \<in> set (concat (map (\<lambda>p. map (\<lambda>m. probe rs m p) all_methods) (remdups (map op_path ops))))" for pat
    using that by force
  have "filter (\<lambda>o1. probe rs (op_method o1) (op_path o1) \<noteq> pattern o1) ops = []"
    using assms(2) by (simp add: filter_empty_conv)
  moreover have "filter (\<lambda>pat. pat \<noteq> [] \<and> pat \<notin> set (map pattern ops))
      (concat (map (\<lambda>p. map (\<lambda>m. probe rs m p) all_methods) (remdups (map op_path ops)))) = []"
    unfolding filter_empty_conv using found by blast
  ultimately show ?thesis by (simp only: gaps_def Let_def) simp
qed

lemma concrete_prefix: "CHR 0x7B \<notin> set p \<Longrightarrow> concrete (p @ q) = p @ concrete q"
  by (induction p) auto

lemma concrete_form: "concrete [] = []" "concrete ''/{id}'' = ''/v''" "concrete ''/{id}/actions/{action}'' = ''/v/actions/v''"
  "concrete ''/{id}/methods'' = ''/v/methods''"
  by code_simp+

text \<open>A path of segments of lower-case letters, digits, \<open>-\<close> and \<open>_\<close>.\<close>

definition plain_char :: "char \<Rightarrow> bool" where
  "plain_char c \<longleftrightarrow> is_lower c \<or> is_digit c \<or> c = CHR ''-'' \<or> c = CHR ''_''"

definition plain_path :: "string \<Rightarrow> bool" where
  "plain_path p \<longleftrightarrow> (\<exists>xs. xs \<noteq> [] \<and> list_all (\<lambda>x. x \<noteq> [] \<and> list_all plain_char x) xs \<and> p = CHR ''/'' # join ''/'' xs)"

lemma plain_char_not: "\<not> plain_char CHR 0x7B" "\<not> plain_char CHR ''/''" "\<not> plain_char CHR ''.''" "\<not> plain_char CHR ''%''"
  "\<not> plain_char CHR ''?''" "\<not> plain_char CHR ''#''" "plain_char c \<Longrightarrow> 32 \<le> ord_of c \<and> ord_of c \<noteq> 127"
  by (auto simp: plain_char_def is_lower_def is_digit_def ord_of_def)

lemma set_join: "set (join sep xs) \<subseteq> set sep \<union> (\<Union>x\<in>set xs. set x)"
  by (induction sep xs rule: join.induct) auto

lemma join_append: "xs \<noteq> [] \<Longrightarrow> ys \<noteq> [] \<Longrightarrow> join sep (xs @ ys) = join sep xs @ sep @ join sep ys"
  by (induction sep xs rule: join.induct) (auto simp: neq_Nil_conv)

lemma plain_path_segments:
  assumes "zs \<noteq> []" "list_all (\<lambda>x. x \<noteq> [] \<and> list_all plain_char x) zs"
  defines "q \<equiv> CHR ''/'' # join ''/'' zs"
  shows "request_path q = Some q" "clean_path q = q" "segments q = zs"
proof -
  have pl: "\<forall>x\<in>set zs. \<forall>c\<in>set x. plain_char c" and ne: "\<forall>x\<in>set zs. x \<noteq> []" using assms(2) by (auto simp: list_all_iff)
  then have nosep: "\<forall>x\<in>set zs. CHR ''/'' \<notin> set x" using plain_char_not by blast
  have split: "split_on CHR ''/'' (join ''/'' zs) = zs" using split_join [OF assms(1) nosep] by simp
  have chars: "c = CHR ''/'' \<or> plain_char c" if "c \<in> set q" for c
    using that pl set_join [of "''/''" zs] by (auto simp: q_def)
  have unesc: "unescape s = Some s" if "CHR ''%'' \<notin> set s" for s using that by (induction s) auto
  have "proper x" if "x \<in> set zs" for x using that ne nosep pl plain_char_not(3) by (auto simp: proper_def)
  then have "clean_segs [] (zs @ []) = zs" using clean_segs_id [of zs "[]" "[]"] by simp
  then have pc: "path_clean q = q" by (simp add: path_clean_def q_def split)
  then show "clean_path q = q" by (simp add: clean_path_def)
  show "segments q = zs"
  proof -
    have "path_unescape x = x" if "x \<in> set zs" for x
    proof -
      have "CHR ''%'' \<notin> set x" using that pl plain_char_not(4) by blast
      then show ?thesis by (simp add: path_unescape_def unesc)
    qed
    then show ?thesis by (simp add: segments_def q_def split map_idI)
  qed
  have "takeWhile (\<lambda>c. c \<notin> set [CHR ''?'', CHR ''#'']) q = q" using chars plain_char_not(5,6) by (auto simp: takeWhile_eq_all_conv)
  moreover have "\<not> list_ex (\<lambda>c. ord_of c < 32 \<or> ord_of c = 127) q" using chars plain_char_not(7) by (force simp: list_ex_iff ord_of_def)
  moreover have "unescape q = Some q" using chars plain_char_not(4) by (intro unesc) auto
  moreover have "has_prefix q ''/''" by (simp add: has_prefix_def q_def)
  ultimately show "request_path q = Some q" by (simp only: request_path_def Let_def) simp
qed

lemma fits_length: "fits ps ss \<Longrightarrow> length ps = length ss"
  by (auto simp: fits_def dest: list_all2_lengthD)

text \<open>A pattern whose segments are \<open>ps\<close> is what the mux finds at the segments \<open>zs\<close> it fits, when no other pattern of the method has as many.\<close>

lemma probe_found:
  assumes "(m, p, f) \<in> set rs" "m \<noteq> ''HEAD''" "p = CHR ''/'' # join ''/'' ps" "ps \<noteq> []" "\<forall>x\<in>set ps. CHR ''/'' \<notin> set x"
    and "concrete p = CHR ''/'' # join ''/'' zs" "zs \<noteq> []" "list_all (\<lambda>x. x \<noteq> [] \<and> list_all plain_char x) zs" "fits ps zs"
    and only: "\<And>p' f'. (m, p', f') \<in> set rs \<Longrightarrow> length (split_on CHR ''/'' (drop 1 p')) = length ps \<Longrightarrow> p' = p"
  shows "probe rs m p = m @ '' '' @ p"
proof -
  note q = plain_path_segments [OF assms(7,8)]
  have sp: "split_on CHR ''/'' (drop 1 p) = ps" using split_join [OF assms(4,5)] by (simp add: assms(3))
  have "mux_find rs m (concrete p) \<noteq> None"
  proof
    assume "mux_find rs m (concrete p) = None"
    then have "\<not> fits (split_on CHR ''/'' (drop 1 p)) (segments (concrete p))" by (rule mux_find_none [OF _ assms(1)]) simp
    with assms(6,9) sp q(3) show False by simp
  qed
  then obtain m' p' f' vs where x: "mux_find rs m (concrete p) = Some ((m', p', f'), vs)" by (cases "mux_find rs m (concrete p)") auto
  from mux_find_sound [OF x] assms(2) have "m' = m" "(m, p', f') \<in> set rs" "fits (split_on CHR ''/'' (drop 1 p')) zs"
    using q(3) assms(6) by auto
  with only [of p' f'] assms(9) have "p' = p" by (metis fits_length)
  with x q \<open>m' = m\<close> assms(6) show ?thesis by (auto simp: probe_def)
qed

lemma form_patterns: "map pattern (form_ops e row body) = map (\<lambda>(m, p, f). m @ '' '' @ p) (form x t1 t2 idem e)"
  by (simp add: form_ops_def form_def Let_def pattern_def op_defs form_names_of_def)

lemma form_paths:
  assumes "xs \<noteq> []" "list_all (\<lambda>x. x \<noteq> [] \<and> list_all plain_char x) xs" "p = CHR ''/'' # join ''/'' xs"
    and "(q, ys, zs) \<in> {([], [], []), (''/{id}'', [''{id}''], [''v'']), (''/{id}/methods'', [''{id}'', ''methods''], [''v'', ''methods'']),
       (''/{id}/actions/{action}'', [''{id}'', ''actions'', ''{action}''], [''v'', ''actions'', ''v''])}"
  shows "p @ q = CHR ''/'' # join ''/'' (xs @ ys)" "concrete (p @ q) = CHR ''/'' # join ''/'' (xs @ zs)" "fits (xs @ ys) (xs @ zs)"
    "list_all (\<lambda>x. x \<noteq> [] \<and> list_all plain_char x) (xs @ zs)" "\<forall>x\<in>set (xs @ ys). CHR ''/'' \<notin> set x"
    "length (split_on CHR ''/'' (drop 1 (p @ q))) = length xs + length ys"
proof -
  have pl: "\<forall>x\<in>set xs. \<forall>c\<in>set x. plain_char c" and ne: "\<forall>x\<in>set xs. x \<noteq> []" using assms(2) by (auto simp: list_all_iff)
  have brace: "\<forall>x\<in>set xs. CHR 0x7B \<notin> set x" using pl plain_char_not(1) by blast
  have "CHR 0x7B \<notin> set p" using brace set_join [of "''/''" xs] by (auto simp: assms(3))
  note conc = concrete_prefix [OF this]
  have wild: "\<not> wild x" if "x \<in> set xs" for x
    using brace that by (auto simp: wild_def has_prefix_def prefix_def)
  show pq: "p @ q = CHR ''/'' # join ''/'' (xs @ ys)" using assms(1,3,4) by (auto simp: join_append)
  show "concrete (p @ q) = CHR ''/'' # join ''/'' (xs @ zs)"
  proof -
    have "p @ concrete q = CHR ''/'' # join ''/'' (xs @ zs)" using assms(1,3,4) by (auto simp: concrete_form join_append)
    then show ?thesis by (simp only: conc)
  qed
  have "wild ''{id}''" "wild ''{action}''" "\<not> wild ''methods''" "\<not> wild ''actions''" by code_simp+
  then show "fits (xs @ ys) (xs @ zs)"
    using assms(4) wild by (auto simp: fits_def intro!: list_all2_appendI simp: list_all2_same)
  have "list_all plain_char ''v''" "list_all plain_char ''methods''" "list_all plain_char ''actions''" by code_simp+
  then show "list_all (\<lambda>x. x \<noteq> [] \<and> list_all plain_char x) (xs @ zs)" using assms(2,4) by auto
  show nosep: "\<forall>x\<in>set (xs @ ys). CHR ''/'' \<notin> set x" using assms(4) pl plain_char_not(2) by auto
  show "length (split_on CHR ''/'' (drop 1 (p @ q))) = length xs + length ys"
    using split_join [OF _ nosep] assms(1) by (simp add: pq)
qed

lemma form_probe:
  assumes "plain_path (en_prefix e)" "o1 \<in> set (form_ops e row body)"
  shows "probe (form x t1 t2 idem e) (op_method o1) (op_path o1) = pattern o1"
proof -
  let ?tails = "{([], [], []), (''/{id}'', [''{id}''], [''v'']), (''/{id}/methods'', [''{id}'', ''methods''], [''v'', ''methods'']),
       (''/{id}/actions/{action}'', [''{id}'', ''actions'', ''{action}''], [''v'', ''actions'', ''v''])}"
  from assms(1) obtain xs where xs: "xs \<noteq> []" "list_all (\<lambda>x. x \<noteq> [] \<and> list_all plain_char x) xs" "en_prefix e = CHR ''/'' # join ''/'' xs"
    by (auto simp: plain_path_def)
  note tails = form_paths [OF xs]
  have len: "length (split_on CHR ''/'' (drop 1 (en_prefix e))) = length xs"
    "length (split_on CHR ''/'' (drop 1 (en_prefix e @ ''/{id}''))) = length xs + 1"
    "length (split_on CHR ''/'' (drop 1 (en_prefix e @ ''/{id}/methods''))) = length xs + 2"
    "length (split_on CHR ''/'' (drop 1 (en_prefix e @ ''/{id}/actions/{action}''))) = length xs + 3"
    using tails(6) [of "[]" "[]" "[]"] tails(6) [of "''/{id}''" "[''{id}'']" "[''v'']"]
      tails(6) [of "''/{id}/methods''" "[''{id}'', ''methods'']" "[''v'', ''methods'']"]
      tails(6) [of "''/{id}/actions/{action}''" "[''{id}'', ''actions'', ''{action}'']" "[''v'', ''actions'', ''v'']"] by simp_all
  let ?rs = "form x t1 t2 idem e" and ?p = "en_prefix e"
  have step: "probe ?rs m (?p @ q) = m @ '' '' @ ?p @ q"
    if "(q, ys, zs) \<in> ?tails" "(m, ?p @ q, f) \<in> set ?rs" "m \<noteq> ''HEAD''"
      "\<forall>(m', p', f')\<in>set ?rs. m' = m \<longrightarrow> length (split_on CHR ''/'' (drop 1 p')) = length xs + length ys \<longrightarrow> p' = ?p @ q" for m q ys zs f
  proof -
    note u = tails [OF that(1)]
    show ?thesis using that(4) xs(1) by (intro probe_found [OF that(2,3) u(1) _ u(5,2) _ u(4,3)]) auto
  qed
  have "probe ?rs ''GET'' (?p @ []) = ''GET'' @ '' '' @ ?p @ []"
    by (rule step [of "[]" "[]" "[]"]) (use len in \<open>auto simp: form_def Let_def\<close>)
  moreover have "probe ?rs ''POST'' (?p @ []) = ''POST'' @ '' '' @ ?p @ []"
    by (rule step [of "[]" "[]" "[]"]) (use len in \<open>auto simp: form_def Let_def\<close>)
  moreover have "probe ?rs ''GET'' (?p @ ''/{id}'') = ''GET'' @ '' '' @ ?p @ ''/{id}''"
    by (rule step [of _ "[''{id}'']" "[''v'']"]) (use len in \<open>auto simp: form_def Let_def\<close>)
  moreover have "probe ?rs ''PATCH'' (?p @ ''/{id}'') = ''PATCH'' @ '' '' @ ?p @ ''/{id}''"
    by (rule step [of _ "[''{id}'']" "[''v'']"]) (use len in \<open>auto simp: form_def Let_def\<close>)
  moreover have "probe ?rs ''GET'' (?p @ ''/{id}/methods'') = ''GET'' @ '' '' @ ?p @ ''/{id}/methods''"
    by (rule step [of _ "[''{id}'', ''methods'']" "[''v'', ''methods'']"]) (use len in \<open>auto simp: form_def Let_def\<close>)
  moreover have "probe ?rs ''POST'' (?p @ ''/{id}/actions/{action}'') = ''POST'' @ '' '' @ ?p @ ''/{id}/actions/{action}''"
    by (rule step [of _ "[''{id}'', ''actions'', ''{action}'']" "[''v'', ''actions'', ''v'']"]) (use len in \<open>auto simp: form_def Let_def\<close>)
  ultimately show ?thesis
    using assms(2) by (auto simp: form_ops_def Let_def form_names_of_def op_defs pattern_def)
qed

section \<open>The entities of the platform\<close>

text \<open>The struct behind a body: every field is an exported \<open>*string\<close> with its json key.\<close>

definition body_type :: "string \<Rightarrow> (string \<times> jkind) list \<Rightarrow> go_type" where
  "body_type n fs = Pointer (Struct n (map (\<lambda>(k, _). Field False True (Pointer (Basic Str)) [(''json'', k)]) fs))"

text \<open>C36: an entity that declares its row is described in full: whatever the row and the body are, if their types have schemas the document is
  built, and \<open>Gaps\<close> finds nothing missing and nothing undocumented on the mux the form is registered on. The two names an entity must
  not have are those of the components every form brings.\<close>

theorem form_described:
  assumes "plain_path (en_prefix e)" and "pascal_of (en_name e) \<notin> {''Problem'', ''ObjectMethod''}" and "has_component (row_schema e row)"
    and "\<And>t. body = Some t \<Longrightarrow> has_component (input_schema e t) \<and> has_component (patch_schema e t)"
  shows "(\<exists>d. build i (operations e (Some row) body) = Inr d)
     \<and> gaps (form x t1 t2 idem e) (operations e (Some row) body) = ([], [])"
proof -
  from assms(1) obtain xs where xs: "xs \<noteq> []" "list_all (\<lambda>x. x \<noteq> [] \<and> list_all plain_char x) xs" "en_prefix e = CHR ''/'' # join ''/'' xs"
    by (auto simp: plain_path_def)
  have "\<forall>x\<in>set xs. CHR 0x7B \<notin> set x" using xs(2) plain_char_not(1) by (auto simp: list_all_iff)
  then have "CHR 0x7B \<notin> set (en_prefix e)" using set_join [of "''/''" xs] by (auto simp: xs(3))
  moreover have "has_prefix (en_prefix e) ''/''" by (simp add: xs(3) has_prefix_def)
  ultimately have "ops_describable (form_ops e (Some row) body)" using assms(2-4) by (intro form_describable) auto
  moreover have "gaps (form x t1 t2 idem e) (form_ops e (Some row) body) = ([], [])"
    by (rule gaps_none [OF form_patterns form_probe [OF assms(1)]])
  ultimately show ?thesis by (simp add: build_accepts operations_def)
qed

theorem form_described_witness:
  "\<forall>i x t1 t2 idem. (\<exists>d. build i (operations agent_entity (Some method_row) (Some (body_type ''agent.body'' agent_fields))) = Inr d)
     \<and> gaps (form x t1 t2 idem agent_entity) (operations agent_entity (Some method_row) (Some (body_type ''agent.body'' agent_fields))) = ([], [])"
proof -
  let ?b = "body_type ''agent.body'' agent_fields"
  have ok: "has_component s" if "\<not> isl (component s)" for s using that by (cases "component s") (auto simp: has_component_def)
  have "plain_path (en_prefix agent_entity)"
    unfolding plain_path_def by (rule exI [of _ "[''api'', ''v2'', ''agents'']"]) code_simp
  moreover have "pascal_of (en_name agent_entity) \<notin> {''Problem'', ''ObjectMethod''}" by code_simp
  moreover have "has_component (row_schema agent_entity method_row)" by (rule ok) code_simp
  moreover have "has_component (input_schema agent_entity ?b)" "has_component (patch_schema agent_entity ?b)" by (rule ok, code_simp)+
  ultimately show ?thesis using form_described [of agent_entity method_row "Some ?b"] by simp
qed

end
