(* ===== verification/Indent.thy ===== *)
theory Indent
  imports Json
begin

text \<open>
  Indented JSON (\<open>json.Encoder\<close> with \<open>SetEscapeHTML(false)\<close> and \<open>SetIndent("", "  ")\<close>, as \<open>Marshal\<close> of \<open>src/lib/openapi/openapi.go\<close> sets it): every element
  and member on a line of its own, two spaces for each level, an empty array or object on one line, no HTML character escaped. What is written
  parses back.
\<close>

definition quote_char :: "char \<Rightarrow> string" where
  "quote_char c = (if html_char c then [c] else quote_ascii c)"

function quote_raw :: "string \<Rightarrow> string" where
  "quote_raw [] = []"
| "quote_raw (c # cs) =
     (if ord_of c < 128 then quote_char c @ quote_raw cs
      else (let k = utf8_len (c # cs) in
            if k = 0 then CHR 0x5C # ''ufffd'' @ quote_raw cs
            else if map ord_of (take 3 (c # cs)) \<in> {[226, 128, 168], [226, 128, 169]}
            then line_sep (ord_of (cs ! 1)) @ quote_raw (drop (k - 1) cs)
            else take k (c # cs) @ quote_raw (drop (k - 1) cs)))"
  by pat_completeness auto
termination
  by (relation "measure length") auto

declare quote_raw.simps(2) [simp del]

definition nl :: "nat \<Rightarrow> string" where
  "nl l = CHR 0x0A # replicate (2 * l) CHR '' ''"

definition jraw :: "string \<Rightarrow> string" where
  "jraw r = CHR 0x22 # r @ [CHR 0x22]"

fun json_indent :: "nat \<Rightarrow> json \<Rightarrow> bytes"
and indent_elems :: "nat \<Rightarrow> json list \<Rightarrow> bytes"
and indent_members :: "nat \<Rightarrow> (string \<times> json) list \<Rightarrow> bytes" where
  "json_indent l JNull = ''null''"
| "json_indent l (JBool b) = (if b then ''true'' else ''false'')"
| "json_indent l (JNum t) = t"
| "json_indent l (JStr r) = jraw r"
| "json_indent l (JArr vs) = CHR 0x5B # (case vs of [] \<Rightarrow> [CHR 0x5D] | _ \<Rightarrow> indent_elems l vs)"
| "json_indent l (JObj ms) = CHR 0x7B # (case ms of [] \<Rightarrow> [CHR 0x7D] | _ \<Rightarrow> indent_members l ms)"
| "indent_elems l [] = []"
| "indent_elems l (v # vs) = nl (Suc l) @ json_indent (Suc l) v @ (case vs of [] \<Rightarrow> nl l @ [CHR 0x5D] | _ \<Rightarrow> CHR '','' # indent_elems l vs)"
| "indent_members l [] = []"
| "indent_members l ((k, v) # ms) =
     nl (Suc l) @ jraw k @ '': '' @ json_indent (Suc l) v @ (case ms of [] \<Rightarrow> nl l @ [CHR 0x7D] | _ \<Rightarrow> CHR '','' # indent_members l ms)"

text \<open>The values that can be written: what their strings hold is the inside of a JSON string, and their numbers are integers.\<close>

fun json_plain :: "json \<Rightarrow> bool"
and elems_plain :: "json list \<Rightarrow> bool"
and members_plain :: "(string \<times> json) list \<Rightarrow> bool" where
  "json_plain JNull = True"
| "json_plain (JBool b) = True"
| "json_plain (JNum t) = num_ok t"
| "json_plain (JStr r) = raw_ok r"
| "json_plain (JArr vs) = elems_plain vs"
| "json_plain (JObj ms) = members_plain ms"
| "elems_plain [] = True"
| "elems_plain (v # vs) = (json_plain v \<and> elems_plain vs)"
| "members_plain [] = True"
| "members_plain ((k, v) # ms) = (raw_ok k \<and> json_plain v \<and> members_plain ms)"

section \<open>White space\<close>

lemma skip_spaces: "skip_ws (replicate n CHR '' '' @ s) = skip_ws s"
  by (induction n) (simp_all add: skip_ws_def json_ws_def)

lemma skip_nl [simp]: "skip_ws (nl l @ s) = skip_ws s"
proof -
  have "skip_ws (CHR 0x0A # t) = skip_ws t" for t by (simp add: skip_ws_def json_ws_def)
  then show ?thesis by (simp add: nl_def skip_spaces)
qed

lemma pval_skip: "skip_ws s = skip_ws s' \<Longrightarrow> pval n d s = pval n d s'"
  by (cases n) simp_all

lemma pelems_skip: "skip_ws s = skip_ws s' \<Longrightarrow> pelems n d s = pelems n d s'"
  using pval_skip [of s s'] by (cases n) simp_all

lemma pmembers_skip: "skip_ws s = skip_ws s' \<Longrightarrow> pmembers n d s = pmembers n d s'"
  by (cases n) simp_all

lemma pval_nl [simp]: "pval n d (nl l @ s) = pval n d s"
  by (rule pval_skip) simp

lemma pval_space [simp]: "pval n d (CHR '' '' # s) = pval n d s"
  by (rule pval_skip) (simp add: skip_ws_def json_ws_def)

lemma num_end_nl [simp]: "num_end (nl l @ t)"
  by (simp add: nl_def num_end_def is_digit_def ord_of_def)

lemma indent_head: "json_plain v \<Longrightarrow> \<exists>c cs. json_indent l v = c # cs \<and> \<not> json_ws c \<and> c \<noteq> CHR 0x5D \<and> c \<noteq> CHR 0x7D"
proof (cases v)
  case (JNum t)
  assume "json_plain v"
  with JNum obtain i where "t = show_int i" by (auto simp: num_ok_def split: option.splits)
  moreover obtain c cs where "show_int i = c # cs" "is_digit c \<or> c = CHR ''-''" using show_int_head by blast
  ultimately show ?thesis using JNum by (auto simp: json_ws_def is_digit_def ord_of_def)
qed (auto simp: json_ws_def jraw_def)

section \<open>Reading back\<close>

lemma parse_indent_list:
  assumes "\<exists>n. pelems n d (indent_elems l vs @ t) = Some (vs, t)" "vs \<noteq> []" "elems_plain vs"
  shows "\<exists>n. pval n (Suc d) (json_indent l (JArr vs) @ t) = Some (JArr vs, t)"
proof -
  obtain n where n: "pelems n d (indent_elems l vs @ t) = Some (vs, t)" using assms(1) by blast
  obtain w ws where w: "vs = w # ws" using assms(2) by (cases vs) auto
  obtain c cs where h: "skip_ws (indent_elems l vs @ t) = c # cs" "c \<noteq> CHR 0x5D" "skip_ws (c # cs) = c # cs"
    using indent_head [of w "Suc l"] assms(3) w by (auto simp: skip_ws_other)
  have "pelems n d (c # cs) = Some (vs, t)" using n pelems_skip [of "c # cs" "indent_elems l vs @ t"] h by simp
  with h have "pval (Suc n) (Suc d) (CHR 0x5B # indent_elems l vs @ t) = Some (JArr vs, t)" by simp
  then show ?thesis using w by (intro exI [of _ "Suc n"]) simp
qed

lemma parse_indent_object:
  assumes "\<exists>n. pmembers n d (indent_members l ms @ t) = Some (ms, t)" "ms \<noteq> []"
  shows "\<exists>n. pval n (Suc d) (json_indent l (JObj ms) @ t) = Some (JObj ms, t)"
proof -
  obtain n where n: "pmembers n d (indent_members l ms @ t) = Some (ms, t)" using assms(1) by blast
  obtain k w ws where w: "ms = (k, w) # ws" using assms(2) by (cases ms) auto
  obtain cs where h: "skip_ws (indent_members l ms @ t) = CHR 0x22 # cs" using w by (simp add: jraw_def)
  have "pmembers n d (CHR 0x22 # cs) = Some (ms, t)" using n pmembers_skip [of "CHR 0x22 # cs" "indent_members l ms @ t"] h by simp
  with h have "pval (Suc n) (Suc d) (CHR 0x7B # indent_members l ms @ t) = Some (JObj ms, t)" by simp
  then show ?thesis using w by (intro exI [of _ "Suc n"]) simp
qed

lemma parse_indent_elem:
  assumes "\<And>t. num_end t \<Longrightarrow> \<exists>n. pval n d (json_indent (Suc l) v @ t) = Some (v, t)"
    and "vs \<noteq> [] \<Longrightarrow> \<exists>n. pelems n d (indent_elems l vs @ t) = Some (vs, t)"
  shows "\<exists>n. pelems n d (indent_elems l (v # vs) @ t) = Some (v # vs, t)"
proof (cases vs)
  case Nil
  obtain n where "pval n d (json_indent (Suc l) v @ nl l @ CHR 0x5D # t) = Some (v, nl l @ CHR 0x5D # t)" using assms(1) num_end_nl by blast
  with Nil have "pelems (Suc n) d (indent_elems l (v # vs) @ t) = Some (v # vs, t)" by simp
  then show ?thesis by blast
next
  case (Cons w ws)
  obtain n where n: "pval n d (json_indent (Suc l) v @ CHR '','' # indent_elems l vs @ t) = Some (v, CHR '','' # indent_elems l vs @ t)"
    using assms(1) num_end_simps(1) by blast
  obtain k where k: "pelems k d (indent_elems l vs @ t) = Some (vs, t)" using assms(2) Cons by auto
  have "pelems (Suc (max n k)) d (indent_elems l (v # vs) @ t) = Some (v # vs, t)"
    using Cons pval_mono(1) [OF n, of "max n k"] pval_mono(2) [OF k, of "max n k"] by simp
  then show ?thesis by blast
qed

lemma parse_indent_member:
  assumes "\<And>t. num_end t \<Longrightarrow> \<exists>n. pval n d (json_indent (Suc l) v @ t) = Some (v, t)" "raw_ok k"
    and "ms \<noteq> [] \<Longrightarrow> \<exists>n. pmembers n d (indent_members l ms @ t) = Some (ms, t)"
  shows "\<exists>n. pmembers n d (indent_members l ((k, v) # ms) @ t) = Some ((k, v) # ms, t)"
proof -
  have p: "pstr (k @ CHR 0x22 # x) = Some (k, x)" for x using assms(2) by (rule pstr_raw)
  show ?thesis
  proof (cases ms)
    case Nil
    obtain n where "pval n d (json_indent (Suc l) v @ nl l @ CHR 0x7D # t) = Some (v, nl l @ CHR 0x7D # t)" using assms(1) num_end_nl by blast
    with Nil p have "pmembers (Suc n) d (indent_members l ((k, v) # ms) @ t) = Some ((k, v) # ms, t)" by (simp add: jraw_def)
    then show ?thesis by blast
  next
    case (Cons w ws)
    obtain n where n: "pval n d (json_indent (Suc l) v @ CHR '','' # indent_members l ms @ t) = Some (v, CHR '','' # indent_members l ms @ t)"
      using assms(1) num_end_simps(1) by blast
    obtain j where j: "pmembers j d (indent_members l ms @ t) = Some (ms, t)" using assms(3) Cons by auto
    have "pmembers (Suc (max n j)) d (indent_members l ((k, v) # ms) @ t) = Some ((k, v) # ms, t)"
      using Cons p pval_mono(1) [OF n, of "max n j"] pval_mono(3) [OF j, of "max n j"] by (simp add: jraw_def)
    then show ?thesis by blast
  qed
qed

lemma parse_indent:
  shows "json_plain v \<Longrightarrow> jdepth v \<le> d \<Longrightarrow> num_end t \<Longrightarrow> \<exists>n. pval n d (json_indent l v @ t) = Some (v, t)"
    and "elems_plain vs \<Longrightarrow> vs \<noteq> [] \<Longrightarrow> edepth vs \<le> d \<Longrightarrow> \<exists>n. pelems n d (indent_elems l vs @ t) = Some (vs, t)"
    and "members_plain ms \<Longrightarrow> ms \<noteq> [] \<Longrightarrow> mdepth ms \<le> d \<Longrightarrow> \<exists>n. pmembers n d (indent_members l ms @ t) = Some (ms, t)"
proof (induction l v and l vs and l ms arbitrary: d t and d t and d t rule: json_indent_indent_elems_indent_members.induct)
  case (1 l) show ?case by (intro exI [of _ "Suc 0"]) (simp add: plit_def skip_ws_def json_ws_def)
next
  case (2 l b) show ?case by (intro exI [of _ "Suc 0"]) (simp add: plit_def skip_ws_def json_ws_def)
next
  case (3 l r) then show ?case using pval_num [of r t 0 d] by (intro exI [of _ "Suc 0"]) (simp del: pval.simps)
next
  case (4 l r) then show ?case by (intro exI [of _ "Suc 0"]) (simp add: jraw_def pstr_raw)
next
  case (5 l vs)
  then obtain d' where d: "d = Suc d'" by (cases d) auto
  show ?case
  proof (cases vs)
    case Nil
    with d show ?thesis by (intro exI [of _ "Suc 0"]) simp
  next
    case (Cons w ws)
    have e: "elems_plain vs" "vs \<noteq> []" "edepth vs \<le> d'" using 5(2,3) Cons d by auto
    from parse_indent_list [OF 5(1) [OF Cons e] e(2,1)] show ?thesis by (simp add: d)
  qed
next
  case (6 l ms)
  then obtain d' where d: "d = Suc d'" by (cases d) auto
  show ?case
  proof (cases ms)
    case Nil
    with d show ?thesis by (intro exI [of _ "Suc 0"]) simp
  next
    case (Cons w ws)
    have e: "members_plain ms" "ms \<noteq> []" "mdepth ms \<le> d'" using 6(2,3) Cons d by auto
    from parse_indent_object [OF 6(1) [OF Cons e] e(2)] show ?thesis by (simp add: d)
  qed
next
  case (8 l v vs)
  show ?case
  proof (rule parse_indent_elem)
    show "\<exists>n. pval n d (json_indent (Suc l) v @ t') = Some (v, t')" if "num_end t'" for t' using 8(1) [OF _ _ that] 8(3,5) by simp
    show "\<exists>n. pelems n d (indent_elems l vs @ t) = Some (vs, t)" if "vs \<noteq> []" using 8(2) 8(3,5) that by (cases vs) auto
  qed
next
  case (10 l k v ms)
  show ?case
  proof (rule parse_indent_member)
    show "\<exists>n. pval n d (json_indent (Suc l) v @ t') = Some (v, t')" if "num_end t'" for t' using 10(1) [OF _ _ that] 10(3,5) by simp
    show "\<exists>n. pmembers n d (indent_members l ms @ t) = Some (ms, t)" if "ms \<noteq> []" using 10(2) 10(3,5) that by (cases ms) auto
  qed (use 10(3) in simp)
qed simp_all

lemma json_parse_indent: "json_plain v \<Longrightarrow> jdepth v \<le> max_nesting \<Longrightarrow> json_parse (json_indent l v @ [CHR 0x0A]) = Some v"
proof -
  assume "json_plain v" "jdepth v \<le> max_nesting"
  moreover have "num_end [CHR 0x0A]" using num_end_nl [of 0 "[]"] by (simp add: nl_def)
  ultimately have "json_first (json_indent l v @ [CHR 0x0A]) = Some (v, [CHR 0x0A])" using parse_indent(1) json_first_any_fuel by blast
  then show ?thesis by (simp add: json_parse_def skip_ws_def json_ws_def)
qed

section \<open>Strings\<close>

lemma quote_char_html: "html_char c \<Longrightarrow> ord_of c < 128 \<and> c \<noteq> CHR 0x5C \<and> c \<noteq> CHR 0x22 \<and> 32 \<le> ord_of c"
  by (auto simp: html_char_def ord_of_def)

lemma raw_ok_quote_char: "ord_of c < 128 \<Longrightarrow> raw_ok (quote_char c @ r) = raw_ok r"
  using quote_char_html [of c] by (auto simp: quote_char_def raw_ok_quote_ascii)

lemma unquote_quote_char: "ord_of c < 128 \<Longrightarrow> unquote (quote_char c @ r) = c # unquote r"
  using quote_char_html [of c] unquote_quote_ascii [of c r] by (auto simp: quote_char_def unquote.simps(2) utf8_len_def)

lemma quote_raw_props:
  assumes "ascii s"
  shows raw_ok_quote_raw: "raw_ok (quote_raw s)" and unquote_quote_raw: "unquote (quote_raw s) = s"
  using assms by (induction s) (auto simp: quote_raw.simps(2) raw_ok_quote_char unquote_quote_char)

end
