(* ===== verification/Marshal.thy ===== *)
theory Marshal
  imports Openapi Indent
begin

text \<open>
  \<open>Marshal\<close> of \<open>src/lib/openapi/openapi.go\<close>: the document as indented JSON with a trailing newline, the keys of every object sorted. Reading
  the text gives the document back.
\<close>

section \<open>Writing a document\<close>

text \<open>What \<open>encoding/json\<close> makes of the values of a document; it sorts the keys of a map.\<close>

fun doc_json :: "doc \<Rightarrow> json" where
  "doc_json DNull = JNull"
| "doc_json (DBool b) = JBool b"
| "doc_json (DInt i) = jint i"
| "doc_json (DStr s) = JStr (quote_raw s)"
| "doc_json (DList ds) = JArr (map doc_json ds)"
| "doc_json (DMap ms) = JObj (map (\<lambda>(k, j). (quote_raw k, j)) (sort_key fst (map (\<lambda>(k, d). (k, doc_json d)) ms)))"

definition marshal :: "dmap \<Rightarrow> bytes" where
  "marshal d = json_indent 0 (doc_json (DMap d)) @ [CHR 0x0A]"

section \<open>Reading it back\<close>

fun doc_read :: "json \<Rightarrow> doc" where
  "doc_read JNull = DNull"
| "doc_read (JBool b) = DBool b"
| "doc_read (JNum t) = DInt (case parse_int t of None \<Rightarrow> 0 | Some i \<Rightarrow> i)"
| "doc_read (JStr r) = DStr (unquote r)"
| "doc_read (JArr vs) = DList (map doc_read vs)"
| "doc_read (JObj ms) = DMap (map (\<lambda>(k, v). (unquote k, doc_read v)) ms)"

text \<open>A document with the keys of its maps in order.\<close>

fun doc_sorted :: "doc \<Rightarrow> doc" where
  "doc_sorted (DList ds) = DList (map doc_sorted ds)"
| "doc_sorted (DMap ms) = DMap (sort_key fst (map (\<lambda>(k, d). (k, doc_sorted d)) ms))"
| "doc_sorted d = d"

fun doc_plain :: "doc \<Rightarrow> bool" where
  "doc_plain (DInt i) = int64_ok i"
| "doc_plain (DStr s) = ascii s"
| "doc_plain (DList ds) = list_all doc_plain ds"
| "doc_plain (DMap ms) = list_all (\<lambda>(k, d). ascii k \<and> doc_plain d) ms"
| "doc_plain d = True"

lemma elems_plain_iff: "elems_plain vs \<longleftrightarrow> list_all json_plain vs"
  by (induction vs) auto

lemma members_plain_iff: "members_plain ms \<longleftrightarrow> list_all (\<lambda>(k, v). raw_ok k \<and> json_plain v) ms"
  by (induction ms) auto

lemma doc_json_plain: "doc_plain d \<Longrightarrow> json_plain (doc_json d)"
proof (induction d rule: doc_json.induct)
  case (3 i) then show ?case by (simp add: jint_def num_ok_def parse_int_show_int)
next
  case (6 ms)
  then show ?case by (fastforce simp: members_plain_iff list_all_iff raw_ok_quote_raw)
qed (auto simp: elems_plain_iff list_all_iff raw_ok_quote_raw)

text \<open>Sorting commutes with a change of the values only.\<close>

lemma insort_values: "map (\<lambda>(k, v). (k, f v)) (insort_key fst x xs) = insort_key fst (fst x, f (snd x)) (map (\<lambda>(k, v). (k, f v)) xs)"
  by (induction xs) (auto simp: split_def)

lemma sort_values: "map (\<lambda>(k, v). (k, f v)) (sort_key fst xs) = sort_key fst (map (\<lambda>(k, v). (k, f v)) xs)"
  by (induction xs) (auto simp: insort_values)

lemma doc_read_json: "doc_plain d \<Longrightarrow> doc_read (doc_json d) = doc_sorted d"
proof (induction d rule: doc_json.induct)
  case (3 i) then show ?case by (simp add: jint_def parse_int_show_int)
next
  case (6 ms)
  let ?s = "sort_key fst ms"
  have s: "sort_key fst (map (\<lambda>(k, d). (k, f d)) ms) = map (\<lambda>(k, d). (k, f d)) ?s" for f :: "doc \<Rightarrow> 'a" by (simp add: sort_values)
  have "(unquote (quote_raw k), doc_read (doc_json d)) = (k, doc_sorted d)" if "(k, d) \<in> set ?s" for k d
    using 6 that by (auto simp: list_all_iff unquote_quote_raw)
  then show ?case by (auto simp: s intro!: map_cong)
qed (auto simp: list_all_iff unquote_quote_raw)

text \<open>The text of a document depends only on what its maps hold, not on the order in which it was put there.\<close>

lemma doc_json_sorted: "doc_json (doc_sorted d) = doc_json d"
proof (induction d rule: doc_json.induct)
  case (6 ms)
  have "map (\<lambda>(k, d). (k, doc_json (doc_sorted d))) ms = map (\<lambda>(k, d). (k, doc_json d)) ms" using 6 by auto
  moreover have "map (\<lambda>(k, d). (k, doc_json d)) (sort_key fst (map (\<lambda>(k, d). (k, doc_sorted d)) ms))
     = sort_key fst (map (\<lambda>(k, d). (k, doc_json (doc_sorted d))) ms)"
    unfolding sort_values by (simp add: comp_def split_def)
  moreover have "sort_key fst (sort_key fst xs) = sort_key fst xs" for xs :: "(string \<times> json) list" by (rule sort_key_id_if_sorted) simp
  ultimately have "sort_key fst (map (\<lambda>(k, d). (k, doc_json d)) (sort_key fst (map (\<lambda>(k, d). (k, doc_sorted d)) ms)))
     = sort_key fst (map (\<lambda>(k, d). (k, doc_json d)) ms)"
    by metis
  then show ?case by simp
qed auto

lemma marshal_order: "doc_sorted (DMap d) = doc_sorted (DMap d') \<Longrightarrow> marshal d = marshal d'"
  unfolding marshal_def by (metis doc_json_sorted)

text \<open>What \<open>Marshal\<close> writes parses, and what is read from it is the document with its keys in order.\<close>

lemma marshal_reads:
  assumes "doc_plain (DMap d)" "jdepth (doc_json (DMap d)) \<le> max_nesting"
  shows "map_option doc_read (json_parse (marshal d)) = Some (doc_sorted (DMap d))"
  unfolding marshal_def json_parse_indent [OF doc_json_plain [OF assms(1)] assms(2)] option.map doc_read_json [OF assms(1)] ..

end
