(* ===== verification/Spec2Isabelle.thy ===== *)
theory Spec2Isabelle
  imports Host Idem_Race Session Heartbeat Standalone Describe Marshal
begin

text \<open>
  Verification library of the Go module \<^verbatim>\<open>github.com/apostoldevel/go-platform\<close>: a REST front for PostgreSQL in which every request is one
  database transaction, the modules that are mounted on it, and the client with which a process announces itself to a gateway.

  \<^bold>\<open>The program.\<close> A request reaches \<open>Platform.ServeHTTP\<close> (\<open>src/module.go\<close>), which verifies its bearer token (\<open>src/lib/auth/jwt\<close>), finds the address of
  the client, refuses what is not canonical and dispatches on \<open>http.ServeMux\<close>. A handler of \<open>src/lib/rest\<close> or \<open>src/lib/entity\<close> reads the parameters of
  a list (\<open>src/lib/query\<close>), a body, an id or a precondition, and runs its work through \<open>Runner.Do\<close> (\<open>src/lib/pgtx\<close>), which opens the transaction,
  authorizes the session, runs the handler under a savepoint, journals the request and commits or rolls back. There are two roads: the direct one, on which the
  process calls the functions of the schema \<open>api\<close>, and the daemon road, on which the schema \<open>daemon\<close> does it. Errors are RFC 9457 documents
  (\<open>src/lib/problem\<close>). The modules (\<open>src/admin\<close>, \<open>src/workflow\<close>, \<open>src/registry\<close>, \<open>src/entity/object\<close> and the others) are tables of such handlers.
  Beside the requests, \<open>src/lib/gatewayclient\<close> keeps one registered session with a gateway: it reconnects, beats, says ready, overloaded or draining, and
  drains; its frames are \<open>src/lib/gateway/frame\<close>, and \<open>src/internal/gatewaystub\<close> is the other side of the protocol. \<open>src/lib/openapi\<close> builds the description
  of the routes.

  \<^bold>\<open>The theories.\<close>
  \<^item> \<open>Prelude\<close> (strings as bytes, \<open>strings\<close>, \<open>strconv\<close>, int32 and int64), \<open>Json\<close> (\<open>encoding/json\<close>), \<open>Base64\<close>, \<open>Netip\<close> (\<open>net\<close>, \<open>net/netip\<close>), \<open>Mux\<close>
    (\<open>path.Clean\<close>, \<open>ServeMux\<close>): the standard library as far as the sources use it. \<open>Json\<close> shows that what is printed parses back.
  \<^item> \<open>Problem\<close> (\<open>problem.go\<close>), \<open>Query\<close> (\<open>query.go\<close>), \<open>Jwt\<close> (\<open>jwt.go\<close>), \<open>Frame\<close> (\<open>frame.go\<close>): the values at the edges. Round trips of frames and tokens, soundness
    of \<open>Verify\<close>, bounds and identifiers of an accepted query.
  \<^item> \<open>Args\<close>, \<open>Driver\<close>, \<open>Pgtx\<close>, \<open>Road\<close>, \<open>Request_Road\<close>, \<open>Journal\<close> (\<open>call.go\<close>, \<open>pgtx.go\<close>, \<open>daemon.go\<close>): the request transaction. The state \<open>pst\<close> is the
    trace of what was sent to the database with its answers; \<open>durable\<close> reads off the trace what a transaction left. The locale \<open>request_road\<close> states what a
    road promises a handler and is interpreted on both; an error leaves nothing but the journal, a success everything, and the journal bears the status of
    the answer and the payload the request was given. A sequence of requests has a session, a request and a handler for each.
  \<^item> \<open>Rest\<close>, \<open>Idem\<close>, \<open>Idem_Race\<close>, \<open>Access\<close>, \<open>Writable\<close> (\<open>rest.go\<close>, \<open>access.go\<close>, \<open>writable.go\<close>): the handlers. Conditional reads, writes guarded by \<open>If-Match\<close>, replay of an
    idempotent POST, bounds of an access mask. \<open>Idem\<close> has \<open>Once\<close> for a request alone, \<open>Idem_Race\<close> for any number at the same time, one step for each
    hold of the mutex: a replay is the answer to a request of the same user, path, key and body, and two runs of one key overlap
    or lie further apart than answers are kept.
  \<^item> \<open>Entity\<close>, \<open>Entities\<close>, \<open>Objects\<close>, \<open>Admin\<close>, \<open>Catalogues\<close>, \<open>Services\<close>: the entity form and the modules, one definition for each route. The search for a
    term is literal up to case, the arguments of every entity stand under their own names, a secret spelled as the API spells it is in no durable
    statement of the journal.
  \<^item> \<open>Host\<close> (\<open>module.go\<close>): \<open>New\<close>, the announced prefixes, the address of the client, \<open>ServeHTTP\<close>. The theorems here compose everything above: what the host
    answers agrees with the journal, whoever changes anything was authenticated, tokens no key has signed are told nothing.
  \<^item> \<open>Openapi\<close>, \<open>Indent\<close>, \<open>Marshal\<close>, \<open>Describe\<close> (\<open>openapi.go\<close>, \<open>lib/entity/openapi.go\<close>): the description of the routes. The builder is shown equal to a definition with no state;
    \<open>Build\<close> accepts exactly what can be described, no reference dangles, what \<open>Marshal\<close> writes reads back as the document, and what an entity
    describes is what its mux serves.
  \<^item> \<open>Steps\<close>, \<open>Load\<close>, \<open>Status\<close>, \<open>Gateway\<close> (\<open>load.go\<close>, \<open>client.go\<close>, \<open>session.go\<close>): the gateway client. \<open>Load\<close> and \<open>Status\<close> are interleavings, one step for each
    atomic access or hold of a mutex, with invariants by rule induction through the locales \<open>invariant\<close> and \<open>resting\<close>; \<open>Gateway\<close> has the sequential
    parts, with what the network does as their input.
  \<^item> \<open>Stub\<close>, \<open>Observe\<close>, \<open>Standalone\<close> (\<open>stub.go\<close>, \<open>standalone.go\<close>, \<open>recorder.go\<close>): the gateway's side of the protocol and what a test sees of it; its records only grow,
    and it accepts the tokens it hands out.
    \<open>Session\<close> has the calls and the drain of a session and what the gateway hears of a drain, \<open>Heartbeat\<close> the instants of the heartbeats and the watch
    of the gateway, and this theory the registration of the platform with it.

  \<^bold>\<open>Parameters.\<close> Code that is not in the repository is an argument: the database with its driver (\<open>env\<close>, an answer for every statement in every state of the
  trace), the MAC of a token (\<open>mac\<close>), the digest of a row or a body (\<open>hash\<close>), the reading of a decimal as \<open>float64\<close> (\<open>float_of\<close>), the random bytes of an id, the
  clock, PostgreSQL's LIKE, ILIKE and lower case (\<open>ilike_laws\<close> says what the search relies on). The request theorems quantify over every \<open>env\<close>. The lock of a transaction and the isolation of concurrent transactions are the database's, so
  a history is a sequence of requests.

  \<^bold>\<open>Fuel and bounds.\<close> Only the JSON parser runs on fuel; \<open>json_parse\<close> gives it twice the length of the text and two more, and \<open>pval_enough\<close> shows that more never changes
  the result. Every other recursion is structural or has its measure. The loop of \<open>Run\<close> is a function of the list of session outcomes, so that a loop that
  never ends is all its finite prefixes.

  \<^bold>\<open>Not modelled.\<close> The texts of logs; \<open>%q\<close> in an error text is written without escapes; the rounding of \<open>float64\<close>; TLS and sockets; what \<open>net/http\<close> makes of a status that is not final
  (from 100 to 199 it sends it at once and 200 at the end, below 100 and above 999 it panics), which only a catalogue code of such a group or a status
  answered by \<open>daemon.begin\<close> can be; an acknowledgement of a COMMIT that was kept and got lost; timers but for those of the heartbeats;
  the helpers of the tests (\<open>internal/resttest\<close>, \<open>internal/entitytest\<close>, \<open>pgtxtest\<close>,
  which drive a live database or a test), the flags and the listener of the stub, and the version constant.
\<close>

section \<open>The process and the gateway\<close>

abbreviation announced :: "string list" where
  "announced \<equiv> removeAll ''/api/v2/me/event-log'' platform_prefixes"

lemma announced_prefixes: "prefixes (platform_modules flt now x t1 t2 idem) = announced"
  by (simp only: prefixes_def Let_def platform_prefixes platform_disjoint(2))

lemma announced_accepted: "announced \<noteq> []" "check_prefixes [] announced = None" "list_all prefix_re announced" "list_all ascii announced"
  by code_simp+

text \<open>A client that announces the prefixes of the platform is never refused for one of them.\<close>

lemma platform_prefixes_accepted:
  "client_new (cfg\<lparr>g_prefixes := prefixes (platform_modules flt now x t1 t2 idem)\<rparr>) \<noteq> Inl (Bad_prefix p)"
proof -
  have "find (\<lambda>p. \<not> prefix_re p) announced = None" using announced_accepted(3) by (auto simp: find_None_iff list_all_iff)
  then show ?thesis by (simp add: client_new_def Let_def announced_prefixes)
qed

lemma segment_ascii: "segment_re s \<Longrightarrow> ascii s"
  by (cases s) (auto simp: segment_re_def seg_char_def is_lower_def is_digit_def list_all_iff ascii_def ord_of_def)

text \<open>C19: the platform, the gateway client and the protocol fit: a client configured with the prefixes the platform announces and a port
  to listen on registers with a gateway reached over the loopback interface. The gateway answers its registration with the acknowledgement,
  which opens the session with the gateway's interval, and has recorded the prefixes the platform serves.\<close>

theorem platform_registers:
  fixes rnd :: "nat list"
  assumes "client_new (cfg\<lparr>g_prefixes := prefixes (platform_modules flt now x t1 t2 idem), g_address := []\<rparr>) = Inr c"
    and "1 \<le> g_listen_port cfg" "g_listen_port cfg \<le> 65535" "int64_ok (g_capacity cfg)"
    and "1 \<le> so_interval o1" "int64_ok (so_interval o1)"
  defines "f \<equiv> new_call rnd ''/register'' (Some (register_payload c (resolved c None)))"
  shows "\<exists>a s. stub_call k (g_module cfg) (g_instance cfg) t False f (stub_new o1) = ([Sent a], True, True, s)
     \<and> fst (open_session c (Some tok) (Dial_ok None) (Answered a)) = Inr (wrap64 (seconds (so_interval o1)))
     \<and> map sr_prefixes (st_registrations s) = [prefixes (platform_modules flt now x t1 t2 idem)]"
proof -
  have seg: "segment_re (g_module cfg)" "segment_re (g_instance cfg)" and cap: "1 \<le> g_capacity cfg"
    and c: "gc_reg c = \<lparr>reg_address = [], reg_prefixes = announced, reg_capacity = g_capacity cfg\<rparr>"
      "g_module (gc_cfg c) = g_module cfg" "g_instance (gc_cfg c) = g_instance cfg" "g_listen_port (gc_cfg c) = g_listen_port cfg"
    using assms(1) by (auto simp: client_new_def Let_def announced_prefixes split: if_splits option.splits)
  have addr: "resolved c None = ''127.0.0.1:'' @ show_int (g_listen_port cfg)" by (simp add: resolved_def c)
  have opts: "st_fail_code (stub_new o1) = 0" "st_conn (stub_new o1) = None" "st_registrations (stub_new o1) = []" "so_interval (st_opts (stub_new o1)) = so_interval o1"
    using assms(5) by (auto simp: stub_new_def Let_def)
  have f: "f_payload f = Some (register_payload c (resolved c None))" "f_action f = ''/register''" "f_type f = t_call"
    by (simp_all add: f_def new_call_def)
  note asc = segment_ascii [OF seg(1)] segment_ascii [OF seg(2)] loopback_address [OF assms(2,3)]
  have "check_register (stub_new o1) f (g_module cfg) (g_instance cfg) = None"
    using register_checked [of c "resolved c None" "stub_new o1" f] asc announced_accepted assms(4) cap opts(1) f(1) by (simp add: c addr)
  moreover obtain g where g: "decode_payload registration_fields (f_payload f) = (g, None)" "sr_prefixes (registration_of g) = announced"
    using register_decodes [of c "resolved c None"] asc announced_accepted(4) assms(4) f(1) by (auto simp: c addr)
  ultimately obtain s where "stub_call k (g_module cfg) (g_instance cfg) t False f (stub_new o1)
       = ([Sent (frame_result f (Some (ack_payload (st_opts (stub_new o1)) (g_instance cfg))))], True, True, s)"
    "map sr_prefixes (st_registrations s) = [announced]"
    by (simp add: stub_call_def f(2) stub_register_def opts set_beat_def)
  moreover have "fst (open_session c (Some tok) (Dial_ok None) (Answered (frame_result f (Some (ack_payload (st_opts (stub_new o1)) (g_instance cfg))))))
     = Inr (wrap64 (seconds (so_interval o1)))"
    using ack_opens [of "st_opts (stub_new o1)" f] assms(5,6) f(3) opts(4) by simp
  ultimately show ?thesis by (auto simp: announced_prefixes)
qed

definition sample_options :: stub_options where
  "sample_options = \<lparr>so_secret = ''s'', so_audience = ''gateway'', so_interval = 5, so_suspect = 2, so_offline = 4, so_register_timeout = 0,
     so_reject_after_upgrade = False\<rparr>"

theorem platform_registers_witness:
  "\<forall>flt now x t1 t2 idem. \<exists>c a s.
     client_new (sample_gconfig\<lparr>g_prefixes := prefixes (platform_modules flt now x t1 t2 idem), g_listen_port := 8080, g_address := []\<rparr>) = Inr c
     \<and> stub_call 0 (g_module sample_gconfig) (g_instance sample_gconfig) 0 False
          (new_call (replicate 16 7) ''/register'' (Some (register_payload c (resolved c None)))) (stub_new sample_options) = ([Sent a], True, True, s)
     \<and> fst (open_session c (Some ''t'') (Dial_ok None) (Answered a)) = Inr (wrap64 (seconds 5))
     \<and> map sr_prefixes (st_registrations s) = [prefixes (platform_modules flt now x t1 t2 idem)]"
proof (intro allI)
  fix flt now x t1 t2 idem
  let ?cfg = "sample_gconfig\<lparr>g_listen_port := 8080\<rparr>"
  have "\<not> isl (client_new (?cfg\<lparr>g_prefixes := announced, g_address := []\<rparr>))" by code_simp
  then obtain c where c: "client_new (?cfg\<lparr>g_prefixes := prefixes (platform_modules flt now x t1 t2 idem), g_address := []\<rparr>) = Inr c"
    unfolding announced_prefixes by (cases "client_new (?cfg\<lparr>g_prefixes := announced, g_address := []\<rparr>)") auto
  have n: "1 \<le> g_listen_port ?cfg" "g_listen_port ?cfg \<le> 65535" "int64_ok (g_capacity ?cfg)" "1 \<le> so_interval sample_options" "int64_ok (so_interval sample_options)"
    by (simp_all add: sample_gconfig_def sample_options_def int64_ok_def)
  have "?cfg\<lparr>g_prefixes := prefixes (platform_modules flt now x t1 t2 idem), g_address := []\<rparr>
     = sample_gconfig\<lparr>g_prefixes := prefixes (platform_modules flt now x t1 t2 idem), g_listen_port := 8080, g_address := []\<rparr>" by simp
  with c platform_registers [OF c n, of 0 0 "replicate 16 7" "''t''"] show "\<exists>c a s.
     client_new (sample_gconfig\<lparr>g_prefixes := prefixes (platform_modules flt now x t1 t2 idem), g_listen_port := 8080, g_address := []\<rparr>) = Inr c
     \<and> stub_call 0 (g_module sample_gconfig) (g_instance sample_gconfig) 0 False
          (new_call (replicate 16 7) ''/register'' (Some (register_payload c (resolved c None)))) (stub_new sample_options) = ([Sent a], True, True, s)
     \<and> fst (open_session c (Some ''t'') (Dial_ok None) (Answered a)) = Inr (wrap64 (seconds 5))
     \<and> map sr_prefixes (st_registrations s) = [prefixes (platform_modules flt now x t1 t2 idem)]"
    by (simp add: sample_options_def)
qed

end
